(* ===== verification/Prelude.thy ===== *)
theory Prelude
  imports Main "HOL-Library.Word"
begin

text \<open>
  Shared vocabulary of the development: the machine types of \<^verbatim>\<open>kernel/types.h\<close>, the outcome
  of a kernel operation, and byte-addressed memory with little-endian accesses.

  \<^item> A kernel function returns (\<open>Done\<close>), stops the machine through \<^verbatim>\<open>panic\<close> (\<open>Panic\<close>, with the
    message of the source), puts its process to sleep inside the call (\<open>Sleep\<close>, with the state
    at that moment), or spins forever on the calling hart (\<open>Spin\<close>).
  \<^item> \<open>bnd\<close> sequences two operations; everything but \<open>Done\<close> ends the sequence.
  \<^item> Memory maps 64-bit addresses to bytes. \<open>rd_bytes\<close> and \<open>wr_bytes\<close> move byte lists, and the
    accesses of 2, 4 and 8 bytes go through them, low byte first as RISC-V does.
\<close>

unbundle bit_operations_syntax

section \<open>Machine types and constants\<close>

type_synonym u8 = "8 word"
type_synonym u16 = "16 word"
type_synonym u32 = "32 word"
type_synonym u64 = "64 word"

type_synonym mem = "u64 \<Rightarrow> u8"

named_theorems kdefs \<open>definitions of the kernel operations, unfolded by the component proofs\<close>
named_theorems mem_simps \<open>facts on byte memory\<close>

section \<open>Outcomes of kernel operations\<close>

datatype ('a, 's) outcome =
    Done 'a 's
  | Panic string
  | Sleep 's
  | Spin

fun bnd :: "('a, 's) outcome \<Rightarrow> ('a \<Rightarrow> 's \<Rightarrow> ('b, 's) outcome) \<Rightarrow> ('b, 's) outcome" where
  "bnd (Done x s) f = f x s"
| "bnd (Panic e) f = Panic e"
| "bnd (Sleep s) f = Sleep s"
| "bnd Spin f = Spin"

fun returns :: "('a, 's) outcome \<Rightarrow> bool" where
  "returns (Done x s) = True"
| "returns _ = False"

lemma bnd_Done_iff:
  "bnd m f = Done y t \<longleftrightarrow> (\<exists>x s. m = Done x s \<and> f x s = Done y t)"
  by (cases m) auto

lemma bnd_DoneE:
  assumes "bnd m f = Done y t"
  obtains x s where "m = Done x s" and "f x s = Done y t"
  using assms by (auto simp: bnd_Done_iff)

lemma bnd_assoc: "bnd (bnd m f) g = bnd m (\<lambda>x s. bnd (f x s) g)"
  by (cases m) auto

lemma bnd_return: "bnd m Done = m"
  by (cases m) auto

lemma returns_iff: "returns m \<longleftrightarrow> (\<exists>x s. m = Done x s)"
  by (cases m) auto

lemma bnd_cong [fundef_cong]:
  "m = m' \<Longrightarrow> (\<And>x s. m' = Done x s \<Longrightarrow> f x s = g x s) \<Longrightarrow> bnd m f = bnd m' g"
  by (cases m') auto

section \<open>Bytes of a word\<close>

fun bytes_to_word :: "u8 list \<Rightarrow> 'a::len word" where
  "bytes_to_word [] = 0"
| "bytes_to_word (b # bs) = ucast b OR push_bit 8 (bytes_to_word bs)"

fun word_to_bytes :: "nat \<Rightarrow> 'a::len word \<Rightarrow> u8 list" where
  "word_to_bytes 0 w = []"
| "word_to_bytes (Suc n) w = ucast w # word_to_bytes n (drop_bit 8 w)"

lemma length_word_to_bytes [simp]: "length (word_to_bytes n w) = n"
  by (induction n arbitrary: w) auto

lemma bytes_to_word_to_bytes:
  "bytes_to_word (word_to_bytes n (w :: 'a::len word)) = take_bit (8 * n) w"
proof (induction n arbitrary: w)
  case 0
  show ?case by simp
next
  case (Suc n)
  have "ucast (ucast w :: u8) OR push_bit 8 (take_bit (8 * n) (drop_bit 8 w)) =
      take_bit (8 * Suc n) w"
    by (rule bit_word_eqI) (auto simp: bit_simps)
  then show ?case by (simp add: Suc.IH)
qed

lemma bytes_word_roundtrip:
  assumes "LENGTH('a::len) \<le> 8 * n"
  shows "bytes_to_word (word_to_bytes n (w :: 'a word)) = w"
  using assms by (simp add: bytes_to_word_to_bytes take_bit_word_eq_self)

section \<open>Byte memory\<close>

definition rd_bytes :: "mem \<Rightarrow> u64 \<Rightarrow> nat \<Rightarrow> u8 list" where
  "rd_bytes m a n = map (\<lambda>i. m (a + word_of_nat i)) [0..<n]"

definition wr_bytes :: "mem \<Rightarrow> u64 \<Rightarrow> u8 list \<Rightarrow> mem" where
  "wr_bytes m a bs =
     (\<lambda>x. if unat (x - a) < length bs then bs ! unat (x - a) else m x)"

definition ld64 :: "mem \<Rightarrow> u64 \<Rightarrow> u64" where
  "ld64 m a = bytes_to_word (rd_bytes m a 8)"

definition st64 :: "mem \<Rightarrow> u64 \<Rightarrow> u64 \<Rightarrow> mem" where
  "st64 m a v = wr_bytes m a (word_to_bytes 8 v)"

definition ld32 :: "mem \<Rightarrow> u64 \<Rightarrow> u32" where
  "ld32 m a = bytes_to_word (rd_bytes m a 4)"

definition st32 :: "mem \<Rightarrow> u64 \<Rightarrow> u32 \<Rightarrow> mem" where
  "st32 m a v = wr_bytes m a (word_to_bytes 4 v)"

text \<open>The \<open>n\<close> bytes from \<open>a\<close> and the \<open>k\<close> bytes from \<open>b\<close> have no byte in common.\<close>

definition disjoint :: "u64 \<Rightarrow> nat \<Rightarrow> u64 \<Rightarrow> nat \<Rightarrow> bool" where
  "disjoint a n b k \<longleftrightarrow> (\<forall>x. \<not> (unat (x - a) < n \<and> unat (x - b) < k))"

lemma length_rd_bytes [simp]: "length (rd_bytes m a n) = n"
  by (simp add: rd_bytes_def)

lemma nth_rd_bytes: "i < n \<Longrightarrow> rd_bytes m a n ! i = m (a + word_of_nat i)"
  by (simp add: rd_bytes_def)

lemma rd_wr_bytes_same [mem_simps]:
  assumes "length bs \<le> 2 ^ 64" and "n = length bs"
  shows "rd_bytes (wr_bytes m a bs) a n = bs"
proof (rule nth_equalityI)
  show "length (rd_bytes (wr_bytes m a bs) a n) = length bs" using assms by simp
next
  fix i assume "i < length (rd_bytes (wr_bytes m a bs) a n)"
  then have i: "i < length bs" using assms by simp
  then have "unat (word_of_nat i :: u64) = i"
    using assms by (simp add: unat_of_nat)
  then show "rd_bytes (wr_bytes m a bs) a n ! i = bs ! i"
    using i assms by (simp add: nth_rd_bytes wr_bytes_def)
qed

lemma disjoint_sym: "disjoint a n b k \<longleftrightarrow> disjoint b k a n"
  by (auto simp: disjoint_def)

lemma rd_wr_bytes_disjoint [mem_simps]:
  assumes "disjoint a (length bs) b n" and "n \<le> 2 ^ 64"
  shows "rd_bytes (wr_bytes m a bs) b n = rd_bytes m b n"
proof -
  have "wr_bytes m a bs (b + word_of_nat i) = m (b + word_of_nat i)" if "i < n" for i
  proof -
    have "unat (word_of_nat i :: u64) = i"
      using that assms(2) by (simp add: unat_of_nat)
    then have "unat ((b + word_of_nat i) - b) < n"
      using that by simp
    then have "\<not> unat ((b + word_of_nat i) - a) < length bs"
      using assms(1) unfolding disjoint_def by blast
    then show ?thesis by (simp add: wr_bytes_def)
  qed
  then show ?thesis by (simp add: rd_bytes_def)
qed

lemma ld64_st64_same [simp]: "ld64 (st64 m a v) a = v"
  by (simp add: ld64_def st64_def mem_simps bytes_word_roundtrip)

lemma ld64_st64_disjoint:
  "disjoint a 8 b 8 \<Longrightarrow> ld64 (st64 m a v) b = ld64 m b"
  by (simp add: ld64_def st64_def mem_simps)

lemma ld32_st32_same [simp]: "ld32 (st32 m a v) a = v"
  by (simp add: ld32_def st32_def mem_simps bytes_word_roundtrip)

lemma ld32_st32_disjoint:
  "disjoint a 4 b 4 \<Longrightarrow> ld32 (st32 m a v) b = ld32 m b"
  by (simp add: ld32_def st32_def mem_simps)

end
