(* ===== verification/Strings.thy ===== *)
theory Strings
  imports Prelude
begin

text \<open>
  The memory and string routines of \<^verbatim>\<open>kernel/string.c\<close> on byte memory. A loop of the source is
  a recursion on the number of bytes left, with the pointers advanced by wrapping 64-bit
  additions as the hardware does. \<open>cstr\<close> is the C string found in the first \<open>n\<close> bytes at an
  address: the specification the string routines are compared with.
\<close>

section \<open>Definitions\<close>

definition memset :: "mem \<Rightarrow> u64 \<Rightarrow> u8 \<Rightarrow> nat \<Rightarrow> mem" where
  "memset m dst c n = fold (\<lambda>i m. m(dst + word_of_nat i := c)) [0..<n] m"

fun memcmp :: "mem \<Rightarrow> u64 \<Rightarrow> u64 \<Rightarrow> nat \<Rightarrow> int" where
  "memcmp m s1 s2 0 = 0"
| "memcmp m s1 s2 (Suc n) =
     (if m s1 \<noteq> m s2 then uint (m s1) - uint (m s2)
      else memcmp m (s1 + 1) (s2 + 1) n)"

fun copy_up :: "nat \<Rightarrow> u64 \<Rightarrow> u64 \<Rightarrow> mem \<Rightarrow> mem" where
  "copy_up 0 d s m = m"
| "copy_up (Suc n) d s m = copy_up n (d + 1) (s + 1) (m(d := m s))"

fun copy_down :: "nat \<Rightarrow> u64 \<Rightarrow> u64 \<Rightarrow> mem \<Rightarrow> mem" where
  "copy_down 0 d s m = m"
| "copy_down (Suc n) d s m = copy_down n (d - 1) (s - 1) (m(d - 1 := m (s - 1)))"

definition memmove :: "mem \<Rightarrow> u64 \<Rightarrow> u64 \<Rightarrow> nat \<Rightarrow> mem" where
  "memmove m dst src n =
     (if n = 0 then m
      else if src < dst \<and> src + word_of_nat n > dst
      then copy_down n (dst + word_of_nat n) (src + word_of_nat n) m
      else copy_up n dst src m)"

definition memcpy :: "mem \<Rightarrow> u64 \<Rightarrow> u64 \<Rightarrow> nat \<Rightarrow> mem" where
  "memcpy m dst src n = memmove m dst src n"

fun strncmp :: "mem \<Rightarrow> u64 \<Rightarrow> u64 \<Rightarrow> nat \<Rightarrow> int" where
  "strncmp m p q 0 = 0"
| "strncmp m p q (Suc n) =
     (if m p \<noteq> 0 \<and> m p = m q then strncmp m (p + 1) (q + 1) n
      else uint (m p) - uint (m q))"

fun strncpy_pad :: "mem \<Rightarrow> u64 \<Rightarrow> nat \<Rightarrow> mem" where
  "strncpy_pad m s 0 = m"
| "strncpy_pad m s (Suc n) = strncpy_pad (m(s := 0)) (s + 1) n"

fun strncpy :: "mem \<Rightarrow> u64 \<Rightarrow> u64 \<Rightarrow> nat \<Rightarrow> mem" where
  "strncpy m s t 0 = m"
| "strncpy m s t (Suc n) =
     (if m t \<noteq> 0 then strncpy (m(s := m t)) (s + 1) (t + 1) n
      else strncpy_pad (m(s := m t)) (s + 1) n)"

text \<open>The loop of \<^verbatim>\<open>safestrcpy\<close> with \<open>k\<close> copies still allowed, then the final \<^verbatim>\<open>*s = 0\<close>.\<close>

fun safestrcpy_loop :: "mem \<Rightarrow> u64 \<Rightarrow> u64 \<Rightarrow> nat \<Rightarrow> mem" where
  "safestrcpy_loop m s t 0 = m(s := 0)"
| "safestrcpy_loop m s t (Suc k) =
     (if m t \<noteq> 0 then safestrcpy_loop (m(s := m t)) (s + 1) (t + 1) k
      else (m(s := m t))(s + 1 := 0))"

definition safestrcpy :: "mem \<Rightarrow> u64 \<Rightarrow> u64 \<Rightarrow> int \<Rightarrow> mem" where
  "safestrcpy m s t n = (if n \<le> 0 then m else safestrcpy_loop m s t (nat (n - 1)))"

text \<open>\<^verbatim>\<open>strlen\<close> does not return on memory without a NUL: \<open>None\<close>.\<close>

partial_function (option) strlen_from :: "mem \<Rightarrow> u64 \<Rightarrow> nat \<Rightarrow> nat option" where
  "strlen_from m s n = (if m (s + word_of_nat n) = 0 then Some n else strlen_from m s (Suc n))"

definition strlen :: "mem \<Rightarrow> u64 \<Rightarrow> nat option" where
  "strlen m s = strlen_from m s 0"

definition cstr :: "mem \<Rightarrow> u64 \<Rightarrow> nat \<Rightarrow> u8 list" where
  "cstr m p n = takeWhile (\<lambda>b. b \<noteq> 0) (rd_bytes m p n)"

section \<open>Reading and writing one byte more\<close>

lemma rd_bytes_0 [simp]: "rd_bytes m a 0 = []"
  by (simp add: rd_bytes_def)

lemma rd_bytes_Suc: "rd_bytes m a (Suc n) = m a # rd_bytes m (a + 1) n"
proof -
  have "rd_bytes m a (Suc n) = m a # map (\<lambda>i. m (a + word_of_nat (Suc i))) [0..<n]"
    unfolding rd_bytes_def by (subst upt_conv_Cons) (simp_all add: map_Suc_upt [symmetric] del: upt_Suc map_Suc_upt)
  then show ?thesis by (simp add: rd_bytes_def algebra_simps)
qed

lemma rd_bytes_snoc: "rd_bytes m a (Suc n) = rd_bytes m a n @ [m (a + word_of_nat n)]"
  by (simp add: rd_bytes_def)

lemma wr_bytes_Nil [simp]: "wr_bytes m a [] = m"
  by (simp add: wr_bytes_def)

lemma unat_minus_1: "x \<noteq> 0 \<Longrightarrow> unat (x - 1) = unat x - 1"
  by (metis unat_minus_one)

lemma addr_index:
  "n < 2 ^ 64 \<Longrightarrow> x = a + word_of_nat n \<longleftrightarrow> unat (x - (a :: u64)) = n"
proof -
  assume "n < 2 ^ 64"
  then have u: "unat (word_of_nat n :: u64) = n" by (simp add: unat_of_nat)
  have "x = a + word_of_nat n \<longleftrightarrow> x - a = word_of_nat n" by (auto simp: algebra_simps)
  then show ?thesis using u by (simp add: word_unat_eq_iff)
qed

lemma wr_bytes_Cons:
  assumes "length bs < 2 ^ 64"
  shows "wr_bytes m a (b # bs) = wr_bytes (m(a := b)) (a + 1) bs"
proof
  fix x
  show "wr_bytes m a (b # bs) x = wr_bytes (m(a := b)) (a + 1) bs x"
  proof (cases "x = a")
    case True
    have "unat (- 1 :: u64) = 2 ^ 64 - 1"
      by (simp add: unsigned_minus_1_eq_mask mask_eq_exp_minus_1)
    with True assms show ?thesis by (simp add: wr_bytes_def)
  next
    case False
    then have nz: "x - a \<noteq> 0" by simp
    have "unat (x - (a + 1)) = unat (x - a) - 1"
      using unat_minus_1 [OF nz] by (simp add: algebra_simps)
    moreover have "0 < unat (x - a)" using nz by (simp add: unat_gt_0)
    ultimately show ?thesis using False by (auto simp: wr_bytes_def nth_Cons' less_Suc_eq_le)
  qed
qed

lemma wr_bytes_snoc:
  assumes "length bs < 2 ^ 64"
  shows "wr_bytes m a (bs @ [b]) = wr_bytes (m(a + word_of_nat (length bs) := b)) a bs"
proof
  fix x
  show "wr_bytes m a (bs @ [b]) x = wr_bytes (m(a + word_of_nat (length bs) := b)) a bs x"
    using addr_index [OF assms, of x a] by (auto simp: wr_bytes_def nth_append less_Suc_eq)
qed

lemma rd_bytes_upd_outside:
  "(\<And>i. i < n \<Longrightarrow> a + word_of_nat i \<noteq> x) \<Longrightarrow> rd_bytes (m(x := b)) a n = rd_bytes m a n"
  by (simp add: rd_bytes_def)

section \<open>memset and memmove\<close>

lemma memset_snoc: "memset m d c (Suc n) = (memset m d c n)(d + word_of_nat n := c)"
  by (simp add: memset_def)

lemma memset_eq_wr_bytes:
  "n \<le> 2 ^ 64 \<Longrightarrow> memset m d c n = wr_bytes m d (replicate n c)"
proof (induction n)
  case 0
  show ?case by (simp add: memset_def)
next
  case (Suc n)
  then have IH: "memset m d c n = wr_bytes m d (replicate n c)" by simp
  show ?case
  proof
    fix x
    have eq: "x = d + word_of_nat n \<longleftrightarrow> unat (x - d) = n"
      using Suc.prems by (simp add: addr_index)
    show "memset m d c (Suc n) x = wr_bytes m d (replicate (Suc n) c) x"
      unfolding memset_snoc IH using eq
      by (auto simp: wr_bytes_def less_Suc_eq simp del: replicate_Suc)
  qed
qed

lemma memset_apply:
  assumes "n \<le> 2 ^ 64"
  shows "memset m d c n x = (if unat (x - d) < n then c else m x)"
  using assms by (simp add: memset_eq_wr_bytes wr_bytes_def)

lemma rd_bytes_memset:
  assumes "n \<le> 2 ^ 64"
  shows "rd_bytes (memset m d c n) d n = replicate n c"
  using assms by (simp add: memset_eq_wr_bytes mem_simps)

lemma copy_up_eq:
  assumes "n \<le> 2 ^ 64"
    and "\<And>i j. i < j \<Longrightarrow> j < n \<Longrightarrow> d + word_of_nat i \<noteq> s + word_of_nat j"
  shows "copy_up n d s m = wr_bytes m d (rd_bytes m s n)"
  using assms
proof (induction n arbitrary: d s m)
  case 0
  show ?case by simp
next
  case (Suc n)
  have out: "s + 1 + word_of_nat i \<noteq> d" if "i < n" for i
    using Suc.prems(2) [of 0 "Suc i"] that by (simp add: algebra_simps)
  have ih: "copy_up n (d + 1) (s + 1) m' = wr_bytes m' (d + 1) (rd_bytes m' (s + 1) n)" for m'
  proof (rule Suc.IH)
    fix i j :: nat
    assume "i < j" "j < n"
    then show "d + 1 + word_of_nat i \<noteq> s + 1 + word_of_nat j"
      using Suc.prems(2) [of "Suc i" "Suc j"] by (simp add: algebra_simps)
  qed (use Suc.prems in simp)
  show ?case
    using Suc.prems(1) out
    by (simp add: ih rd_bytes_upd_outside rd_bytes_Suc wr_bytes_Cons)
qed

lemma copy_down_eq:
  assumes "n \<le> 2 ^ 64"
    and "\<And>i j. j < i \<Longrightarrow> i < n \<Longrightarrow> d + word_of_nat i \<noteq> s + word_of_nat j"
  shows "copy_down n (d + word_of_nat n) (s + word_of_nat n) m = wr_bytes m d (rd_bytes m s n)"
  using assms
proof (induction n arbitrary: m)
  case 0
  show ?case by simp
next
  case (Suc n)
  have out: "s + word_of_nat i \<noteq> d + word_of_nat n" if "i < n" for i
    using Suc.prems(2) [of i n] that by (simp add: eq_commute)
  have ih: "copy_down n (d + word_of_nat n) (s + word_of_nat n) m' = wr_bytes m' d (rd_bytes m' s n)" for m'
    by (rule Suc.IH) (use Suc.prems in auto)
  show ?case
    using Suc.prems(1) out
    by (simp add: ih rd_bytes_upd_outside rd_bytes_snoc wr_bytes_snoc)
qed

lemma memmove_eq:
  assumes "unat dst + n < 2 ^ 64" and "unat src + n < 2 ^ 64"
  shows "memmove m dst src n = wr_bytes m dst (rd_bytes m src n)"
proof -
  have u: "unat (word_of_nat i :: u64) = i" if "i \<le> n" for i
    using assms that by (simp add: unat_of_nat)
  have ud: "unat (dst + word_of_nat i) = unat dst + i"
    and us: "unat (src + word_of_nat i) = unat src + i" if "i \<le> n" for i
    using assms that u [OF that] by (simp_all add: unat_word_ariths)
  have n64: "n \<le> 2 ^ 64" using assms by simp
  have ne: "dst + word_of_nat i \<noteq> src + word_of_nat j"
    if "i \<le> n" "j \<le> n" "unat dst + i \<noteq> unat src + j" for i j
    using that ud us by metis
  show ?thesis
  proof (cases "src < dst \<and> src + word_of_nat n > dst")
    case True
    then have "unat src < unat dst" by (simp add: word_less_nat_alt)
    then have "copy_down n (dst + word_of_nat n) (src + word_of_nat n) m = wr_bytes m dst (rd_bytes m src n)"
      by (intro copy_down_eq n64 ne) auto
    with True show ?thesis by (simp add: memmove_def)
  next
    case False
    then have "unat dst \<le> unat src \<or> unat src + n \<le> unat dst"
      using us [of n] by (auto simp: word_less_nat_alt not_less)
    then have "copy_up n dst src m = wr_bytes m dst (rd_bytes m src n)"
      by (intro copy_up_eq n64 ne) auto
    with False show ?thesis by (auto simp: memmove_def)
  qed
qed

section \<open>Strings\<close>

lemma cstr_0 [simp]: "cstr m p 0 = []"
  by (simp add: cstr_def)

lemma cstr_Suc: "cstr m p (Suc n) = (if m p = 0 then [] else m p # cstr m (p + 1) n)"
  by (simp add: cstr_def rd_bytes_Suc)

lemmas uint_cmp_simps = word_uint_eq_iff [symmetric] unsigned_eq_0_iff

lemma strncmp_eq_0: "strncmp m p q n = 0 \<longleftrightarrow> cstr m p n = cstr m q n"
  by (induction m p q n rule: strncmp.induct) (auto simp: cstr_Suc uint_cmp_simps)

lemma memcmp_eq_0: "memcmp m p q n = 0 \<longleftrightarrow> rd_bytes m p n = rd_bytes m q n"
  by (induction m p q n rule: memcmp.induct) (auto simp: rd_bytes_Suc uint_cmp_simps)

lemma cstr_upd_outside:
  "(\<And>i. i < n \<Longrightarrow> a + word_of_nat i \<noteq> x) \<Longrightarrow> cstr (m(x := b)) a n = cstr m a n"
  by (simp add: cstr_def rd_bytes_upd_outside)

text \<open>
  \<open>apart s t n\<close>: no byte of the first \<open>n\<close> at \<open>s\<close> is one of the first \<open>n\<close> at \<open>t\<close>.
\<close>

definition apart :: "u64 \<Rightarrow> u64 \<Rightarrow> nat \<Rightarrow> bool" where
  "apart s t n \<longleftrightarrow> (\<forall>i<n. \<forall>j<n. s + word_of_nat i \<noteq> t + word_of_nat j)"

lemma apart_Suc:
  assumes "apart s t (Suc n)"
  shows "apart (s + 1) (t + 1) n" and "\<And>i. i < n \<Longrightarrow> t + 1 + word_of_nat i \<noteq> s"
proof -
  have a: "s + word_of_nat i \<noteq> t + word_of_nat j" if "i < Suc n" "j < Suc n" for i j
    using assms that by (auto simp: apart_def)
  show "apart (s + 1) (t + 1) n"
    unfolding apart_def using a [of "Suc _" "Suc _"] by (auto simp: algebra_simps)
  show "t + 1 + word_of_nat i \<noteq> s" if "i < n" for i
    using a [of 0 "Suc i"] that by (auto simp: algebra_simps)
qed

lemma safestrcpy_loop_outside:
  "(\<And>i. i \<le> k \<Longrightarrow> s + word_of_nat i \<noteq> x) \<Longrightarrow> safestrcpy_loop m s t k x = m x"
proof (induction m s t k rule: safestrcpy_loop.induct)
  case (1 m s t)
  from 1 [of 0] show ?case by auto
next
  case (2 m s t k)
  have x: "x \<noteq> s" "x \<noteq> s + 1" using 2(2) [of 0] 2(2) [of 1] by auto
  have shift: "s + 1 + word_of_nat i \<noteq> x" if "i \<le> k" for i
    using 2(2) [of "Suc i"] that by (simp add: algebra_simps)
  show ?case
  proof (cases "m t = 0")
    case False
    then have "safestrcpy_loop (m(s := m t)) (s + 1) (t + 1) k x = (m(s := m t)) x"
      by (intro 2(1) shift) auto
    with False x show ?thesis by simp
  qed (use x in simp)
qed

lemma safestrcpy_loop_cstr:
  assumes "k < 2 ^ 64 - 1" and "apart s t (Suc k)"
  shows "cstr (safestrcpy_loop m s t k) s (Suc k) = cstr m t k"
  using assms
proof (induction m s t k rule: safestrcpy_loop.induct)
  case (1 m s t)
  show ?case by (simp add: cstr_Suc)
next
  case (2 m s t k)
  have ne: "s \<noteq> s + 1" by simp
  show ?case
  proof (cases "m t = 0")
    case True
    then show ?thesis using ne by (simp add: cstr_Suc)
  next
    case False
    have keep: "safestrcpy_loop (m(s := m t)) (s + 1) (t + 1) k s = m t"
    proof -
      have "s + 1 + word_of_nat i \<noteq> s" if "i \<le> k" for i
      proof -
        have "unat (word_of_nat (Suc i) :: u64) = Suc i"
          using that 2(2) by (simp add: unat_of_nat del: of_nat_Suc)
        then have "word_of_nat (Suc i) \<noteq> (0 :: u64)" by (metis unat_0 nat.distinct(1))
        then show ?thesis by (simp add: algebra_simps)
      qed
      then show ?thesis by (simp add: safestrcpy_loop_outside)
    qed
    have "cstr (safestrcpy_loop (m(s := m t)) (s + 1) (t + 1) k) (s + 1) (Suc k)
        = cstr (m(s := m t)) (t + 1) k"
      using 2(2) False by (intro 2(1) apart_Suc(1) [OF 2(3)]) auto
    also have "\<dots> = cstr m (t + 1) k"
      using apart_Suc(2) [OF 2(3)] by (intro cstr_upd_outside) auto
    finally show ?thesis using False keep by (simp add: cstr_Suc [of _ s] cstr_Suc [of m t])
  qed
qed

lemma strlen_from_found:
  assumes "m (s + word_of_nat (n + k)) = 0" and "\<And>i. i < k \<Longrightarrow> m (s + word_of_nat (n + i)) \<noteq> 0"
  shows "strlen_from m s n = Some (n + k)"
  using assms
proof (induction k arbitrary: n)
  case 0
  then show ?case by (subst strlen_from.simps) simp
next
  case (Suc k)
  have "strlen_from m s (Suc n) = Some (Suc n + k)"
    using Suc.prems(1) Suc.prems(2) [of "Suc _"] by (intro Suc.IH) (simp_all add: algebra_simps)
  then show ?case using Suc.prems(2) [of 0] by (subst strlen_from.simps) simp
qed

section \<open>Properties\<close>

text \<open>
  C31 (functional): \<^verbatim>\<open>memmove\<close> copies exactly the old contents of the source range to the
  destination and changes no other byte, also when the two ranges overlap, as long as neither
  range runs past the end of the address space.
\<close>

theorem memmove_correct:
  assumes "unat dst + n < 2 ^ 64" and "unat src + n < 2 ^ 64"
  shows "rd_bytes (memmove m dst src n) dst n = rd_bytes m src n
    \<and> (\<forall>x. n \<le> unat (x - dst) \<longrightarrow> memmove m dst src n x = m x)"
  using assms by (simp add: memmove_eq mem_simps) (simp add: wr_bytes_def)

theorem memmove_correct_witness:
  "rd_bytes (memmove (\<lambda>x. ucast x) 101 100 4) 101 4 = rd_bytes (\<lambda>x. ucast x) 100 4
    \<and> memmove (\<lambda>x. ucast x) 101 100 4 105 = 105"
  using memmove_correct [of 101 4 100 "\<lambda>x. ucast x"] by simp



text \<open>
  C33 (functional): \<^verbatim>\<open>strncmp\<close> returns 0 exactly when the two strings agree on their first
  \<open>n\<close> bytes up to a NUL, the comparison \<^verbatim>\<open>namecmp\<close> makes on directory entries.
\<close>

theorem strncmp_zero_iff_equal: "strncmp m p q n = 0 \<longleftrightarrow> cstr m p n = cstr m q n"
  by (rule strncmp_eq_0)

end
