(* ===== verification/Spinlock.thy ===== *)
theory Spinlock
  imports Prelude
begin

text \<open>
  Spin locks (\<^verbatim>\<open>kernel/spinlock.c\<close>, \<^verbatim>\<open>kernel/spinlock.h\<close>, the interrupt helpers of
  \<^verbatim>\<open>kernel/riscv.h\<close> and the per-CPU fields \<^verbatim>\<open>noff\<close> and \<^verbatim>\<open>intena\<close> of \<^verbatim>\<open>kernel/proc.h\<close>), at three
  levels.

  \<^item> The machine: every hart has its \<^verbatim>\<open>sstatus\<close> register and its \<^verbatim>\<open>struct cpu\<close>; every lock is a
    \<^verbatim>\<open>struct spinlock\<close>. \<open>spin_acquire\<close> and \<open>spin_release\<close> are the C functions run by one hart
    without interruption; a lock that another hart holds makes \<open>spin_acquire\<close> spin.
  \<^item> The interleaving: \<open>hart_step\<close> splits acquire and release at their atomic instructions, so
    that any number of harts race for the locks.
  \<^item> The kernel thread: \<open>acquire\<close> and \<open>release\<close> on the list of locks the running thread holds,
    the view every other component of the development uses. \<open>spin_refines\<close> relates it to the
    machine.
\<close>

section \<open>The machine\<close>

text \<open>Names of the kernel's spin locks, one constructor per lock variable of the source.\<close>

datatype lockid =
    L_kmem | L_pid | L_wait | L_ticks | L_sem | L_bcache | L_log | L_itable | L_ftable
  | L_cons | L_pr | L_tx | L_vdisk
  | L_proc nat
  | L_user nat
  | L_pipe u64
  | L_buf nat
  | L_inode nat

record spinlock =
  locked :: u32
  lname :: string
  lcpu :: "nat option"

record cpu =
  noff :: int
  intena :: int

record smp =
  sstatus :: "nat \<Rightarrow> u64"
  cpus :: "nat \<Rightarrow> cpu"
  locks :: "lockid \<Rightarrow> spinlock"

definition SSTATUS_SIE :: u64 where
  "SSTATUS_SIE = push_bit 1 1"

definition intr_on :: "nat \<Rightarrow> smp \<Rightarrow> smp" where
  "intr_on h s = s\<lparr>sstatus := (sstatus s)(h := sstatus s h OR SSTATUS_SIE)\<rparr>"

definition intr_off :: "nat \<Rightarrow> smp \<Rightarrow> smp" where
  "intr_off h s = s\<lparr>sstatus := (sstatus s)(h := sstatus s h AND NOT SSTATUS_SIE)\<rparr>"

definition intr_get :: "nat \<Rightarrow> smp \<Rightarrow> bool" where
  "intr_get h s \<longleftrightarrow> sstatus s h AND SSTATUS_SIE \<noteq> 0"

definition initlock :: "lockid \<Rightarrow> string \<Rightarrow> smp \<Rightarrow> smp" where
  "initlock lk nm s = s\<lparr>locks := (locks s)(lk := \<lparr>locked = 0, lname = nm, lcpu = None\<rparr>)\<rparr>"

definition spin_holding :: "nat \<Rightarrow> lockid \<Rightarrow> smp \<Rightarrow> bool" where
  "spin_holding h lk s \<longleftrightarrow> locked (locks s lk) \<noteq> 0 \<and> lcpu (locks s lk) = Some h"

definition push_off :: "nat \<Rightarrow> smp \<Rightarrow> smp" where
  "push_off h s =
     (let old = intr_get h s;
          s = intr_off h s;
          c = cpus s h;
          c = (if noff c = 0 then c\<lparr>intena := (if old then 1 else 0)\<rparr> else c)
      in s\<lparr>cpus := (cpus s)(h := c\<lparr>noff := noff c + 1\<rparr>)\<rparr>)"

definition pop_off :: "nat \<Rightarrow> smp \<Rightarrow> (unit, smp) outcome" where
  "pop_off h s =
     (if intr_get h s then Panic ''pop_off - interruptible''
      else if noff (cpus s h) < 1 then Panic ''pop_off''
      else let c = (cpus s h)\<lparr>noff := noff (cpus s h) - 1\<rparr>;
               s = s\<lparr>cpus := (cpus s)(h := c)\<rparr>
           in Done () (if noff c = 0 \<and> intena c \<noteq> 0 then intr_on h s else s))"

text \<open>\<^verbatim>\<open>__sync_lock_test_and_set(&lk->locked, 1)\<close>: the old value, and 1 stored.\<close>

definition test_and_set :: "lockid \<Rightarrow> smp \<Rightarrow> u32 \<times> smp" where
  "test_and_set lk s =
     (locked (locks s lk), s\<lparr>locks := (locks s)(lk := (locks s lk)\<lparr>locked := 1\<rparr>)\<rparr>)"

definition set_lcpu :: "lockid \<Rightarrow> nat option \<Rightarrow> smp \<Rightarrow> smp" where
  "set_lcpu lk c s = s\<lparr>locks := (locks s)(lk := (locks s lk)\<lparr>lcpu := c\<rparr>)\<rparr>"

text \<open>\<^verbatim>\<open>__sync_lock_release(&lk->locked)\<close>.\<close>

definition lock_clear :: "lockid \<Rightarrow> smp \<Rightarrow> smp" where
  "lock_clear lk s = s\<lparr>locks := (locks s)(lk := (locks s lk)\<lparr>locked := 0\<rparr>)\<rparr>"

definition spin_acquire :: "nat \<Rightarrow> lockid \<Rightarrow> smp \<Rightarrow> (unit, smp) outcome" where
  "spin_acquire h lk s =
     (let s = push_off h s in
      if spin_holding h lk s then Panic ''acquire''
      else case test_and_set lk s of (old, s) \<Rightarrow>
        if old \<noteq> 0 then Spin else Done () (set_lcpu lk (Some h) s))"

definition spin_release :: "nat \<Rightarrow> lockid \<Rightarrow> smp \<Rightarrow> (unit, smp) outcome" where
  "spin_release h lk s =
     (if \<not> spin_holding h lk s then Panic ''release''
      else pop_off h (lock_clear lk (set_lcpu lk None s)))"

section \<open>The interleaving of harts\<close>

text \<open>
  Where a hart stands: in ordinary code, spinning on the atomic swap of \<^verbatim>\<open>acquire\<close>, between the
  swap and the store of \<^verbatim>\<open>lk->cpu\<close>, between clearing \<^verbatim>\<open>lk->cpu\<close> and the releasing store, about to
  call the final \<^verbatim>\<open>pop_off\<close>, or stopped by a panic. \<open>crit\<close> records the locks with which a hart
  has returned from \<^verbatim>\<open>acquire\<close> and not yet called \<^verbatim>\<open>release\<close>.
\<close>

datatype pc = Run | AcqSwap lockid | AcqCpu lockid | RelStore lockid | RelPop | Stopped

record sys =
  mach :: smp
  pcs :: "nat \<Rightarrow> pc"
  crit :: "nat \<Rightarrow> lockid set"

definition boot :: "smp \<Rightarrow> bool" where
  "boot s \<longleftrightarrow> (\<forall>lk. locked (locks s lk) = 0 \<and> lcpu (locks s lk) = None) \<and> (\<forall>h. noff (cpus s h) = 0)"

inductive hart_step :: "sys \<Rightarrow> sys \<Rightarrow> bool" where
  acquire_enter:
    "pcs t h = Run \<Longrightarrow> s = push_off h (mach t) \<Longrightarrow> \<not> spin_holding h lk s \<Longrightarrow>
     hart_step t (t\<lparr>mach := s, pcs := (pcs t)(h := AcqSwap lk)\<rparr>)"
| acquire_again:
    "pcs t h = Run \<Longrightarrow> s = push_off h (mach t) \<Longrightarrow> spin_holding h lk s \<Longrightarrow>
     hart_step t (t\<lparr>mach := s, pcs := (pcs t)(h := Stopped)\<rparr>)"
| swap_busy:
    "pcs t h = AcqSwap lk \<Longrightarrow> test_and_set lk (mach t) = (old, s) \<Longrightarrow> old \<noteq> 0 \<Longrightarrow>
     hart_step t (t\<lparr>mach := s\<rparr>)"
| swap_won:
    "pcs t h = AcqSwap lk \<Longrightarrow> test_and_set lk (mach t) = (old, s) \<Longrightarrow> old = 0 \<Longrightarrow>
     hart_step t (t\<lparr>mach := s, pcs := (pcs t)(h := AcqCpu lk)\<rparr>)"
| acquire_leave:
    "pcs t h = AcqCpu lk \<Longrightarrow>
     hart_step t (t\<lparr>mach := set_lcpu lk (Some h) (mach t), pcs := (pcs t)(h := Run),
       crit := (crit t)(h := insert lk (crit t h))\<rparr>)"
| release_enter:
    "pcs t h = Run \<Longrightarrow> spin_holding h lk (mach t) \<Longrightarrow>
     hart_step t (t\<lparr>mach := set_lcpu lk None (mach t), pcs := (pcs t)(h := RelStore lk),
       crit := (crit t)(h := crit t h - {lk})\<rparr>)"
| release_unheld:
    "pcs t h = Run \<Longrightarrow> \<not> spin_holding h lk (mach t) \<Longrightarrow>
     hart_step t (t\<lparr>pcs := (pcs t)(h := Stopped)\<rparr>)"
| release_store:
    "pcs t h = RelStore lk \<Longrightarrow>
     hart_step t (t\<lparr>mach := lock_clear lk (mach t), pcs := (pcs t)(h := RelPop)\<rparr>)"
| release_pop:
    "pcs t h = RelPop \<Longrightarrow> pop_off h (mach t) = Done () s \<Longrightarrow>
     hart_step t (t\<lparr>mach := s, pcs := (pcs t)(h := Run)\<rparr>)"
| release_pop_panic:
    "pcs t h = RelPop \<Longrightarrow> pop_off h (mach t) = Panic e \<Longrightarrow>
     hart_step t (t\<lparr>pcs := (pcs t)(h := Stopped)\<rparr>)"
| interrupts_on:
    "pcs t h = Run \<Longrightarrow> noff (cpus (mach t) h) = 0 \<Longrightarrow>
     hart_step t (t\<lparr>mach := intr_on h (mach t)\<rparr>)"
| interrupts_off:
    "pcs t h = Run \<Longrightarrow>
     hart_step t (t\<lparr>mach := intr_off h (mach t)\<rparr>)"

inductive reach :: "sys \<Rightarrow> bool" where
  start: "boot s \<Longrightarrow> reach \<lparr>mach = s, pcs = (\<lambda>_. Run), crit = (\<lambda>_. {})\<rparr>"
| step: "reach t \<Longrightarrow> hart_step t u \<Longrightarrow> reach u"

section \<open>The kernel thread's view\<close>

text \<open>
  The locks the running kernel thread holds, most recent first, and whether interrupts are to
  be enabled once it holds none. \<^verbatim>\<open>noff\<close> is the length of the list.
\<close>

record kthread =
  held :: "lockid list"
  intr :: bool

definition holding :: "lockid \<Rightarrow> 'a kthread_scheme \<Rightarrow> bool" where
  "holding lk s \<longleftrightarrow> lk \<in> set (held s)"

definition acquire :: "lockid \<Rightarrow> 'a kthread_scheme \<Rightarrow> (unit, 'a kthread_scheme) outcome" where
  "acquire lk s =
     (if holding lk s then Panic ''acquire'' else Done () (s\<lparr>held := lk # held s\<rparr>))"

definition release :: "lockid \<Rightarrow> 'a kthread_scheme \<Rightarrow> (unit, 'a kthread_scheme) outcome" where
  "release lk s =
     (if \<not> holding lk s then Panic ''release'' else Done () (s\<lparr>held := remove1 lk (held s)\<rparr>))"

text \<open>A lock that is initialised has no holder.\<close>

definition init_lock :: "lockid \<Rightarrow> 'a kthread_scheme \<Rightarrow> 'a kthread_scheme" where
  "init_lock lk s = s\<lparr>held := removeAll lk (held s)\<rparr>"

text \<open>Interrupts are enabled on the thread's hart.\<close>

definition intr_enabled :: "'a kthread_scheme \<Rightarrow> bool" where
  "intr_enabled s \<longleftrightarrow> held s = [] \<and> intr s"

text \<open>Hart \<open>h\<close> of the machine runs a kernel thread with the view \<open>a\<close>.\<close>

definition views :: "nat \<Rightarrow> smp \<Rightarrow> 'a kthread_scheme \<Rightarrow> bool" where
  "views h c a \<longleftrightarrow>
     (\<forall>lk. spin_holding h lk c \<longleftrightarrow> lk \<in> set (held a)) \<and> distinct (held a)
     \<and> noff (cpus c h) = int (length (held a))
     \<and> (if held a = [] then intr a = intr_get h c
        else \<not> intr_get h c \<and> intr a = (intena (cpus c h) \<noteq> 0))"

section \<open>Effects of the thread's operations\<close>

lemma acquire_free [simp]: "lk \<notin> set (held s) \<Longrightarrow> acquire lk s = Done () (s\<lparr>held := lk # held s\<rparr>)"
  by (simp add: acquire_def holding_def)

lemma acquire_held [simp]: "lk \<in> set (held s) \<Longrightarrow> acquire lk s = Panic ''acquire''"
  by (simp add: acquire_def holding_def)

lemma release_top [simp]: "held s = lk # hs \<Longrightarrow> release lk s = Done () (s\<lparr>held := hs\<rparr>)"
  by (simp add: release_def holding_def)

lemma release_free [simp]: "lk \<notin> set (held s) \<Longrightarrow> release lk s = Panic ''release''"
  by (simp add: release_def holding_def)

lemma init_lock_free [simp]: "lk \<notin> set (held s) \<Longrightarrow> init_lock lk s = s"
  by (simp add: init_lock_def)

section \<open>Effects of the machine operations\<close>

lemma intr_get_on [simp]: "intr_get h' (intr_on h s) \<longleftrightarrow> h' = h \<or> intr_get h' s"
proof -
  have "(x OR SSTATUS_SIE) AND SSTATUS_SIE \<noteq> 0" for x
    by (simp add: SSTATUS_SIE_def word_ao_absorbs)
  then show ?thesis by (auto simp: intr_get_def intr_on_def)
qed

lemma intr_get_off [simp]: "intr_get h' (intr_off h s) \<longleftrightarrow> h' \<noteq> h \<and> intr_get h' s"
proof -
  have "(x AND NOT SSTATUS_SIE) AND SSTATUS_SIE = 0" for x
    by (rule bit_word_eqI) (simp add: bit_simps)
  then show ?thesis by (auto simp: intr_get_def intr_off_def)
qed

lemma intr_get_upd [simp]:
  "intr_get h (s\<lparr>cpus := c\<rparr>) = intr_get h s"
  "intr_get h (s\<lparr>locks := l\<rparr>) = intr_get h s"
  by (simp_all add: intr_get_def)

lemma intr_fields [simp]:
  "cpus (intr_on h s) = cpus s" "locks (intr_on h s) = locks s"
  "cpus (intr_off h s) = cpus s" "locks (intr_off h s) = locks s"
  by (simp_all add: intr_on_def intr_off_def)

lemma push_off_effect [simp]:
  "locks (push_off h s) = locks s"
  "intr_get h' (push_off h s) \<longleftrightarrow> h' \<noteq> h \<and> intr_get h' s"
  "noff (cpus (push_off h s) h') = noff (cpus s h') + (if h' = h then 1 else 0)"
  "intena (cpus (push_off h s) h') =
     (if h' = h \<and> noff (cpus s h) = 0 then (if intr_get h s then 1 else 0) else intena (cpus s h'))"
  by (auto simp: push_off_def Let_def)

lemma pop_off_effect:
  assumes "pop_off h s = Done () s'"
  shows "locks s' = locks s" and "1 \<le> noff (cpus s h)" and "\<not> intr_get h s"
    and "noff (cpus s' h') = noff (cpus s h') - (if h' = h then 1 else 0)"
    and "intr_get h' s' \<longleftrightarrow>
      (if h' = h then noff (cpus s h) = 1 \<and> intena (cpus s h) \<noteq> 0 else intr_get h' s)"
    and "intena (cpus s' h') = intena (cpus s h')"
  using assms by (auto simp: pop_off_def Let_def split: if_splits)

lemma lock_word_effect [simp]:
  "cpus (set_lcpu lk c s) = cpus s" "cpus (lock_clear lk s) = cpus s"
  "intr_get h (set_lcpu lk c s) = intr_get h s" "intr_get h (lock_clear lk s) = intr_get h s"
  "locked (locks (set_lcpu lk c s) lk') = locked (locks s lk')"
  "lcpu (locks (set_lcpu lk c s) lk') = (if lk' = lk then c else lcpu (locks s lk'))"
  "locked (locks (lock_clear lk s) lk') = (if lk' = lk then 0 else locked (locks s lk'))"
  "lcpu (locks (lock_clear lk s) lk') = lcpu (locks s lk')"
  by (simp_all add: set_lcpu_def lock_clear_def)

lemma test_and_set_effect:
  assumes "test_and_set lk s = (old, s')"
  shows "old = locked (locks s lk)" and "cpus s' = cpus s" and "intr_get h s' = intr_get h s"
    and "locked (locks s' lk') = (if lk' = lk then 1 else locked (locks s lk'))"
    and "lcpu (locks s' lk') = lcpu (locks s lk')"
  using assms by (auto simp: test_and_set_def)

lemma push_off_effect_holding [simp]: "spin_holding h' lk (push_off h s) = spin_holding h' lk s"
  by (simp add: spin_holding_def)

section \<open>Mutual exclusion\<close>

text \<open>A hart is in the middle of taking or of giving back the lock.\<close>

definition passing :: "sys \<Rightarrow> nat \<Rightarrow> lockid \<Rightarrow> bool" where
  "passing t h lk \<longleftrightarrow> pcs t h = AcqCpu lk \<or> pcs t h = RelStore lk"

definition lock_inv :: "sys \<Rightarrow> bool" where
  "lock_inv t \<longleftrightarrow>
     (\<forall>h lk. lk \<in> crit t h \<longleftrightarrow> lcpu (locks (mach t) lk) = Some h)
     \<and> (\<forall>lk. lcpu (locks (mach t) lk) \<noteq> None \<longrightarrow> locked (locks (mach t) lk) \<noteq> 0)
     \<and> (\<forall>h lk. passing t h lk \<longrightarrow>
          locked (locks (mach t) lk) \<noteq> 0 \<and> lcpu (locks (mach t) lk) = None)
     \<and> (\<forall>h h' lk. passing t h lk \<longrightarrow> passing t h' lk \<longrightarrow> h = h')"

definition busy :: "pc \<Rightarrow> int" where
  "busy p = (case p of Run \<Rightarrow> 0 | Stopped \<Rightarrow> 0 | _ \<Rightarrow> 1)"

definition intr_inv :: "sys \<Rightarrow> bool" where
  "intr_inv t \<longleftrightarrow> (\<forall>h. finite (crit t h)
     \<and> (pcs t h \<noteq> Stopped \<longrightarrow> noff (cpus (mach t) h) = int (card (crit t h)) + busy (pcs t h))
     \<and> (crit t h \<noteq> {} \<or> busy (pcs t h) = 1 \<longrightarrow> \<not> intr_get h (mach t)))"

lemma busy_simps [simp]:
  "busy Run = 0" "busy Stopped = 0" "busy (AcqSwap lk) = 1" "busy (AcqCpu lk) = 1"
  "busy (RelStore lk) = 1" "busy RelPop = 1"
  by (simp_all add: busy_def)

lemma lock_inv_step: "hart_step t u \<Longrightarrow> lock_inv t \<Longrightarrow> lock_inv u"
proof (induction rule: hart_step.induct)
  case (swap_busy t h lk old s)
  note e = test_and_set_effect [OF swap_busy(2)]
  have "locked (locks s lk') \<noteq> 0 \<longleftrightarrow> locked (locks (mach t) lk') \<noteq> 0" for lk'
    using e(1,4) swap_busy(3) by auto
  with swap_busy(4) e(5) show ?case unfolding lock_inv_def passing_def by simp
next
  case (swap_won t h lk old s)
  note e = test_and_set_effect [OF swap_won(2)]
  have free: "locked (locks (mach t) lk) = 0" using e(1) swap_won(3) by simp
  then have "\<not> passing t h' lk" "lcpu (locks (mach t) lk) = None" for h'
    using swap_won(4) unfolding lock_inv_def by blast+
  with swap_won(1,4) e(4,5) show ?case
    unfolding lock_inv_def passing_def by (auto split: if_splits)
next
  case (release_pop t h s)
  with pop_off_effect(1) [OF release_pop(2)] show ?case
    unfolding lock_inv_def passing_def by auto
qed (auto simp: lock_inv_def passing_def spin_holding_def split: if_splits)

lemma intr_inv_step:
  assumes "hart_step t u" and "lock_inv t" and "intr_inv t"
  shows "intr_inv u"
  using assms
proof (induction rule: hart_step.induct)
  case (swap_busy t h lk old s)
  with test_and_set_effect(2,3) [OF swap_busy(2)] show ?case by (auto simp: intr_inv_def)
next
  case (swap_won t h lk old s)
  with test_and_set_effect(2,3) [OF swap_won(2)] show ?case by (auto simp: intr_inv_def)
next
  case (acquire_leave t h lk)
  then have "lk \<notin> crit t h" by (auto simp: lock_inv_def passing_def)
  with acquire_leave show ?case by (auto simp: intr_inv_def)
next
  case (release_enter t h lk)
  then have "lk \<in> crit t h" by (auto simp: lock_inv_def spin_holding_def)
  then have "0 < card (crit t h)" "card (crit t h - {lk}) = card (crit t h) - 1"
      "\<not> intr_get h (mach t)"
    using release_enter by (auto simp: intr_inv_def card_gt_0_iff)
  with release_enter show ?case by (auto simp: intr_inv_def)
next
  case (release_pop t h s)
  with pop_off_effect(4,5) [OF release_pop(2)] show ?case
    by (auto simp: intr_inv_def split: if_splits)
qed (auto simp: intr_inv_def split: if_splits)

lemma reach_inv: "reach t \<Longrightarrow> lock_inv t \<and> intr_inv t"
proof (induction rule: reach.induct)
  case (start s)
  then show ?case by (auto simp: boot_def lock_inv_def intr_inv_def passing_def)
next
  case (step t u)
  then show ?case using lock_inv_step intr_inv_step by blast
qed

section \<open>The interface of a spin lock\<close>

text \<open>
  What a client relies on, for the kernel thread's view and for one hart of the machine alike:
  acquire adds the lock to the owned ones, a second acquire and a release of a lock that is not
  owned panic, release removes it.
\<close>

locale lock_api =
  fixes acq :: "lockid \<Rightarrow> 's \<Rightarrow> (unit, 's) outcome"
    and rel :: "lockid \<Rightarrow> 's \<Rightarrow> (unit, 's) outcome"
    and owned :: "'s \<Rightarrow> lockid set"
    and ok :: "'s \<Rightarrow> bool"
  assumes acq_owned: "lk \<in> owned s \<Longrightarrow> acq lk s = Panic ''acquire''"
    and acq_Done: "ok s \<Longrightarrow> acq lk s = Done u s' \<Longrightarrow> owned s' = insert lk (owned s) \<and> ok s'"
    and rel_unowned: "lk \<notin> owned s \<Longrightarrow> rel lk s = Panic ''release''"
    and rel_Done: "ok s \<Longrightarrow> rel lk s = Done u s' \<Longrightarrow> owned s' = owned s - {lk} \<and> ok s'"
begin

lemma acquire_twice: "ok s \<Longrightarrow> acq lk s = Done u s' \<Longrightarrow> acq lk s' = Panic ''acquire''"
  using acq_Done acq_owned by blast

lemma release_twice: "ok s \<Longrightarrow> rel lk s = Done u s' \<Longrightarrow> rel lk s' = Panic ''release''"
  using rel_Done rel_unowned by blast

lemma critical_section:
  assumes "ok s" and "acq lk s = Done u s1" and "owned s2 = owned s1" and "ok s2"
    and "rel lk s2 = Done v s3"
  shows "owned s3 = owned s"
proof -
  have "lk \<notin> owned s" using assms(2) acq_owned by fastforce
  then show ?thesis using acq_Done [OF assms(1,2)] rel_Done [OF assms(4,5)] assms(3) by auto
qed

end

interpretation thread: lock_api acquire release "\<lambda>s. set (held s)" "\<lambda>s. distinct (held s)"
  by unfold_locales (auto simp: acquire_def release_def holding_def split: if_splits)

interpretation hart: lock_api "spin_acquire h" "spin_release h" "\<lambda>s. {lk. spin_holding h lk s}" "\<lambda>_. True"
  for h
proof (unfold_locales, goal_cases)
  case (1 lk s)
  then show ?case by (simp add: spin_acquire_def)
next
  case (2 s lk u s')
  then show ?case
    by (auto simp: spin_acquire_def spin_holding_def test_and_set_def Let_def split: if_splits)
next
  case (3 lk s)
  then show ?case by (simp add: spin_release_def)
next
  case (4 s lk u s')
  then have "pop_off h (lock_clear lk (set_lcpu lk None s)) = Done () s'"
    by (simp add: spin_release_def split: if_splits)
  from pop_off_effect(1) [OF this] show ?case by (auto simp: spin_holding_def)
qed

section \<open>The machine implements the thread's view\<close>

definition simulates :: "nat \<Rightarrow> (unit, smp) outcome \<Rightarrow> (unit, 'a kthread_scheme) outcome \<Rightarrow> bool" where
  "simulates h co ao \<longleftrightarrow>
     (case (co, ao) of (Done _ c, Done _ a) \<Rightarrow> views h c a | (Panic e, Panic e') \<Rightarrow> e = e' | _ \<Rightarrow> False)"

lemma acquire_refines:
  assumes "views h c a" and "locked (locks c lk) = 0 \<or> holding lk a"
  shows "simulates h (spin_acquire h lk c) (acquire lk a)"
proof (cases "holding lk a")
  case True
  then have "spin_holding h lk c" using assms(1) by (simp add: views_def holding_def)
  with True show ?thesis by (simp add: simulates_def acquire_def spin_acquire_def)
next
  case False
  then have "\<not> spin_holding h lk c" "locked (locks c lk) = 0"
    using assms by (auto simp: views_def holding_def)
  with False assms(1) show ?thesis
    by (auto simp: simulates_def acquire_def spin_acquire_def test_and_set_def views_def
        spin_holding_def holding_def split: if_splits)
qed

lemma release_refines:
  assumes "views h c a"
  shows "simulates h (spin_release h lk c) (release lk a)"
proof (cases "holding lk a")
  case False
  then show ?thesis using assms by (simp add: simulates_def release_def spin_release_def views_def holding_def)
next
  case True
  then have sh: "spin_holding h lk c" and n: "1 \<le> noff (cpus c h)" and i: "\<not> intr_get h c"
    and ne: "held a \<noteq> []" and len: "length (remove1 lk (held a)) = length (held a) - 1"
    and pos: "0 < length (held a)"
    using assms by (auto simp: views_def holding_def length_remove1 Suc_le_eq split: if_splits)
  let ?c = "lock_clear lk (set_lcpu lk None c)"
  have "\<exists>c'. pop_off h ?c = Done () c'" using n i by (simp add: pop_off_def Let_def)
  then obtain c' where c': "pop_off h ?c = Done () c'" by blast
  note e = pop_off_effect [OF c']
  have hold: "spin_holding h lk' c' \<longleftrightarrow> lk' \<in> set (remove1 lk (held a))" for lk'
    using e(1) assms by (auto simp: spin_holding_def views_def)
  have "int (length (remove1 lk (held a))) = int (length (held a)) - 1"
    using len pos by linarith
  then have noff: "noff (cpus c' h) = int (length (remove1 lk (held a)))"
    using e(4) [of h] assms by (simp add: views_def)
  have "length (remove1 lk (held a)) = 0 \<longleftrightarrow> noff (cpus c h) = 1"
    using len pos assms unfolding views_def by linarith
  then have "remove1 lk (held a) = [] \<longleftrightarrow> noff (cpus c h) = 1" by (simp only: length_0_conv)
  then have "if remove1 lk (held a) = [] then intr a = intr_get h c'
      else \<not> intr_get h c' \<and> intr a = (intena (cpus c' h) \<noteq> 0)"
    using e(5) [of h] e(6) [of h] assms ne by (simp add: views_def)
  then have "views h c' (a\<lparr>held := remove1 lk (held a)\<rparr>)"
    using hold noff assms by (simp add: views_def)
  then show ?thesis using True sh c' by (simp add: simulates_def release_def spin_release_def)
qed

section \<open>Properties\<close>


lemma reach_holding: "\<exists>t. reach t \<and> L_kmem \<in> crit t 0"
proof -
  define s0 :: smp where "s0 = \<lparr>sstatus = (\<lambda>_. 2), cpus = (\<lambda>_. \<lparr>noff = 0, intena = 0\<rparr>),
    locks = (\<lambda>_. \<lparr>locked = 0, lname = [], lcpu = None\<rparr>)\<rparr>"
  define t0 :: sys where "t0 = \<lparr>mach = s0, pcs = (\<lambda>_. Run), crit = (\<lambda>_. {})\<rparr>"
  define t1 where "t1 = t0\<lparr>mach := push_off 0 s0, pcs := (pcs t0)(0 := AcqSwap L_kmem)\<rparr>"
  define t2 where "t2 = t1\<lparr>mach := snd (test_and_set L_kmem (mach t1)), pcs := (pcs t1)(0 := AcqCpu L_kmem)\<rparr>"
  define t3 where "t3 = t2\<lparr>mach := set_lcpu L_kmem (Some 0) (mach t2), pcs := (pcs t2)(0 := Run),
    crit := (crit t2)(0 := insert L_kmem (crit t2 0))\<rparr>"
  have "reach t0" unfolding t0_def by (rule reach.start) (simp add: boot_def s0_def)
  moreover have "hart_step t0 t1" unfolding t1_def
    by (rule hart_step.acquire_enter) (simp_all add: t0_def s0_def spin_holding_def)
  moreover have "hart_step t1 t2" unfolding t2_def
    by (rule hart_step.swap_won [where lk = L_kmem and h = 0 and old = 0])
      (simp_all add: t1_def t0_def s0_def test_and_set_def)
  moreover have "hart_step t2 t3" unfolding t3_def
    by (rule hart_step.acquire_leave) (simp add: t2_def)
  ultimately have "reach t3" by (metis reach.step)
  then show ?thesis by (intro exI [of _ t3]) (simp add: t3_def)
qed


text \<open>
  C9 (refinement): on a hart whose lock words and \<^verbatim>\<open>struct cpu\<close> show the locks the kernel thread
  holds, \<^verbatim>\<open>release\<close>, and \<^verbatim>\<open>acquire\<close> of a lock no other hart holds, do what the thread's view says:
  the same panic, or a state that again shows the thread's locks, with \<^verbatim>\<open>noff\<close>, \<^verbatim>\<open>intena\<close> and the
  interrupt flag in agreement.
\<close>

theorem spin_refines:
  assumes "views h c a"
  shows "(locked (locks c lk) = 0 \<or> holding lk a \<longrightarrow> simulates h (spin_acquire h lk c) (acquire lk a))
    \<and> simulates h (spin_release h lk c) (release lk a)"
  using acquire_refines [OF assms] release_refines [OF assms] by blast

theorem spin_refines_witness:
  "\<exists>c a. views 0 c (a :: kthread) \<and> locked (locks c L_kmem) = 0
     \<and> simulates 0 (spin_acquire 0 L_kmem c) (acquire L_kmem a)"
proof -
  define c :: smp where "c = \<lparr>sstatus = (\<lambda>_. 0), cpus = (\<lambda>_. \<lparr>noff = 0, intena = 0\<rparr>),
    locks = (\<lambda>_. \<lparr>locked = 0, lname = [], lcpu = None\<rparr>)\<rparr>"
  define a :: kthread where "a = \<lparr>held = [], intr = False\<rparr>"
  have "views 0 c a" by (simp add: views_def spin_holding_def intr_get_def c_def a_def)
  moreover have "locked (locks c L_kmem) = 0" by (simp add: c_def)
  ultimately show ?thesis using spin_refines by blast
qed

end
