(* ===== verification/Layout.thy ===== *)
theory Layout
  imports Strings
begin

text \<open>
  Address arithmetic: the constants of \<^verbatim>\<open>kernel/memlayout.h\<close> and \<^verbatim>\<open>kernel/param.h\<close> the model uses,
  and the page and page-table-entry macros of \<^verbatim>\<open>kernel/riscv.h\<close> on 64-bit words, with the
  facts on pages that the memory components share.
\<close>

section \<open>Definitions\<close>

definition NPROC :: nat where "NPROC = 64"
definition NOFILE :: nat where "NOFILE = 16"
definition NFILE :: nat where "NFILE = 100"
definition MAXARG :: nat where "MAXARG = 32"

definition PGSIZE :: u64 where "PGSIZE = 4096"

definition KERNBASE :: u64 where "KERNBASE = 0x80000000"

definition PHYSTOP :: u64 where "PHYSTOP = KERNBASE + 128 * 1024 * 1024"

definition MAXVA :: u64 where "MAXVA = push_bit (9 + 9 + 9 + 12 - 1) 1"

definition TRAMPOLINE :: u64 where "TRAMPOLINE = MAXVA - PGSIZE"

definition TRAPFRAME :: u64 where "TRAPFRAME = TRAMPOLINE - PGSIZE"

definition KSTACK :: "nat \<Rightarrow> u64" where
  "KSTACK p = TRAMPOLINE - (word_of_nat p + 1) * 2 * PGSIZE"

definition PGROUNDUP :: "u64 \<Rightarrow> u64" where
  "PGROUNDUP sz = (sz + PGSIZE - 1) AND NOT (PGSIZE - 1)"

definition PGROUNDDOWN :: "u64 \<Rightarrow> u64" where
  "PGROUNDDOWN a = a AND NOT (PGSIZE - 1)"

definition PTE_V :: u64 where "PTE_V = push_bit 0 1"
definition PTE_R :: u64 where "PTE_R = push_bit 1 1"
definition PTE_W :: u64 where "PTE_W = push_bit 2 1"
definition PTE_X :: u64 where "PTE_X = push_bit 3 1"
definition PTE_U :: u64 where "PTE_U = push_bit 4 1"

definition PA2PTE :: "u64 \<Rightarrow> u64" where
  "PA2PTE pa = push_bit 10 (drop_bit 12 pa)"

definition PTE2PA :: "u64 \<Rightarrow> u64" where
  "PTE2PA pte = push_bit 12 (drop_bit 10 pte)"

definition PTE_FLAGS :: "u64 \<Rightarrow> u64" where
  "PTE_FLAGS pte = pte AND 0x3FF"

definition PXSHIFT :: "nat \<Rightarrow> nat" where
  "PXSHIFT level = 12 + 9 * level"

definition PX :: "nat \<Rightarrow> u64 \<Rightarrow> u64" where
  "PX level va = drop_bit (PXSHIFT level) va AND 0x1FF"

definition MAKE_SATP :: "u64 \<Rightarrow> u64" where
  "MAKE_SATP pagetable = push_bit 60 8 OR drop_bit 12 pagetable"

definition aligned :: "u64 \<Rightarrow> bool" where
  "aligned p \<longleftrightarrow> p mod PGSIZE = 0"

section \<open>Pages\<close>

lemma unat_less_64: "unat (x :: u64) < 2 ^ 64"
  using unsigned_less [of x] by simp

lemma PGSIZE_minus_1: "PGSIZE - 1 = mask 12"
  by (simp add: PGSIZE_def mask_eq_exp_minus_1)

lemma aligned_mask: "aligned p \<longleftrightarrow> p AND mask 12 = 0"
proof -
  have "p mod PGSIZE = take_bit 12 p" by (simp add: PGSIZE_def take_bit_eq_mod)
  then show ?thesis by (simp add: aligned_def take_bit_eq_mask)
qed

lemma aligned_dvd: "aligned p \<longleftrightarrow> 4096 dvd unat p"
proof -
  have "unat (p mod PGSIZE) = unat p mod 4096" by (simp add: unat_mod PGSIZE_def)
  then show ?thesis by (metis aligned_def dvd_eq_mod_eq_0 unat_eq_zero)
qed

lemma aligned_le: "aligned p \<Longrightarrow> unat p + 4096 \<le> 2 ^ 64"
proof -
  assume "aligned p"
  then obtain k where k: "unat p = 4096 * k" by (auto simp: aligned_dvd)
  have "unat p < 2 ^ 64" by (rule unat_less_64)
  then have "k < 2 ^ 52" using k by simp
  then show ?thesis using k by simp
qed

lemma aligned_offset:
  assumes "aligned p" and "unat (x - p) < 4096"
  shows "unat x = unat p + unat (x - p)"
proof -
  have "unat p + unat (x - p) < 2 ^ 64" using aligned_le [OF assms(1)] assms(2) by linarith
  then have "unat (p + (x - p)) = unat p + unat (x - p)" by (subst unat_word_ariths) simp
  then show ?thesis by simp
qed

lemma page_of:
  assumes "aligned p" and "unat (x - p) < 4096"
  shows "unat x div 4096 = unat p div 4096"
  using assms aligned_offset [OF assms] by (auto simp: aligned_dvd)

lemma pages_disjoint:
  assumes "aligned p" and "aligned q" and "p \<noteq> q"
  shows "disjoint p 4096 q 4096"
  unfolding disjoint_def
proof (intro allI notI)
  fix x assume x: "unat (x - p) < 4096 \<and> unat (x - q) < 4096"
  then have "unat p div 4096 = unat q div 4096" using page_of assms by metis
  then have "unat p = unat q" using assms(1,2) by (metis aligned_dvd dvd_mult_div_cancel)
  then show False using assms(3) by (simp add: word_unat_eq_iff)
qed

lemma disjoint_sub:
  assumes "disjoint a n b k" and "n' \<le> n" and "k' \<le> k"
  shows "disjoint a n' b k'"
  using assms unfolding disjoint_def by (meson less_le_trans)

lemma PGROUNDDOWN_aligned: "aligned (PGROUNDDOWN a)"
  unfolding aligned_mask PGROUNDDOWN_def PGSIZE_minus_1
  by (rule bit_word_eqI) (simp add: bit_simps)

lemma PGROUNDDOWN_unat: "unat (PGROUNDDOWN a) = 4096 * (unat a div 4096)"
proof -
  have "PGROUNDDOWN a = push_bit 12 (drop_bit 12 a)"
    unfolding PGROUNDDOWN_def PGSIZE_minus_1 by (rule bit_word_eqI) (auto simp: bit_simps)
  also have "\<dots> = (a div 4096) * 4096" by (simp add: push_bit_eq_mult drop_bit_eq_div)
  finally have e: "PGROUNDDOWN a = (a div 4096) * 4096" .
  have "unat (a div 4096) = unat a div 4096" by (simp add: unat_div)
  moreover have "unat a < 2 ^ 64" by (rule unat_less_64)
  then have "unat a div 4096 * 4096 < 2 ^ 64" by simp
  ultimately show ?thesis unfolding e by (subst unat_word_ariths) simp
qed

end
