(* ===== verification/Kalloc.thy ===== *)
theory Kalloc
  imports Spinlock Layout
begin

text \<open>
  The physical page allocator, \<^verbatim>\<open>kernel/kalloc.c\<close>. Its state is the byte memory and the head of
  the free list, whose links are the first eight bytes of the free pages themselves; \<open>kend\<close> is
  the link symbol \<^verbatim>\<open>end\<close>. The allocator is shown to implement a stack of distinct free pages.
\<close>

section \<open>Definitions\<close>

record kmem = kthread +
  memory :: mem
  freelist :: u64
  kend :: u64

definition kfree :: "u64 \<Rightarrow> 'a kmem_scheme \<Rightarrow> (unit, 'a kmem_scheme) outcome" where
  "kfree pa s =
     (if pa mod PGSIZE \<noteq> 0 \<or> pa < kend s \<or> pa \<ge> PHYSTOP then Panic ''kfree''
      else
        let s = s\<lparr>memory := memset (memory s) pa 1 (unat PGSIZE)\<rparr> in
        bnd (acquire L_kmem s) (\<lambda>_ s.
          let s = s\<lparr>memory := st64 (memory s) pa (freelist s)\<rparr>;
              s = s\<lparr>freelist := pa\<rparr>
          in release L_kmem s))"

definition kalloc :: "'a kmem_scheme \<Rightarrow> (u64, 'a kmem_scheme) outcome" where
  "kalloc s =
     bnd (acquire L_kmem s) (\<lambda>_ s.
       let r = freelist s;
           s = (if r \<noteq> 0 then s\<lparr>freelist := ld64 (memory s) r\<rparr> else s)
       in bnd (release L_kmem s) (\<lambda>_ s.
         let s = (if r \<noteq> 0 then s\<lparr>memory := memset (memory s) r 5 (unat PGSIZE)\<rparr> else s)
         in Done r s))"

text \<open>
  The loop of \<^verbatim>\<open>freerange\<close> compares pointers into one address space; \<^verbatim>\<open>p + PGSIZE\<close> is evaluated
  without wrap-around, since C leaves the overflow of a pointer undefined.
\<close>

function freerange_loop :: "u64 \<Rightarrow> u64 \<Rightarrow> 'a kmem_scheme \<Rightarrow> (unit, 'a kmem_scheme) outcome" where
  "freerange_loop p pa_end s =
     (if unat p + unat PGSIZE \<le> unat pa_end
      then bnd (kfree p s) (\<lambda>_ s. freerange_loop (p + PGSIZE) pa_end s)
      else Done () s)"
  by pat_completeness auto

lemma unat_add_page:
  "unat p + 4096 \<le> unat (q :: u64) \<Longrightarrow> unat (p + 4096 :: u64) = unat p + 4096"
  using unat_less_64 [of q] by (subst unat_word_ariths) simp

termination freerange_loop
  by (relation "measure (\<lambda>(p, pa_end, s). unat pa_end - unat p)")
    (auto simp: PGSIZE_def unat_add_page)

declare freerange_loop.simps [simp del]

definition freerange :: "u64 \<Rightarrow> u64 \<Rightarrow> 'a kmem_scheme \<Rightarrow> (unit, 'a kmem_scheme) outcome" where
  "freerange pa_start pa_end s = freerange_loop (PGROUNDUP pa_start) pa_end s"

definition kinit :: "'a kmem_scheme \<Rightarrow> (unit, 'a kmem_scheme) outcome" where
  "kinit s = (let s = init_lock L_kmem s in freerange (kend s) PHYSTOP s)"

section \<open>The free list as a stack of pages\<close>

text \<open>\<open>chain m r ps\<close>: the list that starts at \<open>r\<close> runs through the pages \<open>ps\<close> and ends in 0.\<close>

fun chain :: "mem \<Rightarrow> u64 \<Rightarrow> u64 list \<Rightarrow> bool" where
  "chain m r [] \<longleftrightarrow> r = 0"
| "chain m r (p # ps) \<longleftrightarrow> r = p \<and> p \<noteq> 0 \<and> chain m (ld64 m p) ps"

definition page_ok :: "u64 \<Rightarrow> u64 \<Rightarrow> bool" where
  "page_ok e p \<longleftrightarrow> aligned p \<and> e \<le> p \<and> p < PHYSTOP"

definition free_pages :: "'a kmem_scheme \<Rightarrow> u64 list \<Rightarrow> bool" where
  "free_pages s ps \<longleftrightarrow>
     chain (memory s) (freelist s) ps \<and> distinct ps \<and> (\<forall>p\<in>set ps. page_ok (kend s) p)
     \<and> 0 < kend s \<and> L_kmem \<notin> set (held s)"

lemma chain_unique: "chain m r ps \<Longrightarrow> chain m r qs \<Longrightarrow> ps = qs"
proof (induction ps arbitrary: r qs)
  case Nil
  then show ?case by (cases qs) auto
next
  case (Cons p ps)
  then show ?case by (cases qs) auto
qed

lemma chain_cong:
  "chain m r ps \<Longrightarrow> (\<And>p. p \<in> set ps \<Longrightarrow> ld64 m' p = ld64 m p) \<Longrightarrow> chain m' r ps"
  by (induction m r ps rule: chain.induct) auto

lemma PGSIZE_unat [simp]: "unat PGSIZE = 4096"
  by (simp add: PGSIZE_def)

lemma ld64_outside:
  assumes "\<And>x. unat (x - q) < 8 \<Longrightarrow> m' x = m x"
  shows "ld64 m' q = ld64 m q"
proof -
  have "m' (q + word_of_nat i) = m (q + word_of_nat i)" if "i < 8" for i
    using that by (intro assms) (simp add: unat_of_nat)
  then have "rd_bytes m' q 8 = rd_bytes m q 8" unfolding rd_bytes_def by (intro map_cong) auto
  then show ?thesis by (simp add: ld64_def)
qed

lemma st64_apply: "\<not> unat (x - a) < 8 \<Longrightarrow> st64 m a v x = m x"
  by (simp add: st64_def wr_bytes_def)

lemma memset_page_outside:
  "\<not> unat (x - p) < 4096 \<Longrightarrow> memset m p c 4096 x = m x"
  by (simp add: memset_apply)

lemma in_other_page:
  assumes "aligned p" "aligned q" "p \<noteq> q" "unat (x - q) < 4096"
  shows "\<not> unat (x - p) < 4096"
  using pages_disjoint [OF assms(1-3)] assms(4) by (auto simp: disjoint_def)

lemma page_ok_nonzero: "0 < e \<Longrightarrow> page_ok e p \<Longrightarrow> p \<noteq> 0"
  by (auto simp: page_ok_def)

lemma kfree_eq:
  assumes "L_kmem \<notin> set (held s)" and "page_ok (kend s) p"
  shows "kfree p s = Done () (s\<lparr>memory := st64 (memset (memory s) p 1 4096) p (freelist s), freelist := p\<rparr>)"
  using assms by (simp add: kfree_def page_ok_def aligned_def Let_def not_less not_le)

lemma kalloc_eq:
  assumes "L_kmem \<notin> set (held s)"
  shows "kalloc s = Done (freelist s)
    (if freelist s = 0 then s
     else s\<lparr>freelist := ld64 (memory s) (freelist s), memory := memset (memory s) (freelist s) 5 4096\<rparr>)"
  using assms by (simp add: kalloc_def Let_def)

lemma kfree_pushes:
  assumes "free_pages s ps" and "page_ok (kend s) p" and "p \<notin> set ps"
  obtains m where "kfree p s = Done () (s\<lparr>memory := m, freelist := p\<rparr>)"
    and "free_pages (s\<lparr>memory := m, freelist := p\<rparr>) (p # ps)"
    and "\<And>x. \<not> unat (x - p) < 4096 \<Longrightarrow> m x = memory s x"
proof -
  let ?m = "st64 (memset (memory s) p 1 4096) p (freelist s)"
  let ?s = "s\<lparr>memory := ?m, freelist := p\<rparr>"
  have out: "?m x = memory s x" if "\<not> unat (x - p) < 4096" for x
    using that by (simp add: st64_apply memset_page_outside)
  have "ld64 ?m q = ld64 (memory s) q" if "q \<in> set ps" for q
  proof (rule ld64_outside, rule out)
    fix x assume "unat (x - q) < 8"
    moreover have "aligned q" "q \<noteq> p" using that assms by (auto simp: free_pages_def page_ok_def)
    ultimately show "\<not> unat (x - p) < 4096"
      using in_other_page [of p q x] assms(2) by (simp add: page_ok_def)
  qed
  then have "chain ?m (freelist s) ps"
    using assms(1) chain_cong by (auto simp: free_pages_def)
  then have "free_pages ?s (p # ps)"
    using assms page_ok_nonzero by (auto simp: free_pages_def)
  with kfree_eq [of s p] assms(1,2) out that [of ?m] show ?thesis
    by (simp add: free_pages_def)
qed

lemma kalloc_pops:
  assumes "free_pages s (p # ps)"
  obtains m r where "kalloc s = Done p (s\<lparr>freelist := r, memory := m\<rparr>)"
    and "free_pages (s\<lparr>freelist := r, memory := m\<rparr>) ps"
    and "\<And>x. m x = (if unat (x - p) < 4096 then 5 else memory s x)"
proof -
  let ?m = "memset (memory s) p 5 4096"
  let ?s = "s\<lparr>freelist := ld64 (memory s) p, memory := ?m\<rparr>"
  have "ld64 ?m q = ld64 (memory s) q" if "q \<in> set ps" for q
  proof (rule ld64_outside, rule memset_page_outside)
    fix x assume "unat (x - q) < 8"
    moreover have "aligned q" "aligned p" "q \<noteq> p"
      using that assms by (auto simp: free_pages_def page_ok_def)
    ultimately show "\<not> unat (x - p) < 4096" using in_other_page [of p q x] by simp
  qed
  then have "chain ?m (ld64 (memory s) p) ps"
    using assms chain_cong by (auto simp: free_pages_def)
  then have "free_pages ?s ps" using assms by (auto simp: free_pages_def)
  moreover have "kalloc s = Done p ?s"
    using assms kalloc_eq [of s] by (auto simp: free_pages_def)
  ultimately show ?thesis using that [of ?m "ld64 (memory s) p"] by (simp add: memset_apply)
qed

lemma kalloc_empty: "free_pages s [] \<Longrightarrow> kalloc s = Done 0 s"
  using kalloc_eq [of s] by (simp add: free_pages_def)

section \<open>The interface of a page allocator\<close>

text \<open>
  What the clients of the allocator rely on: \<open>avail s ps\<close> says that the pages \<open>ps\<close> are
  available in that order.
\<close>

locale page_allocator =
  fixes alloc :: "'s \<Rightarrow> (u64, 's) outcome"
    and dispose :: "u64 \<Rightarrow> 's \<Rightarrow> (unit, 's) outcome"
    and avail :: "'s \<Rightarrow> u64 list \<Rightarrow> bool"
    and usable :: "'s \<Rightarrow> u64 \<Rightarrow> bool"
  assumes alloc_some: "avail s (p # ps) \<Longrightarrow> \<exists>s'. alloc s = Done p s' \<and> avail s' ps \<and> usable s' = usable s"
    and alloc_none: "avail s [] \<Longrightarrow> alloc s = Done 0 s"
    and dispose_ok: "avail s ps \<Longrightarrow> usable s p \<Longrightarrow> p \<notin> set ps \<Longrightarrow>
      \<exists>s'. dispose p s = Done () s' \<and> avail s' (p # ps) \<and> usable s' = usable s"
    and avail_ok: "avail s ps \<Longrightarrow> distinct ps \<and> (\<forall>p\<in>set ps. usable s p \<and> p \<noteq> 0)"
begin

lemma alloc_fresh:
  assumes "avail s ps" and "alloc s = Done p s'" and "p \<noteq> 0"
  shows "usable s p" and "p \<in> set ps" and "avail s' (tl ps)" and "p \<notin> set (tl ps)"
  using assms alloc_some [of s] alloc_none [of s] avail_ok [of s ps] by (cases ps; fastforce)+

lemma dispose_alloc:
  assumes "avail s ps" and "usable s p" and "p \<notin> set ps"
  shows "\<exists>s'. bnd (dispose p s) (\<lambda>_. alloc) = Done p s' \<and> avail s' ps"
  using dispose_ok [OF assms] alloc_some by fastforce

end

interpretation pages: page_allocator kalloc kfree free_pages "\<lambda>s. page_ok (kend s)"
proof (unfold_locales, goal_cases)
  case (1 s p ps)
  then show ?case by (rule kalloc_pops) auto
next
  case (2 s)
  then show ?case by (rule kalloc_empty)
next
  case (3 s ps p)
  then show ?case by (rule kfree_pushes) auto
next
  case (4 s ps)
  then show ?case using page_ok_nonzero by (auto simp: free_pages_def)
qed

section \<open>Initialisation\<close>

definition freed_below :: "u64 \<Rightarrow> 'a kmem_scheme \<Rightarrow> bool" where
  "freed_below p s \<longleftrightarrow>
     (\<exists>ps. free_pages s ps \<and> set ps = {q. page_ok (kend s) q \<and> q < p}) \<and> aligned p \<and> kend s \<le> p"

lemma aligned_less_iff:
  assumes "aligned p" and "aligned q"
  shows "p < q \<longleftrightarrow> unat p + 4096 \<le> unat q"
proof -
  obtain a b where "unat p = 4096 * a" "unat q = 4096 * b"
    using assms unfolding aligned_dvd by (elim dvdE)
  then show ?thesis unfolding word_less_nat_alt by auto
qed

lemma PHYSTOP_unat: "unat PHYSTOP = 0x88000000" "aligned PHYSTOP"
  by (simp_all add: PHYSTOP_def KERNBASE_def aligned_def PGSIZE_def)

lemma freed_below_step:
  assumes "freed_below p s" and "unat p + 4096 \<le> unat PHYSTOP"
  obtains s' where "kfree p s = Done () s'" and "freed_below (p + 4096) s'" and "kend s' = kend s"
proof -
  from assms(1) obtain ps where ps: "free_pages s ps" "set ps = {q. page_ok (kend s) q \<and> q < p}"
    and p: "aligned p" "kend s \<le> p" by (auto simp: freed_below_def)
  have up: "unat (p + 4096) = unat p + 4096" using assms(2) by (rule unat_add_page)
  have ok: "page_ok (kend s) p"
    using p assms(2) aligned_less_iff [OF p(1) PHYSTOP_unat(2)] by (simp add: page_ok_def)
  have "p \<notin> set ps" using ps(2) by simp
  with ps(1) ok obtain m where m: "kfree p s = Done () (s\<lparr>memory := m, freelist := p\<rparr>)"
    "free_pages (s\<lparr>memory := m, freelist := p\<rparr>) (p # ps)" by (rule kfree_pushes)
  have al: "aligned (p + 4096)" using p(1) up by (simp add: aligned_dvd)
  have "q < p + 4096 \<longleftrightarrow> q < p \<or> q = p" if "aligned q" for q
    using aligned_less_iff [OF that al] aligned_less_iff [OF p(1) that] up
    by (auto simp: word_less_nat_alt word_unat_eq_iff)
  then have "set (p # ps) = {q. page_ok (kend s) q \<and> q < p + 4096}"
    using ps(2) ok by (auto simp: page_ok_def)
  moreover have "kend s \<le> p + 4096" using p(2) up by (simp add: word_le_nat_alt)
  ultimately have "freed_below (p + 4096) (s\<lparr>memory := m, freelist := p\<rparr>)"
    unfolding freed_below_def using m(2) al by (intro conjI exI [of _ "p # ps"]) simp_all
  with that [OF m(1)] show ?thesis by simp
qed

lemma freerange_loop_frees:
  assumes "freed_below p s" and "unat p \<le> unat PHYSTOP"
  shows "\<exists>s'. freerange_loop p PHYSTOP s = Done () s' \<and> freed_below PHYSTOP s' \<and> kend s' = kend s"
  using assms
proof (induction p PHYSTOP s rule: freerange_loop.induct)
  case (1 p s)
  show ?case
  proof (cases "unat p + 4096 \<le> unat PHYSTOP")
    case True
    with "1.prems"(1) obtain s' where s': "kfree p s = Done () s'" "freed_below (p + 4096) s'"
      "kend s' = kend s" by (rule freed_below_step)
    have "unat (p + 4096) \<le> unat PHYSTOP" using True unat_add_page [OF True] by simp
    with "1.hyps" [of "()" s'] s' True show ?thesis
      by (subst freerange_loop.simps) (simp add: PGSIZE_def)
  next
    case False
    have "aligned p" using "1.prems" by (simp add: freed_below_def)
    with False have "\<not> p < PHYSTOP" using aligned_less_iff PHYSTOP_unat(2) by blast
    with "1.prems"(2) have "p = PHYSTOP" by (simp add: word_less_nat_alt word_unat_eq_iff)
    with False "1.prems"(1) show ?thesis by (subst freerange_loop.simps) simp
  qed
qed

lemma PGROUNDUP_unat:
  assumes "unat a + 4095 < 2 ^ 64"
  shows "unat (PGROUNDUP a) = 4096 * ((unat a + 4095) div 4096)"
proof -
  have "PGROUNDUP a = PGROUNDDOWN (a + 4095)" by (simp add: PGROUNDUP_def PGROUNDDOWN_def PGSIZE_def add.commute)
  moreover have "unat (a + 4095) = unat a + 4095" using assms by (subst unat_word_ariths) simp
  ultimately show ?thesis by (simp add: PGROUNDDOWN_unat)
qed

lemma kinit_frees:
  assumes "L_kmem \<notin> set (held s)" and "freelist s = 0" and "0 < kend s" and "kend s \<le> PHYSTOP"
  shows "\<exists>s'. kinit s = Done () s' \<and> freed_below PHYSTOP s' \<and> kend s' = kend s"
proof -
  let ?p = "PGROUNDUP (kend s)"
  have e: "unat (kend s) \<le> 0x88000000" using assms(4) PHYSTOP_unat(1) by (simp add: word_le_nat_alt)
  then have up: "unat ?p = 4096 * ((unat (kend s) + 4095) div 4096)" by (intro PGROUNDUP_unat) simp
  have al: "aligned ?p" using up by (simp add: aligned_dvd)
  have le: "unat (kend s) \<le> unat ?p" "unat ?p \<le> unat PHYSTOP" using up e PHYSTOP_unat(1) by auto
  have "\<not> q < ?p" if q: "aligned q" "kend s \<le> q" for q
  proof -
    obtain k where k: "unat q = 4096 * k" using q(1) by (auto simp: aligned_dvd)
    have "(unat (kend s) + 4095) div 4096 \<le> k" using q(2) k by (simp add: word_le_nat_alt)
    then show ?thesis using up k by (simp add: word_less_nat_alt not_less)
  qed
  then have none: "{q. page_ok (kend s) q \<and> q < ?p} = {}" by (auto simp: page_ok_def)
  have "free_pages s []" using assms by (simp add: free_pages_def)
  with none have "freed_below ?p s"
    unfolding freed_below_def using al le(1) by (metis list.set(1) word_le_nat_alt)
  from freerange_loop_frees [OF this le(2)] show ?thesis
    using assms(1) by (simp add: kinit_def freerange_def)
qed

section \<open>Properties\<close>

text \<open>
  C5 (refinement): on a well-formed free list the allocator is a stack of distinct pages. kalloc
  returns the top page, filled with 5, and leaves the rest of the list and of memory as they
  were; on the empty list it returns 0 and changes nothing. kfree of an in-range page that is not
  free pushes it, touching only that page; an address that is unaligned or out of range panics.
\<close>

theorem kalloc_kfree_stack:
  assumes "free_pages s ps"
  shows "(case ps of [] \<Rightarrow> kalloc s = Done 0 s
     | p # qs \<Rightarrow> \<exists>s'. kalloc s = Done p s' \<and> free_pages s' qs
         \<and> (\<forall>x. memory s' x = (if unat (x - p) < 4096 then 5 else memory s x)))
   \<and> (\<forall>p. if page_ok (kend s) p then p \<in> set ps \<or>
           (\<exists>s'. kfree p s = Done () s' \<and> free_pages s' (p # ps)
             \<and> (\<forall>x. unat (x - p) < 4096 \<or> memory s' x = memory s x))
         else kfree p s = Panic ''kfree'')"
proof (intro conjI allI)
  show "case ps of [] \<Rightarrow> kalloc s = Done 0 s
     | p # qs \<Rightarrow> \<exists>s'. kalloc s = Done p s' \<and> free_pages s' qs
         \<and> (\<forall>x. memory s' x = (if unat (x - p) < 4096 then 5 else memory s x))"
  proof (cases ps)
    case Nil
    then show ?thesis using assms kalloc_empty by simp
  next
    case (Cons p qs)
    with assms have "free_pages s (p # qs)" by simp
    from kalloc_pops [OF this] obtain m r where "kalloc s = Done p (s\<lparr>freelist := r, memory := m\<rparr>)"
      "free_pages (s\<lparr>freelist := r, memory := m\<rparr>) qs"
      "\<And>x. m x = (if unat (x - p) < 4096 then 5 else memory s x)" by metis
    with Cons show ?thesis by simp
  qed
next
  fix p
  show "if page_ok (kend s) p then p \<in> set ps \<or>
           (\<exists>s'. kfree p s = Done () s' \<and> free_pages s' (p # ps)
             \<and> (\<forall>x. unat (x - p) < 4096 \<or> memory s' x = memory s x))
         else kfree p s = Panic ''kfree''"
  proof (cases "page_ok (kend s) p \<and> p \<notin> set ps")
    case True
    with assms obtain m where "kfree p s = Done () (s\<lparr>memory := m, freelist := p\<rparr>)"
      "free_pages (s\<lparr>memory := m, freelist := p\<rparr>) (p # ps)"
      "\<And>x. \<not> unat (x - p) < 4096 \<Longrightarrow> m x = memory s x" by (metis kfree_pushes)
    then have "\<exists>s'. kfree p s = Done () s' \<and> free_pages s' (p # ps)
             \<and> (\<forall>x. unat (x - p) < 4096 \<or> memory s' x = memory s x)" by auto
    with True show ?thesis by simp
  next
    case False
    then show ?thesis by (auto simp: kfree_def page_ok_def aligned_def not_less not_le)
  qed
qed

definition boot_kmem :: "u64 \<Rightarrow> kmem" where
  "boot_kmem e = \<lparr>held = [], intr = False, memory = (\<lambda>_. 0), freelist = 0, kend = e\<rparr>"

theorem kalloc_kfree_stack_witness:
  "kalloc (boot_kmem 0x80021000) = Done 0 (boot_kmem 0x80021000)
   \<and> (\<exists>s'. kfree 0x80022000 (boot_kmem 0x80021000) = Done () s' \<and> free_pages s' [0x80022000])
   \<and> kfree 0x80022008 (boot_kmem 0x80021000) = Panic ''kfree''"
proof -
  have f: "free_pages (boot_kmem 0x80021000) []" by (simp add: free_pages_def boot_kmem_def)
  note st = kalloc_kfree_stack [OF f]
  have "page_ok (kend (boot_kmem 0x80021000)) 0x80022000"
    "\<not> page_ok (kend (boot_kmem 0x80021000)) 0x80022008"
    by (simp_all add: page_ok_def aligned_def PGSIZE_def boot_kmem_def PHYSTOP_def KERNBASE_def)
  with spec [where x = "0x80022000", OF conjunct2 [OF st]]
    spec [where x = "0x80022008", OF conjunct2 [OF st]] st [THEN conjunct1]
  show ?thesis by auto
qed

text \<open>
  C23 (termination): kinit returns, and then the free list holds every page-aligned address from
  the end of the kernel up to PHYSTOP, each exactly once.
\<close>

theorem kinit_frees_every_page:
  assumes "L_kmem \<notin> set (held s)" and "freelist s = 0" and "0 < kend s" and "kend s \<le> PHYSTOP"
  shows "\<exists>s' ps. kinit s = Done () s' \<and> free_pages s' ps \<and> set ps = {p. page_ok (kend s) p}"
proof -
  obtain s' where s': "kinit s = Done () s'" "freed_below PHYSTOP s'" "kend s' = kend s"
    using kinit_frees [OF assms] by blast
  moreover have "{q. page_ok (kend s) q \<and> q < PHYSTOP} = {q. page_ok (kend s) q}"
    by (auto simp: page_ok_def)
  ultimately show ?thesis unfolding freed_below_def by metis
qed

theorem kinit_frees_every_page_witness:
  "\<exists>s' ps. kinit (boot_kmem 0x80021000) = Done () s' \<and> free_pages s' ps
     \<and> set ps = {p. page_ok 0x80021000 p}"
  using kinit_frees_every_page [of "boot_kmem 0x80021000"]
  by (simp add: boot_kmem_def PHYSTOP_def KERNBASE_def)

end
