(* ===== verification/Printf.thy ===== *)
theory Printf
  imports Kalloc
begin

text \<open>
  Console output: \<^verbatim>\<open>kernel/printf.c\<close> with \<^verbatim>\<open>consputc\<close> of \<^verbatim>\<open>kernel/console.c\<close> and \<^verbatim>\<open>uartputc_sync\<close> of
  \<^verbatim>\<open>kernel/uart.c\<close>. \<open>uart_out\<close> is the sequence of bytes written to the UART's transmit register;
  the busy wait for the register to be empty is a property of the device and has no model. The
  variadic arguments are a list of 64-bit values and strings.
\<close>

section \<open>Definitions\<close>

type_synonym i32 = "32 word"

record kio = kmem +
  uart_out :: "u8 list"
  panicking :: i32
  panicked :: i32

definition str :: "string \<Rightarrow> u8 list" where
  "str cs = map of_char cs"

definition chr :: "char \<Rightarrow> u8" where
  "chr c = of_char c"

definition uartputc_sync :: "i32 \<Rightarrow> 'a kio_scheme \<Rightarrow> (unit, 'a kio_scheme) outcome" where
  "uartputc_sync c s =
     (if panicked s \<noteq> 0 then Spin
      else Done () (s\<lparr>uart_out := uart_out s @ [ucast c]\<rparr>))"

definition BACKSPACE :: i32 where "BACKSPACE = 0x100"

definition consputc :: "i32 \<Rightarrow> 'a kio_scheme \<Rightarrow> (unit, 'a kio_scheme) outcome" where
  "consputc c s =
     (if c = BACKSPACE then
        bnd (uartputc_sync 8 s) (\<lambda>_ s. bnd (uartputc_sync (of_char CHR '' '') s) (\<lambda>_ s. uartputc_sync 8 s))
      else uartputc_sync c s)"

primrec consputs :: "u8 list \<Rightarrow> 'a kio_scheme \<Rightarrow> (unit, 'a kio_scheme) outcome" where
  "consputs [] s = Done () s"
| "consputs (c # cs) s = bnd (consputc (ucast c) s) (\<lambda>_ s. consputs cs s)"

definition digits :: "u8 list" where
  "digits = str ''0123456789abcdef''"

text \<open>
  The digit loop of \<^verbatim>\<open>printint\<close>, low digit first. The source calls it with the bases 10 and 16;
  a base below 2, where the loop of the source would not end, gives one digit.
\<close>

function printint_loop :: "nat \<Rightarrow> u64 \<Rightarrow> u8 list" where
  "printint_loop base x =
     digits ! unat (x mod word_of_nat base) #
     (if x div word_of_nat base \<noteq> 0 \<and> base \<in> {10, 16}
      then printint_loop base (x div word_of_nat base) else [])"
  by pat_completeness auto

lemma word_div_less:
  "1 < b \<Longrightarrow> b < 2 ^ 64 \<Longrightarrow> x div word_of_nat b \<noteq> (0 :: u64) \<Longrightarrow>
     unat (x div word_of_nat b) < unat x"
proof -
  assume b: "1 < b" "b < 2 ^ 64" and n: "x div word_of_nat b \<noteq> (0 :: u64)"
  have "unat (x div word_of_nat b) = unat x div b" using b by (simp add: unat_div unat_of_nat)
  moreover have "unat x \<noteq> 0" using n by (metis div_0 unat_eq_zero)
  ultimately show ?thesis using b by simp
qed

termination printint_loop
  by (relation "measure (\<lambda>(b, x). unat x)") (auto intro: word_div_less)

declare printint_loop.simps [simp del]

definition printint_buf :: "u64 \<Rightarrow> nat \<Rightarrow> bool \<Rightarrow> u8 list" where
  "printint_buf xx base sign =
     (let neg = sign \<and> sint xx < 0;
          x = (if neg then - xx else xx)
      in printint_loop base x @ (if neg then [chr CHR ''-''] else []))"

definition printint :: "u64 \<Rightarrow> nat \<Rightarrow> bool \<Rightarrow> 'a kio_scheme \<Rightarrow> (unit, 'a kio_scheme) outcome" where
  "printint xx base sign s = consputs (rev (printint_buf xx base sign)) s"

primrec printptr_digits :: "nat \<Rightarrow> u64 \<Rightarrow> u8 list" where
  "printptr_digits 0 x = []"
| "printptr_digits (Suc i) x = digits ! unat (drop_bit 60 x) # printptr_digits i (push_bit 4 x)"

definition printptr :: "u64 \<Rightarrow> 'a kio_scheme \<Rightarrow> (unit, 'a kio_scheme) outcome" where
  "printptr x s = consputs (str ''0x'' @ printptr_digits 16 x) s"

datatype arg = Val u64 | Str "u8 list option"

fun va_val :: "arg list \<Rightarrow> u64" where
  "va_val (Val v # ap) = v"
| "va_val ap = 0"

fun va_str :: "arg list \<Rightarrow> u8 list option" where
  "va_str (Str t # ap) = t"
| "va_str ap = None"

text \<open>The byte of a format at an offset, and 0 at its end.\<close>

definition fmt_at :: "u8 list \<Rightarrow> nat \<Rightarrow> u8" where
  "fmt_at f i = (if i < length f then f ! i else 0)"

function printf_loop :: "u8 list \<Rightarrow> arg list \<Rightarrow> 'a kio_scheme \<Rightarrow> (unit, 'a kio_scheme) outcome" where
  "printf_loop [] ap s = Done () s"
| "printf_loop (cx # f) ap s =
     (if cx \<noteq> chr CHR ''%'' then bnd (consputc (ucast cx) s) (\<lambda>_ s. printf_loop f ap s)
      else
        let c0 = fmt_at f 0;
            c1 = (if c0 \<noteq> 0 then fmt_at f 1 else 0);
            c2 = (if c1 \<noteq> 0 then fmt_at f 2 else 0);
            v = va_val ap; lo = (ucast v :: i32);
            int_arg = (\<lambda>x base sign k.
              bnd (printint x base sign s) (\<lambda>_ s. printf_loop (drop k f) (tl ap) s))
        in
        if c0 = chr CHR ''d'' then int_arg (scast lo) 10 True 1
        else if c0 = chr CHR ''l'' \<and> c1 = chr CHR ''d'' then int_arg v 10 True 2
        else if c0 = chr CHR ''l'' \<and> c1 = chr CHR ''l'' \<and> c2 = chr CHR ''d'' then int_arg v 10 True 3
        else if c0 = chr CHR ''u'' then int_arg (ucast lo) 10 False 1
        else if c0 = chr CHR ''l'' \<and> c1 = chr CHR ''u'' then int_arg v 10 False 2
        else if c0 = chr CHR ''l'' \<and> c1 = chr CHR ''l'' \<and> c2 = chr CHR ''u'' then int_arg v 10 False 3
        else if c0 = chr CHR ''x'' then int_arg (ucast lo) 16 False 1
        else if c0 = chr CHR ''l'' \<and> c1 = chr CHR ''x'' then int_arg v 16 False 2
        else if c0 = chr CHR ''l'' \<and> c1 = chr CHR ''l'' \<and> c2 = chr CHR ''x'' then int_arg v 16 False 3
        else if c0 = chr CHR ''p'' then
          bnd (printptr v s) (\<lambda>_ s. printf_loop (drop 1 f) (tl ap) s)
        else if c0 = chr CHR ''c'' then
          bnd (consputc lo s) (\<lambda>_ s. printf_loop (drop 1 f) (tl ap) s)
        else if c0 = chr CHR ''s'' then
          bnd (consputs (case va_str ap of None \<Rightarrow> str ''(null)'' | Some t \<Rightarrow> takeWhile (\<lambda>c. c \<noteq> 0) t) s)
            (\<lambda>_ s. printf_loop (drop 1 f) (tl ap) s)
        else if c0 = chr CHR ''%'' then
          bnd (consputc (ucast c0) s) (\<lambda>_ s. printf_loop (drop 1 f) ap s)
        else if c0 = 0 then Done () s
        else
          bnd (consputc (of_char CHR ''%'') s) (\<lambda>_ s.
          bnd (consputc (ucast c0) s) (\<lambda>_ s. printf_loop (drop 1 f) ap s)))"
  by pat_completeness auto

termination printf_loop
  by (relation "measure (\<lambda>(f, ap, s). length f)") (auto simp: Let_def)

definition printf :: "u8 list \<Rightarrow> arg list \<Rightarrow> 'a kio_scheme \<Rightarrow> (unit, 'a kio_scheme) outcome" where
  "printf fmt ap s =
     (if panicking s = 0
      then bnd (acquire L_pr s) (\<lambda>_ s. bnd (printf_loop fmt ap s) (\<lambda>_ s. release L_pr s))
      else printf_loop fmt ap s)"

text \<open>
  \<^verbatim>\<open>panic\<close> itself: it prints the message and then spins; a call of it in the other components is
  the outcome \<open>Panic\<close>.
\<close>

definition panic :: "u8 list \<Rightarrow> 'a kio_scheme \<Rightarrow> (unit, 'a kio_scheme) outcome" where
  "panic msg s =
     (let s = s\<lparr>panicking := 1\<rparr> in
      bnd (printf (str ''panic: '') [] s) (\<lambda>_ s.
      bnd (printf (str ''%s'' @ [10]) [Str (Some msg)] s) (\<lambda>_ s.
      let s = s\<lparr>panicked := 1\<rparr> in Spin)))"

definition printfinit :: "'a kio_scheme \<Rightarrow> 'a kio_scheme" where
  "printfinit s = init_lock L_pr s"

section \<open>The digits of a number\<close>

definition digit_index :: "u8 \<Rightarrow> nat" where
  "digit_index d = length (takeWhile (\<lambda>c. c \<noteq> d) digits)"

text \<open>The number a digit string denotes, low digit first and high digit first.\<close>

primrec low_value :: "nat \<Rightarrow> u8 list \<Rightarrow> nat" where
  "low_value b [] = 0"
| "low_value b (d # ds) = digit_index d + b * low_value b ds"

definition numeral_value :: "nat \<Rightarrow> u8 list \<Rightarrow> nat" where
  "numeral_value b ds = foldl (\<lambda>a d. a * b + digit_index d) 0 ds"

lemma numeral_value_rev: "numeral_value b (rev ds) = low_value b ds"
  unfolding numeral_value_def by (induction ds) (simp_all add: algebra_simps)

lemma digit_index_digits: "i < 16 \<Longrightarrow> digit_index (digits ! i) = i"
proof -
  assume "i < 16"
  then have "i \<in> {0..<16}" by simp
  moreover have "\<forall>i \<in> set [0..<16]. digit_index (digits ! i) = i" by code_simp
  ultimately show ?thesis by simp
qed

lemma unat_base:
  assumes "base \<in> {10, 16}"
  shows "unat (x mod word_of_nat base) = unat (x :: u64) mod base"
    and "unat (x div word_of_nat base) = unat x div base"
  using assms by (auto simp: unat_mod unat_div)

lemma printint_loop_value:
  "base \<in> {10, 16} \<Longrightarrow> low_value base (printint_loop base x) = unat x"
proof (induction base x rule: printint_loop.induct)
  case (1 base x)
  have d: "digit_index (digits ! unat (x mod word_of_nat base)) = unat x mod base"
    unfolding unat_base(1) [OF "1.prems"] using "1.prems" by (intro digit_index_digits) auto
  show ?case
  proof (cases "x div word_of_nat base = 0")
    case True
    then have "unat x div base = 0" using unat_base(2) [OF "1.prems"] by (metis unat_0)
    then have "unat x mod base = unat x" using "1.prems" by (auto simp: div_eq_0_iff)
    with True d show ?thesis by (subst printint_loop.simps) simp
  next
    case False
    with "1.IH" "1.prems" have "low_value base (printint_loop base (x div word_of_nat base)) =
      unat x div base" using unat_base(2) [OF "1.prems"] by simp
    with False d "1.prems" show ?thesis by (subst printint_loop.simps) simp
  qed
qed

lemma printint_loop_length:
  "base \<in> {10, 16} \<Longrightarrow> unat x < base ^ Suc n \<Longrightarrow> length (printint_loop base x) \<le> Suc n"
proof (induction base x arbitrary: n rule: printint_loop.induct)
  case (1 base x)
  show ?case
  proof (cases "x div word_of_nat base = 0")
    case True
    then show ?thesis by (subst printint_loop.simps) simp
  next
    case False
    then have nz: "unat x div base \<noteq> 0" using unat_base(2) [OF "1.prems"(1)] by (metis unat_eq_zero)
    with "1.prems" obtain k where k: "n = Suc k" by (cases n) auto
    have "unat (x div word_of_nat base) < base ^ Suc k"
      unfolding unat_base(2) [OF "1.prems"(1)] using "1.prems" k
      by (simp add: less_mult_imp_div_less mult.commute)
    then show ?thesis
      using "1.IH" [of k] False "1.prems"(1) k by (subst printint_loop.simps) simp
  qed
qed

lemma unat_neg:
  assumes "sint (x :: u64) < 0"
  shows "uint (- x) = - sint x" and "unat (- x) \<le> 2 ^ 63"
proof -
  have s: "- (2 ^ 63) \<le> sint x" using sint_ge [of x] by simp
  have "- x = word_of_int (- sint x)" by simp
  then have "uint (- x) = (- sint x) mod 2 ^ 64" by (simp only: uint_word_of_int) simp
  also have "\<dots> = - sint x" using s assms by (intro mod_pos_pos_trivial) auto
  finally show a: "uint (- x) = - sint x" .
  then show "unat (- x) \<le> 2 ^ 63" using s by (simp add: unat_eq_nat_uint nat_le_iff)
qed

section \<open>Properties\<close>



section \<open>Printing returns\<close>

text \<open>While the kernel has not panicked, printing returns and only adds to the output.\<close>

definition prints :: "'a kio_scheme \<Rightarrow> (unit, 'a kio_scheme) outcome \<Rightarrow> bool" where
  "prints s m \<longleftrightarrow> (\<exists>c. m = Done () (s\<lparr>uart_out := c\<rparr>))"

lemma prints_Done: "prints s (Done () s)"
  by (auto simp: prints_def intro: exI [of _ "uart_out s"])

lemma prints_bnd: "prints s m \<Longrightarrow> (\<And>c. prints (s\<lparr>uart_out := c\<rparr>) (f () (s\<lparr>uart_out := c\<rparr>))) \<Longrightarrow> prints s (bnd m f)"
  by (fastforce simp: prints_def)

lemma prints_if: "(b \<Longrightarrow> prints s x) \<Longrightarrow> (\<not> b \<Longrightarrow> prints s y) \<Longrightarrow> prints s (if b then x else y)"
  by simp

lemma consputc_prints: "panicked s = 0 \<Longrightarrow> prints s (consputc c s)"
  by (auto simp: consputc_def uartputc_sync_def prints_def)

lemma consputs_prints: "panicked s = 0 \<Longrightarrow> prints s (consputs cs s)"
  by (induction cs arbitrary: s) (auto intro!: prints_Done prints_bnd consputc_prints)

lemma printint_prints: "panicked s = 0 \<Longrightarrow> prints s (printint x base sign s)" "panicked s = 0 \<Longrightarrow> prints s (printptr x s)"
  by (simp_all only: printint_def printptr_def consputs_prints)

lemma printf_loop_prints: "panicked s = 0 \<Longrightarrow> prints s (printf_loop f ap s)"
proof (induction "length f" arbitrary: f ap s rule: less_induct)
  case less
  show ?case
  proof (cases f)
    case Nil
    then show ?thesis by (simp add: prints_Done)
  next
    case (Cons cx g)
    have ih0: "prints (s\<lparr>uart_out := c\<rparr>) (printf_loop g ap' (s\<lparr>uart_out := c\<rparr>))" for c ap'
      using less Cons by simp
    have ih: "prints (s\<lparr>uart_out := c\<rparr>) (printf_loop (drop (Suc k) g) ap' (s\<lparr>uart_out := c\<rparr>))" for c ap' k
      using less Cons by simp
    have ih2: "prints (s\<lparr>uart_out := c, uart_out := c'\<rparr>) (printf_loop (drop (Suc k) g) ap' (s\<lparr>uart_out := c, uart_out := c'\<rparr>))" for c c' ap' k
      using less Cons by simp
    have p: "panicked (s\<lparr>uart_out := c\<rparr>) = 0" for c using less.prems by simp
    show ?thesis unfolding Cons printf_loop.simps Let_def One_nat_def numeral_2_eq_2 numeral_3_eq_3
      by (rule less.prems p ih0 ih ih2 prints_if prints_bnd prints_Done consputc_prints consputs_prints printint_prints)+
  qed
qed

lemma printf_prints: "panicked s = 0 \<Longrightarrow> L_pr \<notin> set (held s) \<Longrightarrow> prints s (printf fmt ap s)"
  using printf_loop_prints [of s fmt ap] printf_loop_prints [of "s\<lparr>held := L_pr # held s\<rparr>" fmt ap]
  by (auto simp: printf_def prints_def release_def holding_def)

end
