(* ===== verification/Kstate.thy ===== *)
theory Kstate
  imports Printf
begin

text \<open>
  The state of the process subsystem: the declarations of \<^verbatim>\<open>kernel/proc.h\<close> and the globals of
  \<^verbatim>\<open>proc.c\<close>, \<^verbatim>\<open>trap.c\<close> and \<^verbatim>\<open>vm.c\<close>.

  \<^item> A pointer into the process table is an index, \<open>None\<close> the null pointer; \<open>cur\<close> is the
    \<^verbatim>\<open>proc\<close> of the hart the code runs on.
  \<^item> A sleep channel, an arbitrary address in the code, is the object whose address it is.
  \<^item> Trapframes are kept by the address of their page, apart from the byte memory.
  \<^item> \<open>ksyms\<close> holds the addresses the linker provides.
\<close>

section \<open>Definitions\<close>

datatype procstate = UNUSED | USED | SLEEPING | RUNNABLE | RUNNING | ZOMBIE

datatype chan =
    NoChan | Ch_ticks | Ch_sem | Ch_proc nat | Ch_log | Ch_buf nat | Ch_buflock nat
  | Ch_inodelock nat | Ch_nread u64 | Ch_nwrite u64 | Ch_cons | Ch_tx

datatype reg =
    Kernel_satp | Kernel_sp | Kernel_trap | Epc | Kernel_hartid
  | Ra | Sp | Gp | Tp | T0 | T1 | T2 | S0 | S1 | A0 | A1 | A2 | A3 | A4 | A5 | A6 | A7
  | S2 | S3 | S4 | S5 | S6 | S7 | S8 | S9 | S10 | S11 | T3 | T4 | T5 | T6

type_synonym trapframe = "reg \<Rightarrow> u64"

datatype ctxreg = Ctx_ra | Ctx_sp | Ctx_s nat

record proc =
  state :: procstate
  chan :: chan
  killed :: i32
  xstate :: i32
  pid :: i32
  parent :: "nat option"
  kstack :: u64
  sz :: u64
  pagetable :: u64
  trapframe :: u64
  ctx :: "ctxreg \<Rightarrow> u64"
  ofile :: "nat \<Rightarrow> nat option"
  cwd :: "nat option"
  pname :: "u8 list"
  signal_handlers :: "nat \<Rightarrow> u64"
  pending_signals :: i32
  signal_trapframe :: trapframe
  in_signal_handler :: i32
  message :: "u8 list"
  has_message :: i32

record ksyms =
  etext :: u64
  trampoline :: u64
  uservec :: u64
  kernelvec :: u64
  usertrap_pc :: u64
  forkret_pc :: u64

record kstate = kio +
  syms :: ksyms
  kernel_pagetable :: u64
  satp :: u64
  procs :: "nat \<Rightarrow> proc"
  cur :: "nat option"
  initproc :: "nat option"
  nextpid :: i32
  tframes :: "u64 \<Rightarrow> trapframe"
  ticks :: u32
  global_sem :: i32
  lock_used :: "nat \<Rightarrow> i32"

definition upd_proc :: "nat \<Rightarrow> (proc \<Rightarrow> proc) \<Rightarrow> 'a kstate_scheme \<Rightarrow> 'a kstate_scheme" where
  "upd_proc i f s = s\<lparr>procs := (procs s)(i := f (procs s i))\<rparr>"

text \<open>\<^verbatim>\<open>myproc()\<close> where the result is used without a test: the null pointer faults in the kernel.\<close>

definition with_myproc :: "'a kstate_scheme \<Rightarrow> (nat \<Rightarrow> ('b, 'a kstate_scheme) outcome) \<Rightarrow>
    ('b, 'a kstate_scheme) outcome" where
  "with_myproc s f = (case cur s of None \<Rightarrow> Panic ''kerneltrap'' | Some p \<Rightarrow> f p)"

definition tf_get :: "nat \<Rightarrow> reg \<Rightarrow> 'a kstate_scheme \<Rightarrow> u64" where
  "tf_get p r s = tframes s (trapframe (procs s p)) r"

definition tf_set :: "nat \<Rightarrow> reg \<Rightarrow> u64 \<Rightarrow> 'a kstate_scheme \<Rightarrow> 'a kstate_scheme" where
  "tf_set p r v s =
     (let a = trapframe (procs s p) in s\<lparr>tframes := (tframes s)(a := (tframes s a)(r := v))\<rparr>)"

text \<open>A C string of at most \<open>n\<close> bytes with its terminator: what \<^verbatim>\<open>safestrcpy\<close> leaves in an array.\<close>

definition cstring_copy :: "nat \<Rightarrow> u8 list \<Rightarrow> u8 list" where
  "cstring_copy n t = take (n - 1) (takeWhile (\<lambda>c. c \<noteq> 0) t)"

section \<open>Example states\<close>

text \<open>A process slot and a kernel state with every field zero, as a start for concrete states.\<close>

definition blank_proc :: proc where
  "blank_proc = \<lparr>state = UNUSED, chan = NoChan, killed = 0, xstate = 0, pid = 0, parent = None, kstack = 0,
     sz = 0, pagetable = 0, trapframe = 0, ctx = (\<lambda>_. 0), ofile = (\<lambda>_. None), cwd = None, pname = [],
     signal_handlers = (\<lambda>_. 0), pending_signals = 0, signal_trapframe = (\<lambda>_. 0), in_signal_handler = 0,
     message = [], has_message = 0\<rparr>"

definition blank_kstate :: kstate where
  "blank_kstate = \<lparr>held = [], intr = False, memory = (\<lambda>_. 0), freelist = 0, kend = 0x80021000,
     uart_out = [], panicking = 0, panicked = 0,
     syms = \<lparr>etext = 0x80008000, trampoline = 0x80007000, uservec = 0x80007000, kernelvec = 0x80005000,
       usertrap_pc = 0x80002000, forkret_pc = 0x80001000\<rparr>,
     kernel_pagetable = 0, satp = 0, procs = (\<lambda>_. blank_proc), cur = None, initproc = None, nextpid = 1,
     tframes = (\<lambda>_ _. 0), ticks = 0, global_sem = 1, lock_used = (\<lambda>_. 0)\<rparr>"

section \<open>Access\<close>

lemma upd_proc_fields [simp]:
  "procs (upd_proc i f s) = (procs s)(i := f (procs s i))"
  "held (upd_proc i f s) = held s" "intr (upd_proc i f s) = intr s"
  "memory (upd_proc i f s) = memory s" "freelist (upd_proc i f s) = freelist s"
  "kend (upd_proc i f s) = kend s" "uart_out (upd_proc i f s) = uart_out s"
  "panicking (upd_proc i f s) = panicking s" "panicked (upd_proc i f s) = panicked s"
  "syms (upd_proc i f s) = syms s" "kernel_pagetable (upd_proc i f s) = kernel_pagetable s"
  "satp (upd_proc i f s) = satp s" "cur (upd_proc i f s) = cur s"
  "initproc (upd_proc i f s) = initproc s" "nextpid (upd_proc i f s) = nextpid s"
  "tframes (upd_proc i f s) = tframes s" "ticks (upd_proc i f s) = ticks s"
  "global_sem (upd_proc i f s) = global_sem s" "lock_used (upd_proc i f s) = lock_used s"
  by (simp_all add: upd_proc_def)

lemma with_myproc_Some [simp]: "cur s = Some p \<Longrightarrow> with_myproc s f = f p"
  by (simp add: with_myproc_def)

lemma with_myproc_None [simp]: "cur s = None \<Longrightarrow> with_myproc s f = Panic ''kerneltrap''"
  by (simp add: with_myproc_def)

lemma tf_get_set [simp]:
  "tf_get p r (tf_set p r' v s) = (if r = r' then v else tf_get p r s)"
  by (simp add: tf_get_def tf_set_def Let_def)

lemma tf_set_fields [simp]:
  "procs (tf_set p r v s) = procs s" "held (tf_set p r v s) = held s" "cur (tf_set p r v s) = cur s"
  "memory (tf_set p r v s) = memory s" "uart_out (tf_set p r v s) = uart_out s"
  "satp (tf_set p r v s) = satp s" "syms (tf_set p r v s) = syms s" "intr (tf_set p r v s) = intr s"
  by (simp_all add: tf_set_def Let_def)

end
