(* ===== verification/Vm.thy ===== *)
theory Vm
  imports Kstate
begin

text \<open>
  Page tables and user memory, \<^verbatim>\<open>kernel/vm.c\<close>. Page tables live in the byte memory, as the Sv39
  trees that \<^verbatim>\<open>walk\<close> follows. A function that may panic or allocate returns an outcome. Kernel
  buffers that are not pages are byte lists: \<open>copyout\<close> takes the bytes of its source, and
  \<open>copyin\<close> and \<open>copyinstr\<close> return the bytes they have stored into their destination, also when
  they fail half way.
\<close>

section \<open>Definitions\<close>

definition pte_addr :: "u64 \<Rightarrow> u64 \<Rightarrow> u64" where
  "pte_addr pt i = pt + 8 * i"

text \<open>The loop of \<^verbatim>\<open>walk\<close> from a level down, and \<^verbatim>\<open>walk\<close>.\<close>

primrec walk_from :: "nat \<Rightarrow> u64 \<Rightarrow> u64 \<Rightarrow> bool \<Rightarrow> 'a kmem_scheme \<Rightarrow> (u64, 'a kmem_scheme) outcome" where
  "walk_from 0 pt va alloc s = Done (pte_addr pt (PX 0 va)) s"
| "walk_from (Suc l) pt va alloc s =
     (let pte = pte_addr pt (PX (Suc l) va) in
      if ld64 (memory s) pte AND PTE_V \<noteq> 0 then walk_from l (PTE2PA (ld64 (memory s) pte)) va alloc s
      else if \<not> alloc then Done 0 s
      else bnd (kalloc s) (\<lambda>p s.
        if p = 0 then Done 0 s
        else
          let s = s\<lparr>memory := memset (memory s) p 0 (unat PGSIZE)\<rparr>;
              s = s\<lparr>memory := st64 (memory s) pte (PA2PTE p OR PTE_V)\<rparr>
          in walk_from l p va alloc s))"

definition walk :: "u64 \<Rightarrow> u64 \<Rightarrow> bool \<Rightarrow> 'a kmem_scheme \<Rightarrow> (u64, 'a kmem_scheme) outcome" where
  "walk pt va alloc s = (if va \<ge> MAXVA then Panic ''walk'' else walk_from 2 pt va alloc s)"

definition walkaddr :: "u64 \<Rightarrow> u64 \<Rightarrow> 'a kmem_scheme \<Rightarrow> (u64, 'a kmem_scheme) outcome" where
  "walkaddr pt va s =
     (if va \<ge> MAXVA then Done 0 s
      else bnd (walk pt va False s) (\<lambda>pte s.
        if pte = 0 then Done 0 s
        else if ld64 (memory s) pte AND PTE_V = 0 then Done 0 s
        else if ld64 (memory s) pte AND PTE_U = 0 then Done 0 s
        else Done (PTE2PA (ld64 (memory s) pte)) s))"

lemma walk_Done_MAXVA: "walk pt va alloc s = Done r s' \<Longrightarrow> va < MAXVA"
  by (auto simp: walk_def split: if_splits)

lemma MAXVA_unat: "unat MAXVA = 2 ^ 38"
  by (simp add: MAXVA_def push_bit_eq_mult unat_word_ariths)

lemma below_MAXVA_step:
  assumes "a < MAXVA"
  shows "unat MAXVA - unat (a + 4096) < unat MAXVA - unat a"
proof -
  have a: "unat a < 2 ^ 38" using assms by (simp add: word_less_nat_alt MAXVA_unat)
  then have "unat (a + 4096) = unat a + 4096" by (subst unat_word_ariths) simp
  with a show ?thesis by (simp add: MAXVA_unat)
qed

function mappages_loop :: "u64 \<Rightarrow> u64 \<Rightarrow> u64 \<Rightarrow> u64 \<Rightarrow> u64 \<Rightarrow> 'a kmem_scheme \<Rightarrow> (i32, 'a kmem_scheme) outcome" where
  "mappages_loop pt a lst pa perm s =
     bnd (walk pt a True s) (\<lambda>pte s.
       if pte = 0 then Done (- 1) s
       else if ld64 (memory s) pte AND PTE_V \<noteq> 0 then Panic ''mappages: remap''
       else
         let s = s\<lparr>memory := st64 (memory s) pte (PA2PTE pa OR perm OR PTE_V)\<rparr> in
         if a = lst then Done 0 s
         else mappages_loop pt (a + PGSIZE) lst (pa + PGSIZE) perm s)"
  by pat_completeness auto

termination mappages_loop
  by (relation "measure (\<lambda>(pt, a, lst, pa, perm, s). unat MAXVA - unat a)")
    (auto simp: PGSIZE_def dest!: walk_Done_MAXVA intro: below_MAXVA_step)

declare mappages_loop.simps [simp del]

definition mappages :: "u64 \<Rightarrow> u64 \<Rightarrow> u64 \<Rightarrow> u64 \<Rightarrow> u64 \<Rightarrow> 'a kmem_scheme \<Rightarrow> (i32, 'a kmem_scheme) outcome" where
  "mappages pt va len pa perm s =
     (if va mod PGSIZE \<noteq> 0 then Panic ''mappages: va not aligned''
      else if len mod PGSIZE \<noteq> 0 then Panic ''mappages: size not aligned''
      else if len = 0 then Panic ''mappages: size''
      else mappages_loop pt va (va + len - PGSIZE) pa perm s)"

definition kvmmap :: "u64 \<Rightarrow> u64 \<Rightarrow> u64 \<Rightarrow> u64 \<Rightarrow> u64 \<Rightarrow> 'a kmem_scheme \<Rightarrow> (unit, 'a kmem_scheme) outcome" where
  "kvmmap kpgtbl va pa n perm s =
     bnd (mappages kpgtbl va n pa perm s) (\<lambda>r s. if r \<noteq> 0 then Panic ''kvmmap'' else Done () s)"

definition uvmcreate :: "'a kmem_scheme \<Rightarrow> (u64, 'a kmem_scheme) outcome" where
  "uvmcreate s =
     bnd (kalloc s) (\<lambda>pt s.
       if pt = 0 then Done 0 s
       else Done pt (s\<lparr>memory := memset (memory s) pt 0 (unat PGSIZE)\<rparr>))"

function uvmunmap_loop :: "u64 \<Rightarrow> u64 \<Rightarrow> u64 \<Rightarrow> bool \<Rightarrow> 'a kmem_scheme \<Rightarrow> (unit, 'a kmem_scheme) outcome" where
  "uvmunmap_loop pt a limit do_free s =
     (if \<not> a < limit then Done () s
      else bnd (walk pt a False s) (\<lambda>pte s.
        if pte = 0 then uvmunmap_loop pt (a + PGSIZE) limit do_free s
        else if ld64 (memory s) pte AND PTE_V = 0 then uvmunmap_loop pt (a + PGSIZE) limit do_free s
        else bnd (if do_free then kfree (PTE2PA (ld64 (memory s) pte)) s else Done () s) (\<lambda>_ s.
          let s = s\<lparr>memory := st64 (memory s) pte 0\<rparr> in
          uvmunmap_loop pt (a + PGSIZE) limit do_free s)))"
  by pat_completeness auto

termination uvmunmap_loop
  by (relation "measure (\<lambda>(pt, a, limit, do_free, s). unat MAXVA - unat a)")
    (auto simp: PGSIZE_def dest!: walk_Done_MAXVA intro: below_MAXVA_step)

declare uvmunmap_loop.simps [simp del]

definition uvmunmap :: "u64 \<Rightarrow> u64 \<Rightarrow> u64 \<Rightarrow> bool \<Rightarrow> 'a kmem_scheme \<Rightarrow> (unit, 'a kmem_scheme) outcome" where
  "uvmunmap pt va npages do_free s =
     (if va mod PGSIZE \<noteq> 0 then Panic ''uvmunmap: not aligned''
      else uvmunmap_loop pt va (va + npages * PGSIZE) do_free s)"

text \<open>\<^verbatim>\<open>npages\<close> is an \<^verbatim>\<open>int\<close> of the source: the quotient is truncated to 32 bits and sign extended.\<close>

definition uvmdealloc :: "u64 \<Rightarrow> u64 \<Rightarrow> u64 \<Rightarrow> 'a kmem_scheme \<Rightarrow> (u64, 'a kmem_scheme) outcome" where
  "uvmdealloc pt oldsz newsz s =
     (if newsz \<ge> oldsz then Done oldsz s
      else if PGROUNDUP newsz < PGROUNDUP oldsz then
        let npages = (ucast ((PGROUNDUP oldsz - PGROUNDUP newsz) div PGSIZE) :: i32)
        in bnd (uvmunmap pt (PGROUNDUP newsz) (scast npages) True s) (\<lambda>_ s. Done newsz s)
      else Done newsz s)"

lemma mappages_Done_MAXVA: "mappages pt va n pa perm s = Done r s' \<Longrightarrow> va < MAXVA"
  by (auto simp: mappages_def mappages_loop.simps [of pt va] bnd_Done_iff split: if_splits
      dest!: walk_Done_MAXVA)

function uvmalloc_loop :: "u64 \<Rightarrow> u64 \<Rightarrow> u64 \<Rightarrow> u64 \<Rightarrow> u64 \<Rightarrow> 'a kmem_scheme \<Rightarrow> (u64, 'a kmem_scheme) outcome" where
  "uvmalloc_loop pt a oldsz newsz xperm s =
     (if \<not> a < newsz then Done newsz s
      else bnd (kalloc s) (\<lambda>p s.
        if p = 0 then bnd (uvmdealloc pt a oldsz s) (\<lambda>_ s. Done 0 s)
        else
          let s = s\<lparr>memory := memset (memory s) p 0 (unat PGSIZE)\<rparr> in
          bnd (mappages pt a PGSIZE p (PTE_R OR PTE_U OR xperm) s) (\<lambda>r s.
            if r \<noteq> 0 then
              bnd (kfree p s) (\<lambda>_ s. bnd (uvmdealloc pt a oldsz s) (\<lambda>_ s. Done 0 s))
            else uvmalloc_loop pt (a + PGSIZE) oldsz newsz xperm s)))"
  by pat_completeness auto

termination uvmalloc_loop
  by (relation "measure (\<lambda>(pt, a, oldsz, newsz, xperm, s). unat MAXVA - unat a)")
    (auto simp: PGSIZE_def dest!: mappages_Done_MAXVA intro: below_MAXVA_step)

declare uvmalloc_loop.simps [simp del]

definition uvmalloc :: "u64 \<Rightarrow> u64 \<Rightarrow> u64 \<Rightarrow> u64 \<Rightarrow> 'a kmem_scheme \<Rightarrow> (u64, 'a kmem_scheme) outcome" where
  "uvmalloc pt oldsz newsz xperm s =
     (if newsz < oldsz then Done oldsz s
      else uvmalloc_loop pt (PGROUNDUP oldsz) (PGROUNDUP oldsz) newsz xperm s)"

text \<open>
  \<^verbatim>\<open>freewalk\<close>, with the recursion over the children passed to the loop over the entries. A page
  table has three levels; a deeper recursion, which only a malformed table causes, is \<open>Spin\<close>.
\<close>

primrec freewalk_loop :: "(u64 \<Rightarrow> 'a kmem_scheme \<Rightarrow> (unit, 'a kmem_scheme) outcome) \<Rightarrow>
    u64 \<Rightarrow> nat list \<Rightarrow> 'a kmem_scheme \<Rightarrow> (unit, 'a kmem_scheme) outcome" where
  "freewalk_loop rec pt [] s = Done () s"
| "freewalk_loop rec pt (i # is) s =
     (let pte = ld64 (memory s) (pte_addr pt (word_of_nat i)) in
      if pte AND PTE_V \<noteq> 0 \<and> pte AND (PTE_R OR PTE_W OR PTE_X) = 0 then
        bnd (rec (PTE2PA pte) s) (\<lambda>_ s.
          let s = s\<lparr>memory := st64 (memory s) (pte_addr pt (word_of_nat i)) 0\<rparr> in
          freewalk_loop rec pt is s)
      else if pte AND PTE_V \<noteq> 0 then Panic ''freewalk: leaf''
      else freewalk_loop rec pt is s)"

primrec freewalk_depth :: "nat \<Rightarrow> u64 \<Rightarrow> 'a kmem_scheme \<Rightarrow> (unit, 'a kmem_scheme) outcome" where
  "freewalk_depth 0 pt s = Spin"
| "freewalk_depth (Suc d) pt s =
     bnd (freewalk_loop (freewalk_depth d) pt [0..<512] s) (\<lambda>_ s. kfree pt s)"

definition freewalk :: "u64 \<Rightarrow> 'a kmem_scheme \<Rightarrow> (unit, 'a kmem_scheme) outcome" where
  "freewalk pt s = freewalk_depth 3 pt s"

definition uvmfree :: "u64 \<Rightarrow> u64 \<Rightarrow> 'a kmem_scheme \<Rightarrow> (unit, 'a kmem_scheme) outcome" where
  "uvmfree pt n s =
     bnd (if n > 0 then uvmunmap pt 0 (PGROUNDUP n div PGSIZE) True s else Done () s)
       (\<lambda>_ s. freewalk pt s)"

function uvmcopy_loop :: "u64 \<Rightarrow> u64 \<Rightarrow> u64 \<Rightarrow> u64 \<Rightarrow> 'a kmem_scheme \<Rightarrow> (i32, 'a kmem_scheme) outcome" where
  "uvmcopy_loop old new i n s =
     (if \<not> i < n then Done 0 s
      else bnd (walk old i False s) (\<lambda>pte s.
        if pte = 0 then uvmcopy_loop old new (i + PGSIZE) n s
        else if ld64 (memory s) pte AND PTE_V = 0 then uvmcopy_loop old new (i + PGSIZE) n s
        else
          let pa = PTE2PA (ld64 (memory s) pte);
              flags = PTE_FLAGS (ld64 (memory s) pte);
              err = (\<lambda>s. bnd (uvmunmap new 0 (i div PGSIZE) True s) (\<lambda>_ s. Done (- 1) s))
          in bnd (kalloc s) (\<lambda>p s.
            if p = 0 then err s
            else
              let s = s\<lparr>memory := memmove (memory s) p pa (unat PGSIZE)\<rparr> in
              bnd (mappages new i PGSIZE p flags s) (\<lambda>r s.
                if r \<noteq> 0 then bnd (kfree p s) (\<lambda>_ s. err s)
                else uvmcopy_loop old new (i + PGSIZE) n s))))"
  by pat_completeness auto

termination uvmcopy_loop
  by (relation "measure (\<lambda>(old, new, i, n, s). unat MAXVA - unat i)")
    (auto simp: PGSIZE_def dest!: walk_Done_MAXVA intro: below_MAXVA_step)

declare uvmcopy_loop.simps [simp del]

definition uvmcopy :: "u64 \<Rightarrow> u64 \<Rightarrow> u64 \<Rightarrow> 'a kmem_scheme \<Rightarrow> (i32, 'a kmem_scheme) outcome" where
  "uvmcopy old new n s = uvmcopy_loop old new 0 n s"

definition uvmclear :: "u64 \<Rightarrow> u64 \<Rightarrow> 'a kmem_scheme \<Rightarrow> (unit, 'a kmem_scheme) outcome" where
  "uvmclear pt va s =
     bnd (walk pt va False s) (\<lambda>pte s.
       if pte = 0 then Panic ''uvmclear''
       else Done () (s\<lparr>memory := st64 (memory s) pte (ld64 (memory s) pte AND NOT PTE_U)\<rparr>))"

definition ismapped :: "u64 \<Rightarrow> u64 \<Rightarrow> 'a kmem_scheme \<Rightarrow> (bool, 'a kmem_scheme) outcome" where
  "ismapped pt va s =
     bnd (walk pt va False s) (\<lambda>pte s.
       if pte = 0 then Done False s else Done (ld64 (memory s) pte AND PTE_V \<noteq> 0) s)"

definition vmfault :: "u64 \<Rightarrow> u64 \<Rightarrow> 'a kstate_scheme \<Rightarrow> (u64, 'a kstate_scheme) outcome" where
  "vmfault pt va s =
     with_myproc s (\<lambda>me.
       if va \<ge> sz (procs s me) then Done 0 s
       else
         let va = PGROUNDDOWN va in
         bnd (ismapped pt va s) (\<lambda>m s.
           if m then Done 0 s
           else bnd (kalloc s) (\<lambda>p s.
             if p = 0 then Done 0 s
             else
               let s = s\<lparr>memory := memset (memory s) p 0 (unat PGSIZE)\<rparr> in
               bnd (mappages (pagetable (procs s me)) va PGSIZE p (PTE_W OR PTE_U OR PTE_R) s) (\<lambda>r s.
                 if r \<noteq> 0 then bnd (kfree p s) (\<lambda>_ s. Done 0 s)
                 else Done p s))))"

text \<open>The bytes of one page that a copy from \<open>va\<close> of \<open>n\<close> bytes covers.\<close>

definition page_part :: "u64 \<Rightarrow> nat \<Rightarrow> nat" where
  "page_part va n = min (unat (PGSIZE - (va - PGROUNDDOWN va))) n"

lemma page_part_pos: "0 < n \<Longrightarrow> 0 < page_part va n"
proof -
  assume "0 < n"
  have "va - PGROUNDDOWN va = va AND mask 12"
  proof -
    have "va = (va AND NOT (mask 12)) OR (va AND mask 12)" by (rule bit_word_eqI) (auto simp: bit_simps)
    also have "\<dots> = (va AND NOT (mask 12)) + (va AND mask 12)"
      by (rule disjunctive_add [symmetric]) (auto simp: bit_simps)
    finally show ?thesis by (simp add: PGROUNDDOWN_def PGSIZE_minus_1 algebra_simps)
  qed
  moreover have "unat (va AND mask 12) < 4096"
    unfolding take_bit_eq_mask [symmetric] take_bit_eq_mod by (simp add: unat_mod)
  ultimately have "PGSIZE - (va - PGROUNDDOWN va) \<noteq> 0" by (auto simp: PGSIZE_def)
  then show ?thesis using \<open>0 < n\<close> by (simp add: page_part_def unat_gt_0)
qed

text \<open>The address a page has for a copy: the mapped frame, or a lazily allocated one, or 0.\<close>

definition user_frame :: "u64 \<Rightarrow> u64 \<Rightarrow> 'a kstate_scheme \<Rightarrow> (u64, 'a kstate_scheme) outcome" where
  "user_frame pt va0 s =
     bnd (walkaddr pt va0 s) (\<lambda>pa0 s. if pa0 = 0 then vmfault pt va0 s else Done pa0 s)"

function copyout :: "u64 \<Rightarrow> u64 \<Rightarrow> u8 list \<Rightarrow> 'a kstate_scheme \<Rightarrow> (i32, 'a kstate_scheme) outcome" where
  "copyout pt dstva src s =
     (if src = [] then Done 0 s
      else
        let va0 = PGROUNDDOWN dstva in
        if va0 \<ge> MAXVA then Done (- 1) s
        else bnd (user_frame pt va0 s) (\<lambda>pa0 s.
          if pa0 = 0 then Done (- 1) s
          else bnd (walk pt va0 False s) (\<lambda>pte s.
            if pte = 0 then Panic ''kerneltrap''
            else if ld64 (memory s) pte AND PTE_W = 0 then Done (- 1) s
            else
              let n = page_part dstva (length src);
                  s = s\<lparr>memory := wr_bytes (memory s) (pa0 + (dstva - va0)) (take n src)\<rparr>
              in copyout pt (va0 + PGSIZE) (drop n src) s)))"
  by pat_completeness auto

termination copyout
  by (relation "measure (\<lambda>(pt, dstva, src, s). length src)") (auto simp: page_part_pos)

declare copyout.simps [simp del]

function copyin :: "u64 \<Rightarrow> u64 \<Rightarrow> nat \<Rightarrow> 'a kstate_scheme \<Rightarrow> (u8 list \<times> i32, 'a kstate_scheme) outcome" where
  "copyin pt srcva n s =
     (if n = 0 then Done ([], 0) s
      else
        let va0 = PGROUNDDOWN srcva in
        bnd (user_frame pt va0 s) (\<lambda>pa0 s.
          if pa0 = 0 then Done ([], - 1) s
          else
            let k = page_part srcva n;
                bs = rd_bytes (memory s) (pa0 + (srcva - va0)) k
            in bnd (copyin pt (va0 + PGSIZE) (n - k) s) (\<lambda>(rest, r) s. Done (bs @ rest, r) s)))"
  by pat_completeness auto

termination copyin
  by (relation "measure (\<lambda>(pt, srcva, n, s). n)") (auto simp: page_part_pos)

declare copyin.simps [simp del]

text \<open>\<^verbatim>\<open>copyinstr\<close> takes a page at a time up to the first zero byte, which it stores as well.\<close>

function copyinstr :: "u64 \<Rightarrow> u64 \<Rightarrow> nat \<Rightarrow> 'a kstate_scheme \<Rightarrow> (u8 list \<times> i32, 'a kstate_scheme) outcome" where
  "copyinstr pt srcva n s =
     (if n = 0 then Done ([], - 1) s
      else
        let va0 = PGROUNDDOWN srcva in
        bnd (walkaddr pt va0 s) (\<lambda>pa0 s.
          if pa0 = 0 then Done ([], - 1) s
          else
            let k = page_part srcva n;
                bs = takeWhile (\<lambda>c. c \<noteq> 0) (rd_bytes (memory s) (pa0 + (srcva - va0)) k)
            in if length bs < k then Done (bs @ [0], 0) s
               else bnd (copyinstr pt (va0 + PGSIZE) (n - k) s) (\<lambda>(rest, r) s. Done (bs @ rest, r) s)))"
  by pat_completeness auto

termination copyinstr
  by (relation "measure (\<lambda>(pt, srcva, n, s). n)") (auto simp: page_part_pos)

declare copyinstr.simps [simp del]

end
