(* ===== verification/Vm_Tree.thy ===== *)
theory Vm_Tree
  imports Vm
begin

text \<open>
  Correctness of the page-table operations. \<open>tbl\<close> lists the pages of a table as a tree,
  \<open>leaf\<close> is the address of the entry that translates an address and \<open>entry\<close> its contents;
  \<open>tree_ok\<close> says that the pages of the table are distinct, in range and not free. Under it,
  \<^verbatim>\<open>walk\<close> only adds empty tables and \<^verbatim>\<open>mappages\<close> sets exactly the entries it is asked to set.
\<close>

section \<open>Page tables as trees\<close>

primrec tbl :: "nat \<Rightarrow> mem \<Rightarrow> u64 \<Rightarrow> u64 list" where
  "tbl 0 m pt = [pt]"
| "tbl (Suc l) m pt = pt # concat (map (\<lambda>i.
     let e = ld64 m (pte_addr pt (word_of_nat i)) in
     if e AND PTE_V \<noteq> 0 then tbl l m (PTE2PA e) else []) [0..<512])"

primrec leaf :: "nat \<Rightarrow> mem \<Rightarrow> u64 \<Rightarrow> u64 \<Rightarrow> u64 option" where
  "leaf 0 m pt va = Some (pte_addr pt (PX 0 va))"
| "leaf (Suc l) m pt va =
     (let e = ld64 m (pte_addr pt (PX (Suc l) va)) in
      if e AND PTE_V \<noteq> 0 then leaf l m (PTE2PA e) va else None)"

definition entry :: "nat \<Rightarrow> mem \<Rightarrow> u64 \<Rightarrow> u64 \<Rightarrow> u64" where
  "entry l m pt va = (case leaf l m pt va of None \<Rightarrow> 0 | Some a \<Rightarrow> ld64 m a)"

definition tree_ok :: "u64 \<Rightarrow> u64 list \<Rightarrow> nat \<Rightarrow> mem \<Rightarrow> u64 \<Rightarrow> bool" where
  "tree_ok e ps l m pt \<longleftrightarrow>
     0 < e \<and> distinct (tbl l m pt) \<and> set (tbl l m pt) \<inter> set ps = {} \<and> (\<forall>p\<in>set (tbl l m pt). page_ok e p)"

definition in_page :: "u64 \<Rightarrow> u64 \<Rightarrow> bool" where
  "in_page p x \<longleftrightarrow> unat (x - p) < 4096"

definition in_pages :: "u64 set \<Rightarrow> u64 \<Rightarrow> bool" where
  "in_pages P x \<longleftrightarrow> (\<exists>p\<in>P. in_page p x)"

text \<open>The child table of an entry, as a list of pages.\<close>

definition child :: "nat \<Rightarrow> mem \<Rightarrow> u64 \<Rightarrow> nat \<Rightarrow> u64 list" where
  "child l m pt i =
     (let e = ld64 m (pte_addr pt (word_of_nat i)) in
      if e AND PTE_V \<noteq> 0 then tbl l m (PTE2PA e) else [])"

lemma tbl_Suc: "tbl (Suc l) m pt = pt # concat (map (child l m pt) [0..<512])"
  by (simp add: child_def cong: map_cong)

lemma root_in_tbl [simp]: "pt \<in> set (tbl l m pt)"
  by (cases l) auto

lemma concat_map_split:
  assumes "i < n" and "\<forall>j<n. j \<noteq> i \<longrightarrow> g' j = g j"
  shows "concat (map g' [0..<n]) = concat (map g [0..<i]) @ g' i @ concat (map g [Suc i..<n])"
proof -
  have "[0..<n] = [0..<i] @ i # [Suc i..<n]"
    using assms(1) upt_add_eq_append [of 0 i "n - i"] upt_conv_Cons [of i n] by simp
  moreover have "map g' [0..<i] = map g [0..<i]" "map g' [Suc i..<n] = map g [Suc i..<n]"
    using assms by auto
  ultimately show ?thesis by (simp only: map_append concat_append list.map concat.simps)
qed

lemma tbl_split:
  assumes "i < 512"
  shows "tbl (Suc l) m pt = pt # concat (map (child l m pt) [0..<i]) @ child l m pt i
      @ concat (map (child l m pt) [Suc i..<512])"
  unfolding tbl_Suc using concat_map_split [OF assms, of "child l m pt" "child l m pt"] by simp

lemma entry_0: "entry 0 m pt va = ld64 m (pte_addr pt (PX 0 va))"
  by (simp add: entry_def)

lemma entry_Suc:
  "entry (Suc l) m pt va =
     (let e = ld64 m (pte_addr pt (PX (Suc l) va)) in
      if e AND PTE_V \<noteq> 0 then entry l m (PTE2PA e) va else 0)"
  by (simp add: entry_def Let_def)

lemma PX_less: "unat (PX l va) < 512"
proof -
  have "PX l va = take_bit 9 (drop_bit (PXSHIFT l) va)"
    by (simp add: PX_def take_bit_eq_mask mask_eq_exp_minus_1)
  then show ?thesis by (simp add: take_bit_eq_mod unat_mod)
qed

lemma PX_index: "word_of_nat (unat (PX l va)) = PX l va"
  by simp

lemma pte_in_page:
  assumes "unat i < 512" and "unat (x - pte_addr pt i) < 8"
  shows "in_page pt x"
proof -
  have "x - pt = 8 * i + (x - pte_addr pt i)" by (simp add: pte_addr_def)
  moreover have "unat (8 * i + (x - pte_addr pt i)) = 8 * unat i + unat (x - pte_addr pt i)"
    using assms by (simp add: unat_word_ariths)
  ultimately have "unat (x - pt) = 8 * unat i + unat (x - pte_addr pt i)" by (simp only:)
  then show ?thesis using assms by (simp add: in_page_def)
qed

lemma pte_addr_inj:
  assumes "unat i < 512" "unat j < 512" "pte_addr pt i = pte_addr pt j"
  shows "i = j"
proof -
  have "8 * i = 8 * j" using assms(3) by (simp add: pte_addr_def)
  then have "unat (8 * i) = unat (8 * j)" by simp
  then have "8 * unat i = 8 * unat j" using assms(1,2) by (simp add: unat_word_ariths)
  then show ?thesis by (simp add: word_unat_eq_iff)
qed

lemma in_page_disjoint:
  "aligned p \<Longrightarrow> aligned q \<Longrightarrow> p \<noteq> q \<Longrightarrow> in_page p x \<Longrightarrow> \<not> in_page q x"
  using in_other_page [of q p x] by (auto simp: in_page_def)

lemma in_pages_other:
  assumes "in_page p x" and "aligned p" and "\<And>q. q \<in> Q \<Longrightarrow> aligned q" and "p \<notin> Q"
  shows "\<not> in_pages Q x"
  using assms in_page_disjoint unfolding in_pages_def by metis

lemma ld64_pte_cong:
  assumes "unat i < 512" and "\<And>x. in_page pt x \<Longrightarrow> m' x = m x"
  shows "ld64 m' (pte_addr pt i) = ld64 m (pte_addr pt i)"
  using assms pte_in_page by (intro ld64_outside) blast

lemma word_index [simp]: "i < 512 \<Longrightarrow> unat (word_of_nat i :: u64) = i"
  by (simp add: unat_of_nat)

section \<open>Frame\<close>

lemma tbl_child_subset:
  "i < 512 \<Longrightarrow> set (child l m pt i) \<subseteq> set (tbl (Suc l) m pt)"
  unfolding tbl_Suc by auto

lemma tree_frame:
  assumes "\<And>x. in_pages (set (tbl l m pt)) x \<Longrightarrow> m' x = m x"
  shows "tbl l m' pt = tbl l m pt" and "leaf l m' pt va = leaf l m pt va"
    and "entry l m' pt va = entry l m pt va"
proof -
  have "tbl l m' pt = tbl l m pt \<and> leaf l m' pt va = leaf l m pt va \<and> entry l m' pt va = entry l m pt va"
    using assms
  proof (induction l arbitrary: pt)
    case 0
    have "ld64 m' (pte_addr pt (PX 0 va)) = ld64 m (pte_addr pt (PX 0 va))"
      using 0 PX_less by (intro ld64_pte_cong) (auto simp: in_pages_def)
    then show ?case by (simp add: entry_def)
  next
    case (Suc l)
    have ld: "ld64 m' (pte_addr pt i) = ld64 m (pte_addr pt i)" if "unat i < 512" for i
      using that Suc.prems by (intro ld64_pte_cong) (auto simp: in_pages_def)
    have sub: "tbl l m' c = tbl l m c \<and> leaf l m' c va = leaf l m c va \<and> entry l m' c va = entry l m c va"
      if "i < 512" "ld64 m (pte_addr pt (word_of_nat i)) AND PTE_V \<noteq> 0"
        "c = PTE2PA (ld64 m (pte_addr pt (word_of_nat i)))" for i c
    proof (rule Suc.IH)
      fix x assume "in_pages (set (tbl l m c)) x"
      moreover have "set (tbl l m c) \<subseteq> set (tbl (Suc l) m pt)"
        using tbl_child_subset [of i l m pt] that by (simp add: child_def)
      ultimately show "m' x = m x" using Suc.prems unfolding in_pages_def by blast
    qed
    have "child l m' pt i = child l m pt i" if "i < 512" for i
      using ld [of "word_of_nat i"] sub [OF that] that by (simp add: child_def Let_def)
    then have "map (child l m' pt) [0..<512] = map (child l m pt) [0..<512]" by simp
    then have "tbl (Suc l) m' pt = tbl (Suc l) m pt" unfolding tbl_Suc by (simp only:)
    moreover have "leaf (Suc l) m' pt va = leaf (Suc l) m pt va \<and> entry (Suc l) m' pt va = entry (Suc l) m pt va"
      using sub [of "unat (PX (Suc l) va)"] ld [of "PX (Suc l) va"] PX_less [of "Suc l" va]
      by (simp add: entry_Suc Let_def)
    ultimately show ?case by simp
  qed
  then show "tbl l m' pt = tbl l m pt" and "leaf l m' pt va = leaf l m pt va"
    and "entry l m' pt va = entry l m pt va" by auto
qed

section \<open>Walking\<close>

lemma leaf_in_tree:
  "leaf l m pt va = Some a \<Longrightarrow> \<exists>q\<in>set (tbl l m pt). \<exists>i. unat i < 512 \<and> a = pte_addr q i"
proof (induction l arbitrary: pt)
  case 0
  then show ?case using PX_less by auto
next
  case (Suc l)
  let ?e = "ld64 m (pte_addr pt (PX (Suc l) va))"
  have v: "?e AND PTE_V \<noteq> 0" and "leaf l m (PTE2PA ?e) va = Some a"
    using Suc.prems by (auto simp: Let_def split: if_splits)
  then obtain q i where "q \<in> set (tbl l m (PTE2PA ?e))" "unat i < 512" "a = pte_addr q i"
    using Suc.IH by blast
  moreover have "set (tbl l m (PTE2PA ?e)) \<subseteq> set (tbl (Suc l) m pt)"
    using tbl_child_subset [OF PX_less [of "Suc l" va], of l m pt] v by (simp add: child_def del: tbl.simps)
  ultimately show ?case by blast
qed

lemma walk_from_noalloc:
  "walk_from l pt va False s = Done (case leaf l (memory s) pt va of None \<Rightarrow> 0 | Some a \<Rightarrow> a) s"
  by (induction l arbitrary: pt) (simp_all add: Let_def)

lemma pte_addr_nonzero:
  assumes "page_ok e q" and "0 < e" and "unat i < 512"
  shows "pte_addr q i \<noteq> 0"
proof -
  have "q \<noteq> 0" "aligned q" using assms page_ok_nonzero by (auto simp: page_ok_def)
  then have "0 < unat q" "4096 dvd unat q" by (auto simp: unat_gt_0 aligned_dvd)
  then have le: "4096 \<le> unat q" by (auto dest: dvd_imp_le)
  have "unat (q + 8 * i) = unat q + 8 * unat i"
    using assms(3) aligned_le [OF \<open>aligned q\<close>] by (simp add: unat_word_ariths)
  then have "unat (pte_addr q i) \<noteq> 0" using le by (simp add: pte_addr_def)
  then show ?thesis by (metis unat_0)
qed

lemma leaf_nonzero:
  assumes "tree_ok e ps l m pt" and "leaf l m pt va = Some a"
  shows "a \<noteq> 0"
proof -
  obtain q i where "q \<in> set (tbl l m pt)" "unat i < 512" "a = pte_addr q i"
    using leaf_in_tree [OF assms(2)] by blast
  moreover have "0 < e" "page_ok e q" using assms(1) calculation(1) by (auto simp: tree_ok_def)
  ultimately show ?thesis using pte_addr_nonzero by metis
qed

lemma PTE_FLAGS_take: "PTE_FLAGS x = take_bit 10 x"
  by (simp add: PTE_FLAGS_def take_bit_eq_mask mask_eq_exp_minus_1)

lemma pte_pack_flags:
  assumes "page_ok e p" and "f AND NOT (mask 10) = 0"
  shows "PTE2PA (PA2PTE p OR f) = p" and "PTE_FLAGS (PA2PTE p OR f) = f"
proof -
  have "unat p < 2 ^ 56" using assms(1) by (simp add: page_ok_def word_less_nat_alt PHYSTOP_unat)
  then have "unat (p mod 2 ^ 56) = unat p" by (simp add: unat_mod)
  then have "take_bit 56 p = p" by (simp add: take_bit_eq_mod word_unat_eq_iff)
  then have hi: "n < 56" if "bit p n" for n using that by (metis bit_take_bit_iff)
  have "take_bit 12 p = 0" using assms(1) by (simp add: page_ok_def aligned_def PGSIZE_def take_bit_eq_mod)
  then have lo: "12 \<le> n" if "bit p n" for n using that by (metis bit_0_eq bit_take_bit_iff bot_apply bot_bool_def not_le)
  have f: "n < 10" if "bit f n" for n
  proof (rule ccontr)
    assume "\<not> n < 10"
    with that have "bit (f AND NOT (mask 10)) n"
      using bit_imp_le_length [OF that] by (simp add: bit_simps)
    with assms(2) show False by simp
  qed
  show "PTE2PA (PA2PTE p OR f) = p"
  proof (rule bit_word_eqI)
    fix n assume n: "n < LENGTH(64)"
    show "bit (PTE2PA (PA2PTE p OR f)) n = bit p n"
    proof (cases "12 \<le> n")
      case True
      then obtain k where k: "n = 12 + k" using le_Suc_ex by blast
      have "\<not> bit f (10 + k)" using f [of "10 + k"] by auto
      with k n hi [of n] show ?thesis
        by (auto simp: PTE2PA_def PA2PTE_def bit_push_bit_iff bit_drop_bit_eq bit_or_iff)
    next
      case False
      then show ?thesis using lo [of n] unfolding PTE2PA_def bit_push_bit_iff by blast
    qed
  qed
  show "PTE_FLAGS (PA2PTE p OR f) = f"
  proof (rule bit_word_eqI)
    fix n assume n: "n < LENGTH(64)"
    show "bit (PTE_FLAGS (PA2PTE p OR f)) n = bit f n"
      unfolding PTE_FLAGS_take PA2PTE_def bit_take_bit_iff bit_or_iff bit_push_bit_iff
      using f [of n] by auto
  qed
qed

lemma pte_pack:
  assumes "page_ok e p"
  shows "PTE2PA (PA2PTE p OR PTE_V) = p"
proof -
  have "PTE_V AND NOT (mask 10) = 0" by (simp add: PTE_V_def mask_eq_exp_minus_1)
  with assms show ?thesis by (rule pte_pack_flags)
qed

lemma or_PTE_V: "(x OR PTE_V) AND PTE_V \<noteq> 0"
proof -
  have "bit ((x OR PTE_V) AND PTE_V) 0" by (simp add: PTE_V_def bit_simps)
  then show ?thesis by auto
qed

section \<open>Growing a table\<close>

text \<open>\<open>s'\<close> is \<open>s\<close> after empty tables, taken from the free pages, were added to the tree at \<open>pt\<close>.\<close>

definition grown :: "'a kmem_scheme \<Rightarrow> u64 list \<Rightarrow> nat \<Rightarrow> u64 \<Rightarrow> 'a kmem_scheme \<Rightarrow> u64 list \<Rightarrow> bool" where
  "grown s ps l pt s' ps' \<longleftrightarrow>
     (\<exists>m f. s' = s\<lparr>memory := m, freelist := f\<rparr>)
     \<and> (\<exists>new. ps = new @ ps' \<and> set (tbl l (memory s') pt) = set (tbl l (memory s) pt) \<union> set new)
     \<and> free_pages s' ps' \<and> tree_ok (kend s) ps' l (memory s') pt
     \<and> (\<forall>x. \<not> in_pages (set (tbl l (memory s') pt)) x \<longrightarrow> memory s' x = memory s x)
     \<and> (\<forall>va. entry l (memory s') pt va = entry l (memory s) pt va)"

lemma grown_refl:
  "free_pages s ps \<Longrightarrow> tree_ok (kend s) ps l (memory s) pt \<Longrightarrow> grown s ps l pt s ps"
  unfolding grown_def
  by (intro conjI exI [of _ "memory s"] exI [of _ "freelist s"] exI [of _ "[]"]) simp_all

lemma grown_kend: "grown s ps l pt s' ps' \<Longrightarrow> kend s' = kend s"
  by (auto simp: grown_def)

lemma grown_trans:
  assumes "grown s ps l pt s1 ps1" and "grown s1 ps1 l pt s2 ps2"
  shows "grown s ps l pt s2 ps2"
proof -
  have k: "kend s1 = kend s" using grown_kend [OF assms(1)] .
  obtain m1 f1 m2 f2 where "s1 = s\<lparr>memory := m1, freelist := f1\<rparr>" "s2 = s1\<lparr>memory := m2, freelist := f2\<rparr>"
    using assms unfolding grown_def by blast
  then have "s2 = s\<lparr>memory := m2, freelist := f2\<rparr>" by simp
  moreover obtain n1 n2 where n: "ps = n1 @ ps1" "ps1 = n2 @ ps2"
    "set (tbl l (memory s1) pt) = set (tbl l (memory s) pt) \<union> set n1"
    "set (tbl l (memory s2) pt) = set (tbl l (memory s1) pt) \<union> set n2"
    using assms unfolding grown_def by blast
  then have "ps = (n1 @ n2) @ ps2 \<and> set (tbl l (memory s2) pt) = set (tbl l (memory s) pt) \<union> set (n1 @ n2)"
    by auto
  moreover have "memory s2 x = memory s x" if "\<not> in_pages (set (tbl l (memory s2) pt)) x" for x
  proof -
    have "\<not> in_pages (set (tbl l (memory s1) pt)) x" using that n(4) unfolding in_pages_def by auto
    then have "memory s1 x = memory s x" using assms(1) unfolding grown_def by blast
    moreover have "memory s2 x = memory s1 x" using that assms(2) unfolding grown_def by blast
    ultimately show ?thesis by simp
  qed
  moreover have "free_pages s2 ps2" "tree_ok (kend s) ps2 l (memory s2) pt"
    using assms(2) unfolding grown_def k by blast+
  moreover have "entry l (memory s2) pt va = entry l (memory s) pt va" for va
    using assms unfolding grown_def by metis
  ultimately show ?thesis unfolding grown_def by blast
qed

lemma tree_ok_child:
  assumes "tree_ok e ps (Suc l) m pt" and "i < 512"
    and "ld64 m (pte_addr pt (word_of_nat i)) AND PTE_V \<noteq> 0"
  shows "tree_ok e ps l m (PTE2PA (ld64 m (pte_addr pt (word_of_nat i))))"
    and "pt \<notin> set (tbl l m (PTE2PA (ld64 m (pte_addr pt (word_of_nat i)))))"
proof -
  let ?c = "PTE2PA (ld64 m (pte_addr pt (word_of_nat i)))"
  have c: "child l m pt i = tbl l m ?c" using assms(3) by (simp add: child_def)
  have t: "tbl (Suc l) m pt = pt # concat (map (child l m pt) [0..<i]) @ tbl l m ?c
      @ concat (map (child l m pt) [Suc i..<512])"
    using tbl_split [OF assms(2), of l m pt] unfolding c .
  have "distinct (tbl (Suc l) m pt)" "0 < e" "set (tbl (Suc l) m pt) \<inter> set ps = {}"
    "\<forall>p\<in>set (tbl (Suc l) m pt). page_ok e p"
    using assms(1) unfolding tree_ok_def by blast+
  note this [unfolded t]
  then show "tree_ok e ps l m ?c" "pt \<notin> set (tbl l m ?c)" by (auto simp: tree_ok_def)
qed

lemma children_disjoint:
  assumes "tree_ok e ps (Suc l) m pt" and "i < 512" "j < 512" "i \<noteq> j"
  shows "set (child l m pt i) \<inter> set (child l m pt j) = {}"
proof -
  have d: "distinct (concat (map (child l m pt) [0..<512]))"
    using assms(1) unfolding tree_ok_def tbl_Suc by simp
  have *: "set (child l m pt a) \<inter> set (child l m pt b) = {}" if ab: "a < b" "b < 512" for a b
  proof -
    have s: "concat (map (child l m pt) [0..<512]) = concat (map (child l m pt) [0..<b])
        @ child l m pt b @ concat (map (child l m pt) [Suc b..<512])"
      by (rule concat_map_split [OF ab(2)]) simp
    have "set (child l m pt a) \<subseteq> set (concat (map (child l m pt) [0..<b]))" using ab(1) by auto
    then show ?thesis using d unfolding s by auto
  qed
  show ?thesis using * [of i j] * [of j i] assms(2-4) by (cases "i < j") auto
qed

text \<open>A change inside one child, seen from its parent.\<close>

lemma sibling_frame:
  assumes "tree_ok e ps (Suc l) m pt" and "i < 512"
    and away: "\<And>q x. q \<in> set (tbl (Suc l) m pt) \<Longrightarrow> q \<notin> set (child l m pt i) \<Longrightarrow> in_page q x \<Longrightarrow> m' x = m x"
  shows "\<forall>j<512. j \<noteq> i \<longrightarrow> (\<forall>x. in_pages (set (child l m pt j)) x \<longrightarrow> m' x = m x)"
proof (intro allI impI)
  fix j x assume j: "j < 512" "j \<noteq> i" and "in_pages (set (child l m pt j)) x"
  then obtain q where q: "q \<in> set (child l m pt j)" "in_page q x" unfolding in_pages_def by blast
  have "q \<notin> set (child l m pt i)" using children_disjoint [OF assms(1,2) j(1)] j(2) q(1) by auto
  moreover have "q \<in> set (tbl (Suc l) m pt)" using tbl_child_subset [OF j(1)] q(1) by blast
  ultimately show "m' x = m x" using away q(2) by blast
qed

lemma parent_view:
  assumes ok: "tree_ok e ps (Suc l) m pt" and i: "i < 512"
    and v: "ld64 m' (pte_addr pt (word_of_nat i)) AND PTE_V \<noteq> 0"
    and own: "\<forall>j<512. j \<noteq> i \<longrightarrow>
      ld64 m' (pte_addr pt (word_of_nat j)) = ld64 m (pte_addr pt (word_of_nat j))"
    and sib: "\<forall>j<512. j \<noteq> i \<longrightarrow> (\<forall>x. in_pages (set (child l m pt j)) x \<longrightarrow> m' x = m x)"
    and c: "c = PTE2PA (ld64 m' (pte_addr pt (word_of_nat i)))"
  shows "tbl (Suc l) m' pt = pt # concat (map (child l m pt) [0..<i]) @ tbl l m' c
      @ concat (map (child l m pt) [Suc i..<512])"
    and "entry (Suc l) m' pt va =
      (if unat (PX (Suc l) va) = i then entry l m' c va else entry (Suc l) m pt va)"
proof -
  have fr: "tbl l m' (PTE2PA (ld64 m (pte_addr pt (word_of_nat j)))) = tbl l m (PTE2PA (ld64 m (pte_addr pt (word_of_nat j))))
      \<and> entry l m' (PTE2PA (ld64 m (pte_addr pt (word_of_nat j)))) va = entry l m (PTE2PA (ld64 m (pte_addr pt (word_of_nat j)))) va"
    if "j < 512" "j \<noteq> i" "ld64 m (pte_addr pt (word_of_nat j)) AND PTE_V \<noteq> 0" for j va
    using sib that by (intro conjI tree_frame) (auto simp: child_def)
  have "child l m' pt j = child l m pt j" if "j < 512" "j \<noteq> i" for j
    using fr [OF that] own that by (simp add: child_def Let_def)
  then have "\<forall>j<512. j \<noteq> i \<longrightarrow> child l m' pt j = child l m pt j" by blast
  from concat_map_split [OF i this]
  have "tbl (Suc l) m' pt = pt # concat (map (child l m pt) [0..<i]) @ child l m' pt i
      @ concat (map (child l m pt) [Suc i..<512])" unfolding tbl_Suc by (simp only:)
  moreover have "child l m' pt i = tbl l m' c" using v c by (simp add: child_def)
  ultimately show "tbl (Suc l) m' pt = pt # concat (map (child l m pt) [0..<i]) @ tbl l m' c
      @ concat (map (child l m pt) [Suc i..<512])" by (simp only:)
  show "entry (Suc l) m' pt va =
      (if unat (PX (Suc l) va) = i then entry l m' c va else entry (Suc l) m pt va)"
  proof (cases "unat (PX (Suc l) va) = i")
    case True
    then have "word_of_nat i = PX (Suc l) va" by auto
    with True v c show ?thesis by (simp add: entry_Suc Let_def)
  next
    case False
    then show ?thesis
      using fr [of "unat (PX (Suc l) va)" va] own [rule_format, of "unat (PX (Suc l) va)"] PX_less [of "Suc l" va]
      by (simp add: entry_Suc Let_def)
  qed
qed

lemma tree_aligned: "tree_ok e ps l m pt \<Longrightarrow> p \<in> set (tbl l m pt) \<Longrightarrow> aligned p"
  by (auto simp: tree_ok_def page_ok_def)

lemma grown_child:
  assumes ok: "tree_ok (kend s) ps (Suc l) (memory s) pt" and i: "i < 512"
    and v: "ld64 (memory s) (pte_addr pt (word_of_nat i)) AND PTE_V \<noteq> 0"
    and c: "c = PTE2PA (ld64 (memory s) (pte_addr pt (word_of_nat i)))"
    and g: "grown s ps l c s' ps'" and ps: "distinct ps"
  shows "grown s ps (Suc l) pt s' ps'"
    and "ld64 (memory s') (pte_addr pt (word_of_nat i)) = ld64 (memory s) (pte_addr pt (word_of_nat i))"
proof -
  let ?m = "memory s" and ?m' = "memory s'"
  obtain new where new: "ps = new @ ps'" "set (tbl l ?m' c) = set (tbl l ?m c) \<union> set new"
    using g unfolding grown_def by blast
  have cok: "tree_ok (kend s) ps l ?m c" "pt \<notin> set (tbl l ?m c)"
    using tree_ok_child [OF ok i v] c by simp_all
  have cok': "tree_ok (kend s) ps' l ?m' c" and out: "\<And>x. \<not> in_pages (set (tbl l ?m' c)) x \<Longrightarrow> ?m' x = ?m x"
    and en: "\<And>va. entry l ?m' c va = entry l ?m c va" using g unfolding grown_def by blast+
  have cd: "child l ?m pt i = tbl l ?m c" using v c by (simp add: child_def)
  have away: "?m' x = ?m x" if q: "q \<in> set (tbl (Suc l) ?m pt)" "q \<notin> set (tbl l ?m c)" and x: "in_page q x" for q x
  proof (rule out, rule in_pages_other [OF x])
    show "aligned q" using tree_aligned [OF ok] q(1) .
    show "\<And>r. r \<in> set (tbl l ?m' c) \<Longrightarrow> aligned r" using tree_aligned [OF cok'] .
    have "q \<notin> set ps" using ok q(1) unfolding tree_ok_def by blast
    then show "q \<notin> set (tbl l ?m' c)" using q new by simp
  qed
  have own: "ld64 ?m' (pte_addr pt (word_of_nat j)) = ld64 ?m (pte_addr pt (word_of_nat j))" if "j < 512" for j
    using that away [of pt] cok(2) by (intro ld64_pte_cong) simp_all
  have sib: "\<forall>j<512. j \<noteq> i \<longrightarrow> (\<forall>x. in_pages (set (child l ?m pt j)) x \<longrightarrow> ?m' x = ?m x)"
    using away cd by (intro sibling_frame [OF ok i]) simp
  have v': "ld64 ?m' (pte_addr pt (word_of_nat i)) AND PTE_V \<noteq> 0"
    and c': "c = PTE2PA (ld64 ?m' (pte_addr pt (word_of_nat i)))" using own [OF i] v c by simp_all
  have "\<forall>j<512. j \<noteq> i \<longrightarrow> ld64 ?m' (pte_addr pt (word_of_nat j)) = ld64 ?m (pte_addr pt (word_of_nat j))"
    using own by blast
  note pv = parent_view [OF ok i v' this sib c']
  have t0: "tbl (Suc l) ?m pt = pt # concat (map (child l ?m pt) [0..<i]) @ tbl l ?m c
      @ concat (map (child l ?m pt) [Suc i..<512])"
    using tbl_split [OF i, of l ?m pt] unfolding cd .
  have st: "set (tbl (Suc l) ?m' pt) = set (tbl (Suc l) ?m pt) \<union> set new"
    unfolding pv(1) t0 using new(2) by auto
  show "ld64 ?m' (pte_addr pt (word_of_nat i)) = ld64 ?m (pte_addr pt (word_of_nat i))" using own [OF i] .
  have dj: "set new \<inter> set (tbl (Suc l) ?m pt) = {}" "set new \<inter> set ps' = {}"
    using ok ps new(1) unfolding tree_ok_def by auto
  have "distinct (tbl (Suc l) ?m pt)" "distinct (tbl l ?m' c)"
    using ok cok' unfolding tree_ok_def by blast+
  then have d: "distinct (tbl (Suc l) ?m' pt)"
    using dj(1) new(2) unfolding pv(1) t0 by auto
  have "set (tbl (Suc l) ?m' pt) \<inter> set ps' = {}" "\<forall>p\<in>set (tbl (Suc l) ?m' pt). page_ok (kend s) p" "0 < kend s"
    using ok cok' dj(2) new unfolding st tree_ok_def by auto
  with d have "tree_ok (kend s) ps' (Suc l) ?m' pt" unfolding tree_ok_def by blast
  moreover have "?m' x = ?m x" if "\<not> in_pages (set (tbl (Suc l) ?m' pt)) x" for x
    using that out [of x] unfolding pv(1) in_pages_def by auto
  moreover have "entry (Suc l) ?m' pt va = entry (Suc l) ?m pt va" for va
  proof (cases "unat (PX (Suc l) va) = i")
    case True
    then have "word_of_nat i = PX (Suc l) va" by auto
    then show ?thesis using pv(2) [of va] True en v c by (simp add: entry_Suc Let_def)
  qed (simp add: pv(2))
  ultimately show "grown s ps (Suc l) pt s' ps'"
    using g new(1) st unfolding grown_def by blast
qed

lemma free_pages_frame:
  assumes "free_pages s ps" and "\<And>q x. q \<in> set ps \<Longrightarrow> in_page q x \<Longrightarrow> m' x = memory s x"
  shows "free_pages (s\<lparr>memory := m'\<rparr>) ps"
proof -
  have "ld64 m' q = ld64 (memory s) q" if "q \<in> set ps" for q
    using assms(2) [OF that] by (intro ld64_outside) (auto simp: in_page_def)
  then show ?thesis using assms(1) chain_cong by (auto simp: free_pages_def)
qed

lemma ld64_zero:
  assumes "\<And>x. unat (x - a) < 8 \<Longrightarrow> m x = 0"
  shows "ld64 m a = 0"
proof -
  have z: "bytes_to_word (replicate n 0) = (0 :: u64)" for n by (induction n) simp_all
  have "m (a + word_of_nat i) = 0" if "i < 8" for i using that by (intro assms) (simp add: unat_of_nat)
  then have "rd_bytes m a 8 = replicate 8 0" by (intro nth_equalityI) (simp_all add: nth_rd_bytes)
  then show ?thesis unfolding ld64_def by (simp only: z)
qed

lemma zero_table:
  assumes "\<And>x. in_page p x \<Longrightarrow> m x = 0"
  shows "tbl l m p = [p]" and "entry l m p va = 0"
proof -
  have z: "ld64 m (pte_addr p i) = 0" if "unat i < 512" for i
    using that assms pte_in_page by (intro ld64_zero) blast
  show "tbl l m p = [p]" by (cases l) (simp_all add: z)
  show "entry l m p va = 0" using PX_less [of _ va] by (cases l) (simp_all add: z entry_0 entry_Suc Let_def)
qed

lemma pte_slots:
  assumes "unat i < 512" "unat j < 512" "i \<noteq> j" "unat (x - pte_addr pt i) < 8"
  shows "\<not> unat (x - pte_addr pt j) < 8"
proof
  assume "unat (x - pte_addr pt j) < 8"
  moreover have "8 * i + (x - pte_addr pt i) = 8 * j + (x - pte_addr pt j)" by (simp add: pte_addr_def)
  then have "unat (8 * i + (x - pte_addr pt i)) = unat (8 * j + (x - pte_addr pt j))" by (simp only:)
  ultimately have "8 * unat i + unat (x - pte_addr pt i) = 8 * unat j + unat (x - pte_addr pt j)"
    using assms(1,2,4) by (simp add: unat_word_ariths)
  then have "unat i = unat j" using assms(4) \<open>unat (x - pte_addr pt j) < 8\<close> by linarith
  then show False using assms(3) by (simp add: word_unat_eq_iff)
qed

lemma ld64_other_pte:
  assumes "unat i < 512" "unat j < 512" "i \<noteq> j"
  shows "ld64 (st64 m (pte_addr pt i) v) (pte_addr pt j) = ld64 m (pte_addr pt j)"
  using pte_slots [OF assms] by (intro ld64_outside st64_apply) blast

text \<open>Linking an empty table \<open>p\<close> into a free slot of the table \<open>pt\<close>.\<close>

lemma link_memory:
  assumes al: "aligned p" "aligned pt" "p \<noteq> pt" and i: "unat i < 512"
    and m0: "\<And>x. m0 x = (if unat (x - p) < 4096 then 5 else m x)"
    and m1: "m1 = st64 (memset m0 p 0 4096) (pte_addr pt i) v"
  shows "in_page p x \<Longrightarrow> m1 x = 0"
    and "in_page q x \<Longrightarrow> aligned q \<Longrightarrow> q \<noteq> p \<Longrightarrow> q \<noteq> pt \<Longrightarrow> m1 x = m x"
    and "unat j < 512 \<Longrightarrow> j \<noteq> i \<Longrightarrow> ld64 m1 (pte_addr pt j) = ld64 m (pte_addr pt j)"
    and "\<not> in_page p x \<Longrightarrow> \<not> in_page pt x \<Longrightarrow> m1 x = m x"
proof -
  have other: "m1 x = m x" if "\<not> in_page p x" "\<not> unat (x - pte_addr pt i) < 8" for x
    using that m0 unfolding m1 in_page_def by (simp add: st64_apply memset_apply)
  show "m1 x = 0" if "in_page p x"
  proof -
    have "\<not> in_page pt x" using in_page_disjoint [OF al that] .
    then have "\<not> unat (x - pte_addr pt i) < 8" using pte_in_page [OF i] by blast
    then show ?thesis using that unfolding m1 by (simp add: st64_apply memset_apply in_page_def)
  qed
  show "m1 x = m x" if "in_page q x" "aligned q" "q \<noteq> p" "q \<noteq> pt"
    using other [of x] pte_in_page [OF i, of x pt] in_page_disjoint [OF that(2) al(1) that(3) that(1)]
      in_page_disjoint [OF that(2) al(2) that(4) that(1)] by blast
  show "ld64 m1 (pte_addr pt j) = ld64 m (pte_addr pt j)" if j: "unat j < 512" "j \<noteq> i"
  proof (rule ld64_outside)
    fix x assume x: "unat (x - pte_addr pt j) < 8"
    then have "\<not> in_page p x" using in_page_disjoint [OF al(2,1)] al(3) pte_in_page [OF j(1)] by blast
    then show "m1 x = m x" using other pte_slots [OF j(1) i j(2) x] by blast
  qed
  show "m1 x = m x" if "\<not> in_page p x" "\<not> in_page pt x"
    using other [OF that(1)] that(2) pte_in_page [OF i, of x pt] by blast
qed

lemma grown_new:
  assumes ok: "tree_ok (kend s) (p # ps) (Suc l) (memory s) pt" and fp: "free_pages s (p # ps)"
    and i: "i < 512" and inv: "ld64 (memory s) (pte_addr pt (word_of_nat i)) AND PTE_V = 0"
    and fp0: "free_pages (s\<lparr>freelist := r, memory := m0\<rparr>) ps"
    and m0: "\<And>x. m0 x = (if unat (x - p) < 4096 then 5 else memory s x)"
    and m1: "m1 = st64 (memset m0 p 0 4096) (pte_addr pt (word_of_nat i)) (PA2PTE p OR PTE_V)"
  shows "grown s (p # ps) (Suc l) pt (s\<lparr>freelist := r, memory := m1\<rparr>) ps"
proof -
  let ?m = "memory s"
  have al: "aligned q" if "q \<in> set (tbl (Suc l) ?m pt) \<or> q \<in> set (p # ps)" for q
    using that ok fp unfolding tree_ok_def free_pages_def page_ok_def by blast
  have notin: "q \<notin> set (p # ps)" if "q \<in> set (tbl (Suc l) ?m pt)" for q
    using ok that unfolding tree_ok_def by blast
  have pp: "aligned p" "aligned pt" "p \<noteq> pt" "pt \<notin> set ps"
    using al notin [of pt] by auto
  have "unat (word_of_nat i :: u64) < 512" using i by simp
  note lm = link_memory [OF pp(1-3) this m0 m1]
  have v: "ld64 m1 (pte_addr pt (word_of_nat i)) AND PTE_V \<noteq> 0"
    unfolding m1 ld64_st64_same by (rule or_PTE_V)
  have pok: "page_ok (kend s) p" using fp by (simp add: free_pages_def)
  have c: "p = PTE2PA (ld64 m1 (pte_addr pt (word_of_nat i)))" by (simp add: m1 pte_pack [OF pok])
  have own: "\<forall>j<512. j \<noteq> i \<longrightarrow> ld64 m1 (pte_addr pt (word_of_nat j)) = ld64 ?m (pte_addr pt (word_of_nat j))"
    using i lm(3) word_index by metis
  have sib: "\<forall>j<512. j \<noteq> i \<longrightarrow> (\<forall>x. in_pages (set (child l ?m pt j)) x \<longrightarrow> m1 x = ?m x)"
  proof (intro allI impI)
    fix j x assume j: "j < 512" "j \<noteq> i" and "in_pages (set (child l ?m pt j)) x"
    then obtain q where q: "q \<in> set (child l ?m pt j)" "in_page q x" unfolding in_pages_def by blast
    then have "q \<in> set (tbl (Suc l) ?m pt)" using tbl_child_subset [OF j(1)] by blast
    moreover have "q \<noteq> pt" using ok q(1) j(1) unfolding tree_ok_def tbl_Suc by auto
    ultimately show "m1 x = ?m x" using lm(2) [OF q(2)] al notin [of q] by simp
  qed
  note pv = parent_view [OF ok i v own sib c]
  have zt: "tbl l m1 p = [p]" "entry l m1 p va = 0" for va using zero_table [of p m1] lm(1) by blast+
  have ci: "child l ?m pt i = []" using inv by (simp add: child_def)
  have st: "set (tbl (Suc l) m1 pt) = set (tbl (Suc l) ?m pt) \<union> {p}"
    unfolding pv(1) tbl_split [OF i, of l ?m pt] zt ci by auto
  have "distinct (tbl (Suc l) m1 pt)"
    using ok notin [of p] unfolding tree_ok_def pv(1) tbl_split [OF i, of l ?m pt] zt by auto
  moreover have "set (tbl (Suc l) m1 pt) \<inter> set ps = {}" "\<forall>q\<in>set (tbl (Suc l) m1 pt). page_ok (kend s) q" "0 < kend s"
    using ok fp unfolding st tree_ok_def free_pages_def by auto
  ultimately have t: "tree_ok (kend s) ps (Suc l) m1 pt" unfolding tree_ok_def by blast
  have "free_pages (s\<lparr>freelist := r, memory := m0\<rparr>\<lparr>memory := m1\<rparr>) ps"
  proof (rule free_pages_frame [OF fp0])
    fix q x assume q: "q \<in> set ps" "in_page q x"
    then have "q \<noteq> p" "q \<noteq> pt" "aligned q" using fp pp(4) al by (auto simp: free_pages_def)
    then show "m1 x = memory (s\<lparr>freelist := r, memory := m0\<rparr>) x"
      using lm(2) [OF q(2)] in_page_disjoint [OF _ pp(1) _ q(2)] m0 [of x] by (simp add: in_page_def)
  qed
  then have f: "free_pages (s\<lparr>freelist := r, memory := m1\<rparr>) ps" by simp
  have "entry (Suc l) m1 pt va = entry (Suc l) ?m pt va" for va
  proof (cases "unat (PX (Suc l) va) = i")
    case True
    then have "word_of_nat i = PX (Suc l) va" by auto
    then show ?thesis using pv(2) [of va] True zt inv by (simp add: entry_Suc Let_def)
  qed (simp add: pv(2))
  moreover have "m1 x = ?m x" if "\<not> in_pages (set (tbl (Suc l) m1 pt)) x" for x
    using that lm(4) [of x] unfolding st in_pages_def by (simp del: tbl.simps)
  ultimately show ?thesis
    unfolding grown_def using t f st
    by (intro conjI exI [of _ m1] exI [of _ r] exI [of _ "[p]"]) (simp_all del: tbl.simps)
qed

definition walk_grows :: "nat \<Rightarrow> u64 \<Rightarrow> u64 \<Rightarrow> 'a kmem_scheme \<Rightarrow> u64 list \<Rightarrow> bool" where
  "walk_grows l pt va s ps \<longleftrightarrow>
     (\<exists>r s' ps'. walk_from l pt va True s = Done r s' \<and> grown s ps l pt s' ps'
        \<and> (if r = 0 then ps' = [] else leaf l (memory s') pt va = Some r))"

lemma walk_grows_valid:
  assumes fp: "free_pages s ps" and ok: "tree_ok (kend s) ps (Suc l) (memory s) pt"
    and valid: "ld64 (memory s) (pte_addr pt (PX (Suc l) va)) AND PTE_V \<noteq> 0"
    and IH: "\<And>c. tree_ok (kend s) ps l (memory s) c \<Longrightarrow> walk_grows l c va s ps"
  shows "walk_grows (Suc l) pt va s ps"
proof -
  let ?c = "PTE2PA (ld64 (memory s) (pte_addr pt (PX (Suc l) va)))"
  note px = PX_less [of "Suc l" va]
  have v: "ld64 (memory s) (pte_addr pt (word_of_nat (unat (PX (Suc l) va)))) AND PTE_V \<noteq> 0"
    using valid by simp
  have "tree_ok (kend s) ps l (memory s) ?c" using tree_ok_child(1) [OF ok px v] by simp
  from IH [OF this] obtain r s' ps' where
    r: "walk_from l ?c va True s = Done r s'" "grown s ps l ?c s' ps'"
      "if r = 0 then ps' = [] else leaf l (memory s') ?c va = Some r" unfolding walk_grows_def by blast
  have "distinct ps" using fp by (simp add: free_pages_def)
  note gc = grown_child [OF ok px v _ r(2) this]
  have "grown s ps (Suc l) pt s' ps'" "ld64 (memory s') (pte_addr pt (PX (Suc l) va)) =
      ld64 (memory s) (pte_addr pt (PX (Suc l) va))" using gc by simp_all
  then show ?thesis unfolding walk_grows_def
    using r(1,3) valid by (intro exI [of _ r] exI [of _ s'] exI [of _ ps']) simp
qed

lemma walk_grows_new:
  assumes fp: "free_pages s (p # ps)" and ok: "tree_ok (kend s) (p # ps) (Suc l) (memory s) pt"
    and inv: "ld64 (memory s) (pte_addr pt (PX (Suc l) va)) AND PTE_V = 0"
  obtains s1 where "grown s (p # ps) (Suc l) pt s1 ps"
    and "walk_from (Suc l) pt va True s = walk_from (Suc l) pt va True s1"
    and "ld64 (memory s1) (pte_addr pt (PX (Suc l) va)) AND PTE_V \<noteq> 0"
proof -
  from kalloc_pops [OF fp] obtain m0 r where k: "kalloc s = Done p (s\<lparr>freelist := r, memory := m0\<rparr>)"
    "free_pages (s\<lparr>freelist := r, memory := m0\<rparr>) ps"
    "\<And>x. m0 x = (if unat (x - p) < 4096 then 5 else memory s x)" by metis
  define m1 where "m1 = st64 (memset m0 p 0 4096) (pte_addr pt (word_of_nat (unat (PX (Suc l) va)))) (PA2PTE p OR PTE_V)"
  let ?s1 = "s\<lparr>freelist := r, memory := m1\<rparr>"
  have pok: "page_ok (kend s) p" "p \<noteq> 0" using fp page_ok_nonzero by (auto simp: free_pages_def)
  have ld: "ld64 m1 (pte_addr pt (PX (Suc l) va)) = PA2PTE p OR PTE_V" by (simp add: m1_def)
  have v: "ld64 (memory ?s1) (pte_addr pt (PX (Suc l) va)) AND PTE_V \<noteq> 0"
    using or_PTE_V [of "PA2PTE p", folded ld] by simp
  have "walk_from (Suc l) pt va True s = walk_from l p va True ?s1"
    using k(1) inv pok(2) by (simp add: m1_def)
  also have "\<dots> = walk_from (Suc l) pt va True ?s1"
    using v ld pte_pack [OF pok(1)] by simp
  finally show ?thesis
    using that [of ?s1] v grown_new [OF ok fp PX_less _ k(2,3) m1_def] inv by simp
qed

lemma walk_alloc:
  "free_pages s ps \<Longrightarrow> tree_ok (kend s) ps l (memory s) pt \<Longrightarrow> walk_grows l pt va s ps"
proof (induction l arbitrary: pt s ps)
  case 0
  then show ?case using grown_refl [OF 0] leaf_nonzero [OF 0(2), of va] unfolding walk_grows_def
    by (intro exI [of _ "pte_addr pt (PX 0 va)"] exI [of _ s] exI [of _ ps]) simp
next
  case (Suc l)
  show ?case
  proof (cases "ld64 (memory s) (pte_addr pt (PX (Suc l) va)) AND PTE_V = 0")
    case False
    show ?thesis by (rule walk_grows_valid [OF Suc.prems False Suc.IH [OF Suc.prems(1)]])
  next
    case inv: True
    show ?thesis
    proof (cases ps)
      case Nil
      then show ?thesis using Suc.prems inv kalloc_empty [of s] grown_refl [OF Suc.prems] unfolding walk_grows_def
        by (intro exI [of _ 0] exI [of _ s] exI [of _ "[]"]) simp
    next
      case (Cons p qs)
      with Suc.prems inv obtain s1 where s1: "grown s (p # qs) (Suc l) pt s1 qs"
        "walk_from (Suc l) pt va True s = walk_from (Suc l) pt va True s1"
        "ld64 (memory s1) (pte_addr pt (PX (Suc l) va)) AND PTE_V \<noteq> 0"
        using walk_grows_new by metis
      then have f: "free_pages s1 qs" "tree_ok (kend s1) qs (Suc l) (memory s1) pt"
        using grown_kend [OF s1(1)] by (auto simp: grown_def)
      have "walk_grows (Suc l) pt va s1 qs"
        by (rule walk_grows_valid [OF f s1(3) Suc.IH [OF f(1)]])
      then show ?thesis using s1(2) grown_trans [OF s1(1)] unfolding walk_grows_def Cons by metis
    qed
  qed
qed

section \<open>Setting an entry\<close>

definition same_path :: "nat \<Rightarrow> u64 \<Rightarrow> u64 \<Rightarrow> bool" where
  "same_path l va va' \<longleftrightarrow> (\<forall>k\<le>l. PX k va = PX k va')"

lemma leaf_store_outside:
  assumes "leaf l m pt va = Some a" and "\<not> in_pages (set (tbl l m pt)) x"
  shows "st64 m a v x = m x"
proof -
  obtain q i where "q \<in> set (tbl l m pt)" "unat i < 512" "a = pte_addr q i"
    using leaf_in_tree [OF assms(1)] by blast
  then have "\<not> unat (x - a) < 8" using assms(2) pte_in_page unfolding in_pages_def by blast
  then show ?thesis by (rule st64_apply)
qed

lemma store_leaf:
  "tree_ok e ps l m pt \<Longrightarrow> leaf l m pt va = Some a \<Longrightarrow>
    tbl l (st64 m a v) pt = tbl l m pt
    \<and> (\<forall>va'. entry l (st64 m a v) pt va' = (if same_path l va va' then v else entry l m pt va'))"
proof (induction l arbitrary: pt)
  case 0
  then have a: "a = pte_addr pt (PX 0 va)" by simp
  have "entry 0 (st64 m a v) pt va' = (if same_path 0 va va' then v else entry 0 m pt va')" for va'
    using ld64_other_pte [of "PX 0 va" "PX 0 va'" m pt v] PX_less
    by (auto simp: entry_0 a same_path_def)
  then show ?case by simp
next
  case (Suc l)
  let ?m' = "st64 m a v" and ?i = "unat (PX (Suc l) va)"
  let ?c = "PTE2PA (ld64 m (pte_addr pt (word_of_nat ?i)))"
  note px = PX_less [of "Suc l" va]
  have v: "ld64 m (pte_addr pt (word_of_nat ?i)) AND PTE_V \<noteq> 0" and lf: "leaf l m ?c va = Some a"
    using Suc.prems(2) by (auto simp: Let_def split: if_splits)
  note cok = tree_ok_child [OF Suc.prems(1) px v]
  note IH = Suc.IH [OF cok(1) lf]
  have cd: "child l m pt ?i = tbl l m ?c" using v by (simp add: child_def)
  have away: "?m' x = m x" if q: "q \<in> set (tbl (Suc l) m pt)" "q \<notin> set (tbl l m ?c)" "in_page q x" for q x
    using q tree_aligned [OF Suc.prems(1)] tree_aligned [OF cok(1)]
    by (intro leaf_store_outside [OF lf] in_pages_other [OF q(3)])
  have own: "ld64 ?m' (pte_addr pt (word_of_nat j)) = ld64 m (pte_addr pt (word_of_nat j))" if "j < 512" for j
    using that away [of pt] cok(2) by (intro ld64_pte_cong) simp_all
  have sib: "\<forall>j<512. j \<noteq> ?i \<longrightarrow> (\<forall>x. in_pages (set (child l m pt j)) x \<longrightarrow> ?m' x = m x)"
    using away cd by (intro sibling_frame [OF Suc.prems(1) px]) simp
  have v': "ld64 ?m' (pte_addr pt (word_of_nat ?i)) AND PTE_V \<noteq> 0" using v own [OF px] by simp
  have "\<forall>j<512. j \<noteq> ?i \<longrightarrow> ld64 ?m' (pte_addr pt (word_of_nat j)) = ld64 m (pte_addr pt (word_of_nat j))"
    using own by blast
  note pv = parent_view [OF Suc.prems(1) px v' this sib refl]
  have "tbl (Suc l) ?m' pt = tbl (Suc l) m pt"
    using pv(1) own [OF px] v IH tbl_split [OF px, of l m pt] unfolding cd by (simp only:)
  moreover have "entry (Suc l) ?m' pt va' = (if same_path (Suc l) va va' then v else entry (Suc l) m pt va')" for va'
  proof (cases "PX (Suc l) va' = PX (Suc l) va")
    case True
    then show ?thesis using pv(2) [of va'] own [OF px] v IH
      by (auto simp: same_path_def le_Suc_eq entry_Suc Let_def)
  next
    case False
    then have "unat (PX (Suc l) va') \<noteq> ?i" by (simp add: word_unat_eq_iff)
    then show ?thesis using pv(2) [of va'] own [OF px] v False by (auto simp: same_path_def)
  qed
  ultimately show ?case by blast
qed

end
