(* ===== verification/Vm_Map.thy ===== *)
theory Vm_Map
  imports Vm_Tree
begin

text \<open>
  What the page-table operations mean for translations and for user memory: \<^verbatim>\<open>mappages\<close> installs
  exactly the requested translations, and \<^verbatim>\<open>copyin\<close> returns what \<^verbatim>\<open>copyout\<close> stored.
\<close>

section \<open>Mapping pages\<close>

text \<open>
  \<open>s'\<close> is \<open>s\<close> after operations on the page table at \<open>pt\<close> that took pages from the free ones for new
  tables; memory outside the tables is as before.
\<close>

definition remapped :: "'a kmem_scheme \<Rightarrow> u64 list \<Rightarrow> u64 \<Rightarrow> 'a kmem_scheme \<Rightarrow> u64 list \<Rightarrow> bool" where
  "remapped s ps pt s' ps' \<longleftrightarrow>
     (\<exists>m f. s' = s\<lparr>memory := m, freelist := f\<rparr>)
     \<and> (\<exists>new. ps = new @ ps' \<and> set (tbl 2 (memory s') pt) = set (tbl 2 (memory s) pt) \<union> set new)
     \<and> free_pages s' ps' \<and> tree_ok (kend s) ps' 2 (memory s') pt
     \<and> (\<forall>x. \<not> in_pages (set (tbl 2 (memory s') pt)) x \<longrightarrow> memory s' x = memory s x)"

lemma remapped_kend: "remapped s ps pt s' ps' \<Longrightarrow> kend s' = kend s"
  by (auto simp: remapped_def)

lemma remapped_trans:
  assumes "remapped s ps pt s1 ps1" and "remapped s1 ps1 pt s2 ps2"
  shows "remapped s ps pt s2 ps2"
proof -
  have k: "kend s1 = kend s" using remapped_kend [OF assms(1)] .
  obtain m1 f1 m2 f2 where "s1 = s\<lparr>memory := m1, freelist := f1\<rparr>" "s2 = s1\<lparr>memory := m2, freelist := f2\<rparr>"
    using assms unfolding remapped_def by blast
  then have "s2 = s\<lparr>memory := m2, freelist := f2\<rparr>" by simp
  moreover obtain n1 n2 where n: "ps = n1 @ ps1" "ps1 = n2 @ ps2"
    "set (tbl 2 (memory s1) pt) = set (tbl 2 (memory s) pt) \<union> set n1"
    "set (tbl 2 (memory s2) pt) = set (tbl 2 (memory s1) pt) \<union> set n2"
    using assms unfolding remapped_def by blast
  then have "ps = (n1 @ n2) @ ps2 \<and> set (tbl 2 (memory s2) pt) = set (tbl 2 (memory s) pt) \<union> set (n1 @ n2)"
    by auto
  moreover have "memory s2 x = memory s x" if "\<not> in_pages (set (tbl 2 (memory s2) pt)) x" for x
  proof -
    have "\<not> in_pages (set (tbl 2 (memory s1) pt)) x" using that n(4) unfolding in_pages_def by auto
    then have "memory s1 x = memory s x" using assms(1) unfolding remapped_def by blast
    moreover have "memory s2 x = memory s1 x" using that assms(2) unfolding remapped_def by blast
    ultimately show ?thesis by simp
  qed
  moreover have "free_pages s2 ps2" "tree_ok (kend s) ps2 2 (memory s2) pt"
    using assms(2) unfolding remapped_def k by blast+
  ultimately show ?thesis unfolding remapped_def by blast
qed

lemma grown_remapped: "grown s ps 2 pt s' ps' \<Longrightarrow> remapped s ps pt s' ps'"
  unfolding grown_def remapped_def by blast

lemma tree_not_free: "tree_ok e ps l m pt \<Longrightarrow> q \<in> set ps \<Longrightarrow> q \<notin> set (tbl l m pt)"
  by (auto simp: tree_ok_def)

lemma store_remapped:
  assumes fp: "free_pages s ps" and ok: "tree_ok (kend s) ps 2 (memory s) pt"
    and lf: "leaf 2 (memory s) pt va = Some a"
  shows "remapped s ps pt (s\<lparr>memory := st64 (memory s) a v\<rparr>) ps"
proof -
  have t: "tbl 2 (st64 (memory s) a v) pt = tbl 2 (memory s) pt" using store_leaf [OF ok lf] by blast
  have "free_pages (s\<lparr>memory := st64 (memory s) a v\<rparr>) ps"
  proof (rule free_pages_frame [OF fp], rule leaf_store_outside [OF lf])
    fix q x assume q: "q \<in> set ps" "in_page q x"
    then have "aligned q" using fp by (simp add: free_pages_def page_ok_def)
    then show "\<not> in_pages (set (tbl 2 (memory s) pt)) x"
      using in_pages_other [OF q(2)] tree_aligned [OF ok] tree_not_free [OF ok q(1)] by blast
  qed
  moreover have "\<exists>m f. s\<lparr>memory := st64 (memory s) a v\<rparr> = s\<lparr>memory := m, freelist := f\<rparr>"
    by (intro exI [of _ "st64 (memory s) a v"] exI [of _ "freelist s"]) simp
  ultimately show ?thesis
    unfolding remapped_def using ok leaf_store_outside [OF lf] t
    by (intro conjI exI [of _ "[]"]) (auto simp: tree_ok_def)
qed

text \<open>One iteration of the loop of \<^verbatim>\<open>mappages\<close>.\<close>

lemma map_one:
  assumes fp: "free_pages s ps" and ok: "tree_ok (kend s) ps 2 (memory s) pt" and a: "a < MAXVA"
  obtains s1 where "walk pt a True s = Done 0 s1" and "remapped s ps pt s1 []"
  | s1 r ps1 where "walk pt a True s = Done r s1" and "r \<noteq> 0" and "remapped s ps pt s1 ps1"
    and "leaf 2 (memory s1) pt a = Some r" and "\<And>va. entry 2 (memory s1) pt va = entry 2 (memory s) pt va"
proof -
  obtain r s1 ps1 where w: "walk_from 2 pt a True s = Done r s1" "grown s ps 2 pt s1 ps1"
    "if r = 0 then ps1 = [] else leaf 2 (memory s1) pt a = Some r"
    using walk_alloc [OF fp ok, of a] unfolding walk_grows_def by blast
  have "walk pt a True s = Done r s1" using w(1) a by (simp add: walk_def not_le)
  moreover have "entry 2 (memory s1) pt va = entry 2 (memory s) pt va" for va
    using w(2) unfolding grown_def by blast
  ultimately show ?thesis using that grown_remapped [OF w(2)] w(3) by (cases "r = 0") auto
qed

section \<open>Page numbers\<close>

lemma PX_unat: "unat (PX k x) = (unat x div 2 ^ (12 + 9 * k)) mod 512"
proof -
  have "PX k x = take_bit 9 (drop_bit (PXSHIFT k) x)"
    by (simp add: PX_def take_bit_eq_mask mask_eq_exp_minus_1)
  moreover have "take_bit 64 (unat x) = unat x" using unat_less_64 [of x] by (simp add: take_bit_nat_eq_self)
  ultimately have "unat (PX k x) = take_bit 9 (drop_bit (PXSHIFT k) (unat x))"
    by (simp add: unsigned_take_bit_eq unsigned_drop_bit_eq)
  then show ?thesis by (simp add: take_bit_eq_mod drop_bit_eq_div PXSHIFT_def)
qed

lemma digits_512:
  fixes n :: nat
  assumes "n < 2 ^ 27"
  shows "n = n mod 512 + 512 * ((n div 512) mod 512) + 512 * 512 * ((n div (512 * 512)) mod 512)"
proof -
  have "n = 512 * (n div 512) + n mod 512" by simp
  moreover have "n div 512 = 512 * (n div 512 div 512) + (n div 512) mod 512" by simp
  moreover have "(n div (512 * 512)) mod 512 = n div 512 div 512"
    unfolding div_mult2_eq using assms by simp
  ultimately show ?thesis by linarith
qed

lemma same_path_page:
  assumes "a < MAXVA" and "va < MAXVA"
  shows "same_path 2 a va \<longleftrightarrow> unat a div 4096 = unat va div 4096"
proof
  have lt: "unat x div 4096 < 2 ^ 27" if "x < MAXVA" for x
    using that by (simp add: word_less_nat_alt MAXVA_unat)
  have px: "unat (PX 0 x) = (unat x div 4096) mod 512" "unat (PX 1 x) = (unat x div 4096 div 512) mod 512"
    "unat (PX 2 x) = (unat x div 4096 div (512 * 512)) mod 512" for x
    by (simp_all add: PX_unat div_mult2_eq [symmetric])
  show "unat a div 4096 = unat va div 4096" if "same_path 2 a va"
  proof -
    have "PX 0 a = PX 0 va" "PX 1 a = PX 1 va" "PX 2 a = PX 2 va" using that by (auto simp: same_path_def)
    then have "(unat a div 4096) mod 512 = (unat va div 4096) mod 512"
      "(unat a div 4096 div 512) mod 512 = (unat va div 4096 div 512) mod 512"
      "(unat a div 4096 div (512 * 512)) mod 512 = (unat va div 4096 div (512 * 512)) mod 512"
      using px by metis+
    then show ?thesis using digits_512 [OF lt [OF assms(1)]] digits_512 [OF lt [OF assms(2)]] by metis
  qed
  show "same_path 2 a va" if e: "unat a div 4096 = unat va div 4096"
    unfolding same_path_def
  proof (intro allI impI)
    fix k :: nat assume "k \<le> 2"
    then have "k = 0 \<or> k = 1 \<or> k = 2" by auto
    then have "unat (PX k a) = unat (PX k va)" by (elim disjE) (simp_all only: px e)
    then show "PX k a = PX k va" by (simp add: word_unat_eq_iff)
  qed
qed

section \<open>The loop of mappages\<close>

definition vpn :: "u64 \<Rightarrow> nat" where
  "vpn va = unat va div 4096"

text \<open>The entries after the \<open>n\<close> pages from \<open>a\<close> on were mapped to the frames from \<open>pa\<close> on.\<close>

definition map_result :: "u64 \<Rightarrow> nat \<Rightarrow> u64 \<Rightarrow> u64 \<Rightarrow> (u64 \<Rightarrow> u64) \<Rightarrow> u64 \<Rightarrow> u64" where
  "map_result a n pa perm old va =
     (if vpn a \<le> vpn va \<and> vpn va < vpn a + n
      then PA2PTE (pa + 4096 * word_of_nat (vpn va - vpn a)) OR perm OR PTE_V else old va)"

lemma next_page:
  assumes "aligned a" and "unat a + 4096 * Suc n \<le> 2 ^ 38"
  shows "aligned (a + 4096)" and "unat (a + 4096) = unat a + 4096" and "a < MAXVA"
    and "vpn (a + 4096) = Suc (vpn a)"
proof -
  show u: "unat (a + 4096) = unat a + 4096" using assms(2) by (simp add: unat_word_ariths)
  show "aligned (a + 4096)" using assms(1) u by (simp add: aligned_dvd)
  show "a < MAXVA" using assms(2) by (simp add: word_less_nat_alt MAXVA_unat)
  show "vpn (a + 4096) = Suc (vpn a)" by (simp add: vpn_def u)
qed

lemma map_result_cong: "old va = old' va \<Longrightarrow> map_result a n pa perm old va = map_result a n pa perm old' va"
  by (simp add: map_result_def)

lemma map_result_Suc:
  assumes "vpn b = Suc (vpn a)"
  shows "map_result b n (pa + 4096) perm
      (\<lambda>v. if vpn a = vpn v then PA2PTE pa OR perm OR PTE_V else old v) va
    = map_result a (Suc n) pa perm old va"
proof (cases "Suc (vpn a) \<le> vpn va")
  case True
  then obtain k where k: "vpn va - vpn a = Suc k" "vpn va - Suc (vpn a) = k"
    by (metis Suc_diff_Suc Suc_le_eq)
  have "pa + 4096 + 4096 * word_of_nat k = pa + 4096 * (word_of_nat (Suc k) :: u64)"
    by (simp add: algebra_simps)
  with True k assms show ?thesis by (simp add: map_result_def add.assoc)
next
  case False
  then show ?thesis using assms by (auto simp: map_result_def)
qed

lemma mappages_loop_step:
  assumes fp: "free_pages s ps" and ok: "tree_ok (kend s) ps 2 (memory s) pt" and a: "a < MAXVA"
    and inv: "entry 2 (memory s) pt a AND PTE_V = 0"
  obtains s1 where "mappages_loop pt a lst pa perm s = Done (- 1) s1" and "remapped s ps pt s1 []"
  | s2 ps2 where "mappages_loop pt a lst pa perm s =
        (if a = lst then Done 0 s2 else mappages_loop pt (a + 4096) lst (pa + 4096) perm s2)"
      and "remapped s ps pt s2 ps2"
      and "\<And>va. va < MAXVA \<Longrightarrow> entry 2 (memory s2) pt va =
        (if vpn a = vpn va then PA2PTE pa OR perm OR PTE_V else entry 2 (memory s) pt va)"
proof (rule map_one [OF fp ok a])
  fix s1 assume "walk pt a True s = Done 0 s1" "remapped s ps pt s1 []"
  then show thesis using that(1) by (simp add: mappages_loop.simps [of pt a])
next
  fix s1 r ps1
  assume w: "walk pt a True s = Done r s1" "r \<noteq> 0" "remapped s ps pt s1 ps1"
    "leaf 2 (memory s1) pt a = Some r" and en: "\<And>va. entry 2 (memory s1) pt va = entry 2 (memory s) pt va"
  let ?v = "PA2PTE pa OR perm OR PTE_V"
  let ?s2 = "s1\<lparr>memory := st64 (memory s1) r ?v\<rparr>"
  have f: "free_pages s1 ps1" "tree_ok (kend s1) ps1 2 (memory s1) pt"
    using w(3) remapped_kend [OF w(3)] by (auto simp: remapped_def)
  have "ld64 (memory s1) r = entry 2 (memory s) pt a" using w(4) en [of a] by (simp add: entry_def)
  then have "mappages_loop pt a lst pa perm s =
      (if a = lst then Done 0 ?s2 else mappages_loop pt (a + 4096) lst (pa + 4096) perm ?s2)"
    using w(1,2) inv by (simp add: mappages_loop.simps [of pt a] PGSIZE_def Let_def)
  moreover have "remapped s ps pt ?s2 ps1"
    by (rule remapped_trans [OF w(3) store_remapped [OF f w(4)]])
  moreover have "entry 2 (memory ?s2) pt va = (if vpn a = vpn va then ?v else entry 2 (memory s) pt va)"
    if "va < MAXVA" for va
    using store_leaf [OF f(2) w(4), of ?v] en same_path_page [OF a that] by (simp add: vpn_def)
  ultimately show thesis by (rule that(2))
qed

lemma mappages_loop_maps:
  assumes "free_pages s ps" and "tree_ok (kend s) ps 2 (memory s) pt"
    and "aligned a" and "unat a + 4096 * Suc n \<le> 2 ^ 38" and "lst = a + 4096 * word_of_nat n"
    and "\<forall>va<MAXVA. vpn a \<le> vpn va \<and> vpn va < vpn a + Suc n \<longrightarrow> entry 2 (memory s) pt va AND PTE_V = 0"
  shows "\<exists>r s' ps'. mappages_loop pt a lst pa perm s = Done r s' \<and> remapped s ps pt s' ps'
    \<and> (r = 0 \<and> (\<forall>va<MAXVA. entry 2 (memory s') pt va = map_result a (Suc n) pa perm (entry 2 (memory s) pt) va)
       \<or> r = - 1 \<and> ps' = [])"
  using assms
proof (induction n arbitrary: s ps a pa)
  case 0
  note np = next_page [OF "0.prems"(3,4)]
  have inv: "entry 2 (memory s) pt a AND PTE_V = 0" using "0.prems"(6) np(3) by simp
  from "0.prems"(1,2) np(3) inv show ?case
  proof (rule mappages_loop_step [of s ps pt a lst pa perm])
    fix s2 ps2 assume "mappages_loop pt a lst pa perm s =
        (if a = lst then Done 0 s2 else mappages_loop pt (a + 4096) lst (pa + 4096) perm s2)"
      "remapped s ps pt s2 ps2"
      "\<And>va. va < MAXVA \<Longrightarrow> entry 2 (memory s2) pt va =
        (if vpn a = vpn va then PA2PTE pa OR perm OR PTE_V else entry 2 (memory s) pt va)"
    then show ?case using "0.prems"(5) by (intro exI [of _ 0] exI [of _ s2] exI [of _ ps2])
        (auto simp: map_result_def)
  qed auto
next
  case (Suc n)
  have "unat a + 4096 * Suc n \<le> 2 ^ 38" using Suc.prems(4) by simp
  note np = next_page [OF Suc.prems(3,4)]
  have inv: "entry 2 (memory s) pt a AND PTE_V = 0" using Suc.prems(6) np(3) by simp
  have ne: "a \<noteq> lst"
  proof
    assume "a = lst"
    then have "(4096 * word_of_nat (Suc n) :: u64) = 0" using Suc.prems(5) by simp
    then have "unat (4096 * word_of_nat (Suc n) :: u64) = 0" by simp
    then show False using Suc.prems(4) by (simp add: unat_word_ariths unat_of_nat del: of_nat_Suc)
  qed
  from Suc.prems(1,2) np(3) inv show ?case
  proof (rule mappages_loop_step [of s ps pt a lst pa perm])
    fix s2 ps2 assume l: "mappages_loop pt a lst pa perm s =
        (if a = lst then Done 0 s2 else mappages_loop pt (a + 4096) lst (pa + 4096) perm s2)"
      and rm: "remapped s ps pt s2 ps2"
      and en: "\<And>va. va < MAXVA \<Longrightarrow> entry 2 (memory s2) pt va =
        (if vpn a = vpn va then PA2PTE pa OR perm OR PTE_V else entry 2 (memory s) pt va)"
    have f: "free_pages s2 ps2" "tree_ok (kend s2) ps2 2 (memory s2) pt"
      using rm remapped_kend [OF rm] by (auto simp: remapped_def)
    have b: "unat (a + 4096) + 4096 * Suc n \<le> 2 ^ 38" using Suc.prems(4) np(2) by simp
    have lst: "lst = a + 4096 + 4096 * word_of_nat n" using Suc.prems(5) by (simp add: algebra_simps)
    have "\<forall>va<MAXVA. vpn (a + 4096) \<le> vpn va \<and> vpn va < vpn (a + 4096) + Suc n \<longrightarrow>
        entry 2 (memory s2) pt va AND PTE_V = 0"
      using en Suc.prems(6) np(4) by simp
    from Suc.IH [OF f np(1) b lst this, of "pa + 4096"] obtain r s' ps' where
      r: "mappages_loop pt (a + 4096) lst (pa + 4096) perm s2 = Done r s'" "remapped s2 ps2 pt s' ps'"
      "r = 0 \<and> (\<forall>va<MAXVA. entry 2 (memory s') pt va = map_result (a + 4096) (Suc n) (pa + 4096) perm (entry 2 (memory s2) pt) va)
       \<or> r = - 1 \<and> ps' = []" by blast
    have "map_result (a + 4096) (Suc n) (pa + 4096) perm (entry 2 (memory s2) pt) va =
        map_result a (Suc (Suc n)) pa perm (entry 2 (memory s) pt) va" if "va < MAXVA" for va
      using map_result_cong [of "entry 2 (memory s2) pt" va
          "\<lambda>v. if vpn a = vpn v then PA2PTE pa OR perm OR PTE_V else entry 2 (memory s) pt v"]
        map_result_Suc [OF np(4)] en [OF that] by simp
    then show ?case using l ne r remapped_trans [OF rm r(2)] by (intro exI [of _ r] exI [of _ s'] exI [of _ ps']) auto
  qed auto
qed

lemma walk_lookup:
  assumes "va < MAXVA"
  shows "walk pt va False s = Done (case leaf 2 (memory s) pt va of None \<Rightarrow> 0 | Some a \<Rightarrow> a) s"
  using assms walk_from_noalloc by (simp add: walk_def not_le)

text \<open>What \<^verbatim>\<open>walkaddr\<close> returns in terms of the entry of the address.\<close>

definition user_pa :: "mem \<Rightarrow> u64 \<Rightarrow> u64 \<Rightarrow> u64" where
  "user_pa m pt va =
     (let e = entry 2 m pt va in
      if va < MAXVA \<and> e AND PTE_V \<noteq> 0 \<and> e AND PTE_U \<noteq> 0 then PTE2PA e else 0)"

lemma walkaddr_eq:
  assumes "tree_ok e ps 2 (memory s) pt"
  shows "walkaddr pt va s = Done (user_pa (memory s) pt va) s"
proof (cases "va < MAXVA")
  case True
  then show ?thesis
    using walk_lookup [OF True, of pt s] leaf_nonzero [OF assms, of va]
    by (cases "leaf 2 (memory s) pt va") (auto simp: walkaddr_def user_pa_def entry_def not_le Let_def)
qed (simp add: walkaddr_def user_pa_def not_le)

end
