(* ===== verification/Vm_Copy.thy ===== *)
theory Vm_Copy
  imports Vm_Map
begin

text \<open>
  Copies between the kernel and user memory. \<open>ubyte\<close> is the byte a user address designates; in a
  well-formed address space, \<^verbatim>\<open>copyout\<close> changes exactly the bytes it is given and \<^verbatim>\<open>copyin\<close> returns
  exactly the bytes it is asked for.
\<close>

section \<open>Offsets in a page\<close>

definition page_off :: "u64 \<Rightarrow> nat" where
  "page_off va = unat va mod 4096"

lemma page_off_less: "page_off va < 4096"
  by (simp add: page_off_def)

lemma page_off_unat: "unat (va - PGROUNDDOWN va) = page_off va"
proof -
  have "unat (PGROUNDDOWN va) \<le> unat va" by (simp add: PGROUNDDOWN_unat)
  then have "unat (va - PGROUNDDOWN va) = unat va - unat (PGROUNDDOWN va)"
    by (simp add: unat_sub word_le_nat_alt)
  then show ?thesis by (simp add: PGROUNDDOWN_unat page_off_def minus_mult_div_eq_mod)
qed

lemma page_part_eq: "page_part va n = min (4096 - page_off va) n"
proof -
  have "va - PGROUNDDOWN va \<le> PGSIZE"
    using page_off_unat [of va] page_off_less [of va] by (simp add: word_le_nat_alt PGSIZE_def)
  then have "unat (PGSIZE - (va - PGROUNDDOWN va)) = 4096 - page_off va"
    by (simp add: unat_sub page_off_unat)
  then show ?thesis by (simp add: page_part_def)
qed

lemma same_page_add:
  assumes "page_off va + i < 4096"
  shows "unat (va + word_of_nat i) = unat va + i" and "PGROUNDDOWN (va + word_of_nat i) = PGROUNDDOWN va"
proof -
  have "aligned (PGROUNDDOWN va)" by (rule PGROUNDDOWN_aligned)
  from aligned_le [OF this] have "4096 * (unat va div 4096) + 4096 \<le> 2 ^ 64" by (simp add: PGROUNDDOWN_unat)
  moreover have "unat va = 4096 * (unat va div 4096) + page_off va" by (simp add: page_off_def)
  ultimately have lt: "unat va + i < 2 ^ 64" using assms by linarith
  show u: "unat (va + word_of_nat i) = unat va + i"
    using lt assms by (simp add: unat_word_ariths unat_of_nat)
  have e: "unat va + i = (page_off va + i) + 4096 * (unat va div 4096)" by (simp add: page_off_def)
  have "(unat va + i) div 4096 = unat va div 4096"
    unfolding e by (subst div_mult_self2) (use assms in simp_all)
  then have "unat (PGROUNDDOWN (va + word_of_nat i)) = unat (PGROUNDDOWN va)" by (simp add: PGROUNDDOWN_unat u)
  then show "PGROUNDDOWN (va + word_of_nat i) = PGROUNDDOWN va" by (simp add: word_unat_eq_iff)
qed

lemma next_page_start:
  "va + word_of_nat (4096 - page_off va) = PGROUNDDOWN va + 4096"
proof -
  have "word_of_nat (page_off va) = va - PGROUNDDOWN va" unfolding page_off_unat [symmetric] by simp
  moreover have "word_of_nat (4096 - page_off va) = (4096 :: u64) - word_of_nat (page_off va)"
    using page_off_less [of va] by (simp add: of_nat_diff)
  ultimately show ?thesis by simp
qed

section \<open>User memory\<close>

definition ubyte :: "mem \<Rightarrow> u64 \<Rightarrow> u64 \<Rightarrow> u8" where
  "ubyte m pt va = m (user_pa m pt (PGROUNDDOWN va) + (va - PGROUNDDOWN va))"

definition umapped :: "mem \<Rightarrow> u64 \<Rightarrow> u64 \<Rightarrow> bool" where
  "umapped m pt va \<longleftrightarrow> user_pa m pt (PGROUNDDOWN va) \<noteq> 0"

lemma user_frame_mapped:
  assumes "tree_ok e ps 2 (memory s) pt" and "user_pa (memory s) pt va0 \<noteq> 0"
  shows "user_frame pt va0 s = Done (user_pa (memory s) pt va0) s"
  using assms(2) by (simp add: user_frame_def walkaddr_eq [OF assms(1)])

lemma copyin_eq:
  assumes "tree_ok e ps 2 (memory s) pt" and "\<And>i. i < n \<Longrightarrow> umapped (memory s) pt (va + word_of_nat i)"
  shows "copyin pt va n s = Done (map (\<lambda>i. ubyte (memory s) pt (va + word_of_nat i)) [0..<n], 0) s"
  using assms
proof (induction n arbitrary: va rule: less_induct)
  case (less n)
  show ?case
  proof (cases "n = 0")
    case True
    then show ?thesis by (simp add: copyin.simps)
  next
    case False
    let ?k = "page_part va n" and ?va0 = "PGROUNDDOWN va" and ?m = "memory s"
    have k: "0 < ?k" "?k \<le> n" "page_off va + ?k \<le> 4096"
      using False page_part_pos [of n va] page_off_less [of va] by (auto simp: page_part_eq)
    have "user_pa ?m pt ?va0 \<noteq> 0" using less.prems(2) [of 0] False by (simp add: umapped_def)
    then have uf: "user_frame pt ?va0 s = Done (user_pa ?m pt ?va0) s" "user_pa ?m pt ?va0 \<noteq> 0"
      using user_frame_mapped [OF less.prems(1)] by simp_all
    have bs: "rd_bytes ?m (user_pa ?m pt ?va0 + (va - ?va0)) ?k = map (\<lambda>i. ubyte ?m pt (va + word_of_nat i)) [0..<?k]"
      using k(3) same_page_add(2) [of va] by (auto simp: rd_bytes_def ubyte_def algebra_simps)
    have nx: "?va0 + 4096 + word_of_nat i = va + word_of_nat (?k + i)" if "i < n - ?k" for i
    proof -
      have "?k = 4096 - page_off va" using that by (auto simp: page_part_eq min_def split: if_splits)
      then show ?thesis using next_page_start [of va] by (simp add: add.assoc [symmetric])
    qed
    have "umapped ?m pt (?va0 + 4096 + word_of_nat i)" if "i < n - ?k" for i
      unfolding nx [OF that] using that by (intro less.prems(2)) simp
    then have "copyin pt (?va0 + 4096) (n - ?k) s =
        Done (map (\<lambda>i. ubyte ?m pt (?va0 + 4096 + word_of_nat i)) [0..<n - ?k], 0) s"
      using k False by (intro less.IH less.prems(1)) simp_all
    moreover have "map (\<lambda>i. ubyte ?m pt (?va0 + 4096 + word_of_nat i)) [0..<n - ?k] =
        map (\<lambda>i. ubyte ?m pt (va + word_of_nat i)) [?k..<n]"
      using nx k(2) by (intro nth_equalityI) (simp_all add: add.assoc)
    moreover have "[0..<n] = [0..<?k] @ [?k..<n]" using k(2) upt_add_eq_append [of 0 ?k "n - ?k"] by simp
    ultimately show ?thesis
      using uf bs False by (subst copyin.simps) (simp add: PGSIZE_def Let_def)
  qed
qed

section \<open>Copying out\<close>

definition uwritable :: "mem \<Rightarrow> u64 \<Rightarrow> u64 \<Rightarrow> bool" where
  "uwritable m pt va \<longleftrightarrow> umapped m pt va \<and> entry 2 m pt (PGROUNDDOWN va) AND PTE_W \<noteq> 0"

text \<open>A user address space: a page table whose user pages are distinct frames, none of them a table.\<close>

definition aspace_ok :: "u64 \<Rightarrow> u64 list \<Rightarrow> mem \<Rightarrow> u64 \<Rightarrow> bool" where
  "aspace_ok e ps m pt \<longleftrightarrow> tree_ok e ps 2 m pt
     \<and> (\<forall>va. umapped m pt va \<longrightarrow> user_pa m pt (PGROUNDDOWN va) \<notin> set (tbl 2 m pt))
     \<and> (\<forall>va va'. umapped m pt va \<longrightarrow> umapped m pt va' \<longrightarrow> PGROUNDDOWN va \<noteq> PGROUNDDOWN va' \<longrightarrow>
          user_pa m pt (PGROUNDDOWN va) \<noteq> user_pa m pt (PGROUNDDOWN va'))"

lemma user_pa_aligned: "aligned (user_pa m pt va)"
proof -
  have "aligned (PTE2PA x)" for x
    unfolding aligned_mask PTE2PA_def by (rule bit_word_eqI) (simp add: bit_simps)
  then show ?thesis by (simp add: user_pa_def Let_def aligned_def)
qed

lemma aspace_frame:
  assumes "aspace_ok e ps m pt" and "\<forall>x. in_pages (set (tbl 2 m pt)) x \<longrightarrow> m' x = m x"
  shows "aspace_ok e ps m' pt" and "user_pa m' pt = user_pa m pt" and "entry 2 m' pt = entry 2 m pt"
proof -
  note fr = tree_frame [of 2 m pt m', OF assms(2) [rule_format]]
  show en: "entry 2 m' pt = entry 2 m pt" by (rule ext) (use fr in blast)
  then show up: "user_pa m' pt = user_pa m pt" by (intro ext) (simp add: user_pa_def)
  have "tbl 2 m' pt = tbl 2 m pt" using fr by blast
  then show "aspace_ok e ps m' pt"
    using assms(1) up unfolding aspace_ok_def umapped_def tree_ok_def by simp
qed

lemma page_write_in_page:
  assumes "aligned p" and "page_off va + k \<le> 4096" and "unat (y - (p + (va - PGROUNDDOWN va))) < k"
  shows "in_page p y"
proof -
  let ?d = "y - (p + (va - PGROUNDDOWN va))"
  have "y - p = (va - PGROUNDDOWN va) + ?d" by simp
  moreover have "unat ((va - PGROUNDDOWN va) + ?d) = page_off va + unat ?d"
    using assms(2,3) by (subst unat_word_ariths) (simp add: page_off_unat)
  ultimately have "unat (y - p) = page_off va + unat ?d" by (simp only:)
  then show ?thesis using assms(2,3) by (simp add: in_page_def)
qed

lemma write_chunk:
  assumes ok: "aspace_ok e ps m pt" and va: "umapped m pt va" and k: "page_off va + length cs \<le> 4096"
    and m': "m' = wr_bytes m (user_pa m pt (PGROUNDDOWN va) + (va - PGROUNDDOWN va)) cs"
  shows "aspace_ok e ps m' pt" and "user_pa m' pt = user_pa m pt" and "entry 2 m' pt = entry 2 m pt"
    and "umapped m pt x \<Longrightarrow> ubyte m' pt x =
      (if unat (x - va) < length cs then cs ! unat (x - va) else ubyte m pt x)"
proof -
  let ?p = "user_pa m pt (PGROUNDDOWN va)"
  have out: "m' y = m y" if "\<not> in_page ?p y" for y
    using that page_write_in_page [OF user_pa_aligned k] unfolding m' wr_bytes_def by auto
  have t: "tree_ok e ps 2 m pt" and np: "?p \<notin> set (tbl 2 m pt)" using ok va by (auto simp: aspace_ok_def)
  have "\<forall>y. in_pages (set (tbl 2 m pt)) y \<longrightarrow> m' y = m y"
  proof (intro allI impI out)
    fix y assume y: "in_pages (set (tbl 2 m pt)) y"
    obtain q where q: "q \<in> set (tbl 2 m pt)" "in_page q y" using y unfolding in_pages_def by blast
    have "q \<noteq> ?p" using q(1) np by auto
    then show "\<not> in_page ?p y"
      by (rule in_page_disjoint [OF tree_aligned [OF t q(1)] user_pa_aligned _ q(2)])
  qed
  note fr = aspace_frame [of e ps m pt m', OF ok this]
  show "aspace_ok e ps m' pt" "user_pa m' pt = user_pa m pt" "entry 2 m' pt = entry 2 m pt"
    by (rule fr)+
  show "ubyte m' pt x = (if unat (x - va) < length cs then cs ! unat (x - va) else ubyte m pt x)"
    if x: "umapped m pt x"
  proof (cases "PGROUNDDOWN x = PGROUNDDOWN va")
    case True
    then show ?thesis using fr(2) by (simp add: ubyte_def m' wr_bytes_def)
  next
    case False
    let ?q = "user_pa m pt (PGROUNDDOWN x)"
    have "in_page ?q (?q + (x - PGROUNDDOWN x))" by (simp add: in_page_def page_off_unat page_off_less)
    moreover have "?q \<noteq> ?p" using ok va x False by (simp add: aspace_ok_def)
    ultimately have "m' (?q + (x - PGROUNDDOWN x)) = m (?q + (x - PGROUNDDOWN x))"
      by (intro out in_page_disjoint [OF user_pa_aligned user_pa_aligned])
    moreover have "\<not> unat (x - va) < length cs"
      using same_page_add(2) [of va "unat (x - va)"] k False by auto
    ultimately show ?thesis using fr(2) by (simp add: ubyte_def)
  qed
qed

lemma copyout_step:
  assumes t: "tree_ok e ps 2 (memory s) pt" and w: "uwritable (memory s) pt va" and "src \<noteq> []"
  shows "copyout pt va src s =
    copyout pt (PGROUNDDOWN va + 4096) (drop (page_part va (length src)) src)
      (s\<lparr>memory := wr_bytes (memory s) (user_pa (memory s) pt (PGROUNDDOWN va) + (va - PGROUNDDOWN va))
          (take (page_part va (length src)) src)\<rparr>)"
proof -
  let ?va0 = "PGROUNDDOWN va" and ?m = "memory s"
  have p: "user_pa ?m pt ?va0 \<noteq> 0" and e: "entry 2 ?m pt ?va0 AND PTE_W \<noteq> 0"
    using w by (auto simp: uwritable_def umapped_def)
  have lt: "?va0 < MAXVA" using p by (auto simp: user_pa_def Let_def split: if_splits)
  obtain a where a: "leaf 2 ?m pt ?va0 = Some a" using e by (cases "leaf 2 ?m pt ?va0") (auto simp: entry_def)
  have "walk pt ?va0 False s = Done a s" using walk_lookup [OF lt, of pt s] a by simp
  moreover have "a \<noteq> 0" using leaf_nonzero [OF t a] .
  moreover have "ld64 ?m a AND PTE_W \<noteq> 0" using e a by (simp add: entry_def)
  ultimately show ?thesis
    using assms(3) lt [unfolded not_le [symmetric]] p user_frame_mapped [OF t p]
    by (subst copyout.simps) (simp add: Let_def PGSIZE_def)
qed

lemma chunk_index:
  assumes "k \<le> n" and "n \<le> 2 ^ 64" and "k < 2 ^ 64"
  shows "unat (x - (va + word_of_nat k :: u64)) < n - k \<longleftrightarrow> k \<le> unat (x - va) \<and> unat (x - va) < n"
    and "k \<le> unat (x - va) \<Longrightarrow> unat (x - (va + word_of_nat k)) = unat (x - va) - k"
proof -
  have k: "unat (word_of_nat k :: u64) = k" using assms(3) by (simp add: unat_of_nat)
  have e: "x - (va + word_of_nat k) = (x - va) - word_of_nat k" by simp
  have ge: "unat (x - (va + word_of_nat k)) = unat (x - va) - k" if "k \<le> unat (x - va)"
    unfolding e using that k by (subst unat_sub) (simp_all add: word_le_nat_alt)
  have lt: "unat (x - (va + word_of_nat k)) = 2 ^ 64 + unat (x - va) - k" if "unat (x - va) < k"
    unfolding e using that k unat_sub_if_size [of "x - va" "word_of_nat k"] by (simp add: word_size)
  show "unat (x - (va + word_of_nat k)) < n - k \<longleftrightarrow> k \<le> unat (x - va) \<and> unat (x - va) < n"
    using ge lt assms by (cases "k \<le> unat (x - va)") auto
  show "unat (x - (va + word_of_nat k)) = unat (x - va) - k" if "k \<le> unat (x - va)" using ge that .
qed

lemma copyout_writes:
  assumes "aspace_ok e ps (memory s) pt" and "length src \<le> 2 ^ 64"
    and "\<forall>i<length src. uwritable (memory s) pt (va + word_of_nat i)"
  shows "\<exists>m. copyout pt va src s = Done 0 (s\<lparr>memory := m\<rparr>) \<and> aspace_ok e ps m pt
    \<and> user_pa m pt = user_pa (memory s) pt
    \<and> (\<forall>x. umapped (memory s) pt x \<longrightarrow>
         ubyte m pt x = (if unat (x - va) < length src then src ! unat (x - va) else ubyte (memory s) pt x))"
  using assms
proof (induction "length src" arbitrary: src va s rule: less_induct)
  case less
  show ?case
  proof (cases "src = []")
    case True
    then show ?thesis using less.prems by (intro exI [of _ "memory s"]) (simp add: copyout.simps)
  next
    case False
    let ?m = "memory s" and ?va0 = "PGROUNDDOWN va"
    define k where "k = page_part va (length src)"
    define m' where "m' = wr_bytes ?m (user_pa ?m pt ?va0 + (va - ?va0)) (take k src)"
    have k: "0 < k" "k \<le> length src" "page_off va + k \<le> 4096" "k < 2 ^ 64"
      using False page_part_pos [of "length src" va] page_off_less [of va] by (auto simp: page_part_eq k_def)
    have t: "tree_ok e ps 2 ?m pt" using less.prems(1) by (simp add: aspace_ok_def)
    have w: "uwritable ?m pt va" using spec [OF less.prems(3), of 0] False by simp
    have "umapped ?m pt va" "page_off va + length (take k src) \<le> 4096" using w k by (auto simp: uwritable_def)
    note wc = write_chunk [OF less.prems(1) this m'_def]
    have nx: "?va0 + 4096 = va + word_of_nat k" if "k < length src"
      using next_page_start [of va] that by (auto simp: page_part_eq k_def min_def split: if_splits)
    have "uwritable m' pt (?va0 + 4096 + word_of_nat i)" if "i < length src - k" for i
      using less.prems(3) [rule_format, of "k + i"] that wc(2,3) nx
      by (simp add: uwritable_def umapped_def add.assoc)
    then have "\<forall>i<length (drop k src). uwritable (memory (s\<lparr>memory := m'\<rparr>)) pt (?va0 + 4096 + word_of_nat i)"
      by simp
    moreover have "length (drop k src) < length src" "length (drop k src) \<le> 2 ^ 64"
      using k less.prems(2) by auto
    moreover have "aspace_ok e ps (memory (s\<lparr>memory := m'\<rparr>)) pt" using wc(1) by simp
    ultimately obtain m where m:
      "copyout pt (?va0 + 4096) (drop k src) (s\<lparr>memory := m'\<rparr>) = Done 0 (s\<lparr>memory := m'\<rparr>\<lparr>memory := m\<rparr>)"
      "aspace_ok e ps m pt" "user_pa m pt = user_pa (memory (s\<lparr>memory := m'\<rparr>)) pt"
      "\<forall>x. umapped (memory (s\<lparr>memory := m'\<rparr>)) pt x \<longrightarrow> ubyte m pt x =
         (if unat (x - (?va0 + 4096)) < length (drop k src)
         then drop k src ! unat (x - (?va0 + 4096)) else ubyte (memory (s\<lparr>memory := m'\<rparr>)) pt x)"
      using less.hyps [of "drop k src" "s\<lparr>memory := m'\<rparr>" "?va0 + 4096"] by blast
    have "ubyte m pt x = (if unat (x - va) < length src then src ! unat (x - va) else ubyte ?m pt x)"
      if x: "umapped ?m pt x" for x
    proof -
      note ci = chunk_index [OF k(2) less.prems(2) k(4), of x va]
      have "umapped m' pt x" using x wc(2) by (simp add: umapped_def)
      then have "ubyte m pt x = (if unat (x - (?va0 + 4096)) < length src - k
          then src ! (k + unat (x - (?va0 + 4096))) else ubyte m' pt x)"
        using m(4) [rule_format, of x] k(2) by simp
      then show ?thesis using wc(4) [OF x] nx ci k(2) by (cases "k < length src") auto
    qed
    then show ?thesis
      using m(1-3) wc(2) copyout_step [OF t w False] by (intro exI [of _ m]) (simp add: k_def m'_def)
  qed
qed

section \<open>An address space with one page\<close>

text \<open>A concrete table: the pages from 0x80022000 to 0x80024000 translate address 0 to 0x80025000.\<close>

definition one_page_mem :: mem where
  "one_page_mem =
     st64 (st64 (st64 (\<lambda>_. 0) (pte_addr 0x80022000 0) (PA2PTE 0x80023000 OR PTE_V))
       (pte_addr 0x80023000 0) (PA2PTE 0x80024000 OR PTE_V))
       (pte_addr 0x80024000 0) (PA2PTE 0x80025000 OR (PTE_V OR PTE_R OR PTE_W OR PTE_U))"

lemma ld64_st64_pte:
  assumes "aligned p" "aligned q" "unat i < 512" "unat j < 512" "p \<noteq> q \<or> i \<noteq> j"
  shows "ld64 (st64 m (pte_addr p i) v) (pte_addr q j) = ld64 m (pte_addr q j)"
proof (cases "p = q")
  case True
  then show ?thesis using ld64_other_pte [OF assms(3,4), of m q v] assms(5) by simp
next
  case False
  show ?thesis
  proof (rule ld64_outside, rule st64_apply)
    fix x assume "unat (x - pte_addr q j) < 8"
    then have "\<not> in_page p x" using in_page_disjoint [OF assms(2,1)] False pte_in_page [OF assms(4)] by blast
    then show "\<not> unat (x - pte_addr p i) < 8" using pte_in_page [OF assms(3)] by blast
  qed
qed

lemma table_single:
  assumes "\<forall>i. i \<noteq> 0 \<longrightarrow> unat i < 512 \<longrightarrow> ld64 m (pte_addr pt i) = 0"
    and "ld64 m pt AND PTE_V \<noteq> 0"
  shows "tbl (Suc l) m pt = pt # tbl l m (PTE2PA (ld64 m pt))"
    and "entry (Suc l) m pt va = (if PX (Suc l) va = 0 then entry l m (PTE2PA (ld64 m pt)) va else 0)"
proof -
  have "child l m pt j = []" if j: "j \<in> {Suc 0..<512}" for j
  proof -
    have "unat (word_of_nat j :: u64) = j" using j by simp
    then have "word_of_nat j \<noteq> (0 :: u64)" "unat (word_of_nat j :: u64) < 512" using j by (metis atLeastLessThan_iff not_one_le_zero One_nat_def unat_0, simp)
    then show ?thesis using assms(1) by (simp add: child_def)
  qed
  then have "concat (map (child l m pt) [Suc 0..<512]) = []" by simp
  moreover have "child l m pt 0 = tbl l m (PTE2PA (ld64 m pt))" using assms(2) by (simp add: child_def pte_addr_def)
  ultimately show "tbl (Suc l) m pt = pt # tbl l m (PTE2PA (ld64 m pt))"
    using tbl_split [of 0 l m pt] by simp
  have "ld64 m (pte_addr pt (PX (Suc l) va)) = 0" if "PX (Suc l) va \<noteq> 0"
    using assms(1) that PX_less [of "Suc l" va] by simp
  then show "entry (Suc l) m pt va = (if PX (Suc l) va = 0 then entry l m (PTE2PA (ld64 m pt)) va else 0)"
    using assms(2) by (auto simp: entry_Suc Let_def pte_addr_def)
qed

lemma ld64_zero_mem: "ld64 (\<lambda>_. 0) a = 0"
  by (rule ld64_zero) simp

lemma one_page_tables: "aligned 0x80022000" "aligned 0x80023000" "aligned 0x80024000"
  by (simp_all add: aligned_def PGSIZE_def)

lemmas one_page_simps = ld64_st64_pte [OF one_page_tables(1) one_page_tables(1)]
  ld64_st64_pte [OF one_page_tables(1) one_page_tables(2)] ld64_st64_pte [OF one_page_tables(1) one_page_tables(3)]
  ld64_st64_pte [OF one_page_tables(2) one_page_tables(1)] ld64_st64_pte [OF one_page_tables(2) one_page_tables(2)]
  ld64_st64_pte [OF one_page_tables(2) one_page_tables(3)] ld64_st64_pte [OF one_page_tables(3) one_page_tables(1)]
  ld64_st64_pte [OF one_page_tables(3) one_page_tables(2)] ld64_st64_pte [OF one_page_tables(3) one_page_tables(3)]

lemma one_page_ld:
  "ld64 one_page_mem (pte_addr 0x80022000 0) = PA2PTE 0x80023000 OR PTE_V"
  "ld64 one_page_mem (pte_addr 0x80023000 0) = PA2PTE 0x80024000 OR PTE_V"
  "ld64 one_page_mem (pte_addr 0x80024000 0) = PA2PTE 0x80025000 OR (PTE_V OR PTE_R OR PTE_W OR PTE_U)"
  by (simp_all add: one_page_mem_def one_page_simps)

lemma one_page_other:
  assumes "i \<noteq> 0" and "unat i < 512"
  shows "ld64 one_page_mem (pte_addr 0x80022000 i) = 0" "ld64 one_page_mem (pte_addr 0x80023000 i) = 0"
    "ld64 one_page_mem (pte_addr 0x80024000 i) = 0"
  using assms by (simp_all add: one_page_mem_def one_page_simps ld64_zero_mem)

lemma one_page_ok:
  "page_ok 0x80021000 0x80022000" "page_ok 0x80021000 0x80023000"
  "page_ok 0x80021000 0x80024000" "page_ok 0x80021000 0x80025000"
  by (simp_all add: page_ok_def aligned_def PGSIZE_def PHYSTOP_def KERNBASE_def)

lemma one_page_tree:
  "tbl 2 one_page_mem 0x80022000 = [0x80022000, 0x80023000, 0x80024000]"
  "entry 2 one_page_mem 0x80022000 va =
     (if PX 0 va = 0 \<and> PX 1 va = 0 \<and> PX 2 va = 0
      then PA2PTE 0x80025000 OR (PTE_V OR PTE_R OR PTE_W OR PTE_U) else 0)"
proof -
  let ?m = one_page_mem
  have p2: "PTE2PA (ld64 ?m 0x80022000) = 0x80023000" "PTE2PA (ld64 ?m 0x80023000) = 0x80024000"
    "ld64 ?m 0x80022000 AND PTE_V \<noteq> 0" "ld64 ?m 0x80023000 AND PTE_V \<noteq> 0"
    using one_page_ld(1,2) pte_pack one_page_ok or_PTE_V [of "PA2PTE 0x80023000"] or_PTE_V [of "PA2PTE 0x80024000"]
    by (metis add_0_right mult_zero_right pte_addr_def)+
  have z: "\<forall>i. i \<noteq> 0 \<longrightarrow> unat i < 512 \<longrightarrow> ld64 ?m (pte_addr 0x80022000 i) = 0"
    "\<forall>i. i \<noteq> 0 \<longrightarrow> unat i < 512 \<longrightarrow> ld64 ?m (pte_addr 0x80023000 i) = 0"
    using one_page_other by blast+
  note t2 = table_single [OF z(1) p2(3)] and t1 = table_single [OF z(2) p2(4)]
  show "tbl 2 one_page_mem 0x80022000 = [0x80022000, 0x80023000, 0x80024000]"
    using t2(1) [of "Suc 0"] t1(1) [of 0] p2(1,2) by (simp add: numeral_2_eq_2)
  have "entry 0 ?m 0x80024000 va = (if PX 0 va = 0 then PA2PTE 0x80025000 OR (PTE_V OR PTE_R OR PTE_W OR PTE_U) else 0)"
    using one_page_ld(3) one_page_other(3) [of "PX 0 va"] PX_less [of 0 va] by (simp add: entry_0)
  then show "entry 2 one_page_mem 0x80022000 va =
     (if PX 0 va = 0 \<and> PX 1 va = 0 \<and> PX 2 va = 0
      then PA2PTE 0x80025000 OR (PTE_V OR PTE_R OR PTE_W OR PTE_U) else 0)"
    using t2(2) [of "Suc 0" va] t1(2) [of 0 va] p2(1,2) by (simp add: numeral_2_eq_2)
qed

definition one_page_kmem :: kmem where
  "one_page_kmem = \<lparr>held = [], intr = False, memory = one_page_mem, freelist = 0, kend = 0x80021000\<rparr>"

lemma one_page_tree_ok: "tree_ok 0x80021000 [] 2 one_page_mem 0x80022000"
  using one_page_ok by (simp add: tree_ok_def one_page_tree)

lemma one_page_flags:
  "(PA2PTE 0x80025000 OR (PTE_V OR PTE_R OR PTE_W OR PTE_U)) AND PTE_V \<noteq> 0"
  "(PA2PTE 0x80025000 OR (PTE_V OR PTE_R OR PTE_W OR PTE_U)) AND PTE_U \<noteq> 0"
  "(PA2PTE 0x80025000 OR (PTE_V OR PTE_R OR PTE_W OR PTE_U)) AND PTE_W \<noteq> 0"
  "PTE2PA (PA2PTE 0x80025000 OR (PTE_V OR PTE_R OR PTE_W OR PTE_U)) = 0x80025000"
  by (simp_all add: PA2PTE_def PTE2PA_def PTE_V_def PTE_R_def PTE_W_def PTE_U_def)

lemma one_page_user_pa:
  "user_pa one_page_mem 0x80022000 va = (if vpn va = 0 then 0x80025000 else 0)"
proof -
  have "va < MAXVA \<and> PX 0 va = 0 \<and> PX 1 va = 0 \<and> PX 2 va = 0 \<longleftrightarrow> vpn va = 0"
  proof -
    have m: "0 < MAXVA" by (simp add: MAXVA_def)
    have "va < MAXVA" if "vpn va = 0" using that by (simp add: vpn_def word_less_nat_alt MAXVA_unat)
    moreover have "same_path 2 0 va \<longleftrightarrow> PX 0 va = 0 \<and> PX 1 va = 0 \<and> PX 2 va = 0"
      by (auto simp: same_path_def PX_def le_Suc_eq numeral_2_eq_2)
    ultimately show ?thesis using same_path_page [OF m, of va] by (auto simp: vpn_def)
  qed
  then show ?thesis using one_page_flags by (auto simp: user_pa_def one_page_tree Let_def)
qed

lemma one_page_aspace: "aspace_ok 0x80021000 [] one_page_mem 0x80022000"
proof -
  have z: "PGROUNDDOWN va = 0" if "vpn (PGROUNDDOWN va) = 0" for va
    using that by (simp add: vpn_def PGROUNDDOWN_unat word_unat_eq_iff)
  show ?thesis
    unfolding aspace_ok_def umapped_def one_page_user_pa
    using one_page_tree_ok by (auto simp: one_page_tree dest!: z)
qed

section \<open>Properties\<close>

text \<open>
  C6 (functional): mappages on a well-formed page table and n unmapped pages from an aligned
  address below MAXVA returns. It returns 0 and then exactly the n translations are installed,
  with the frames from pa on and the permissions asked for, and every other translation is as
  before; or it returns -1, when there is no free page left for a table. In both cases the free
  list and the page table stay well formed.
\<close>

theorem mappages_installs:
  assumes "free_pages s ps" and "tree_ok (kend s) ps 2 (memory s) pt" and "aligned va"
    and "unat va + 4096 * n \<le> 2 ^ 38" and "0 < n"
    and "\<forall>a<MAXVA. vpn va \<le> vpn a \<and> vpn a < vpn va + n \<longrightarrow> entry 2 (memory s) pt a AND PTE_V = 0"
  shows "\<exists>r s' ps'. mappages pt va (4096 * word_of_nat n) pa perm s = Done r s'
    \<and> free_pages s' ps' \<and> tree_ok (kend s) ps' 2 (memory s') pt
    \<and> (r = 0 \<and> (\<forall>a<MAXVA. entry 2 (memory s') pt a = map_result va n pa perm (entry 2 (memory s) pt) a)
       \<or> r = - 1 \<and> ps' = [])"
proof -
  obtain k where k: "n = Suc k" using assms(5) by (cases n) auto
  have u: "unat (4096 * word_of_nat n :: u64) = 4096 * n"
    using assms(4) by (simp add: unat_word_ariths unat_of_nat)
  have "4096 * word_of_nat n mod PGSIZE = (0 :: u64)"
    by (simp add: word_unat_eq_iff unat_mod u)
  moreover have "4096 * word_of_nat n \<noteq> (0 :: u64)" using u assms(5) by (auto simp: word_unat_eq_iff)
  moreover have e: "va + 4096 * word_of_nat n - PGSIZE = va + 4096 * word_of_nat k"
    by (simp add: k PGSIZE_def algebra_simps)
  ultimately have "mappages pt va (4096 * word_of_nat n) pa perm s =
      mappages_loop pt va (va + 4096 * word_of_nat k) pa perm s"
    unfolding mappages_def e using assms(3) by (simp add: aligned_def)
  with mappages_loop_maps [OF assms(1-3) assms(4) [unfolded k] refl assms(6) [unfolded k], of pa perm] k
  show ?thesis unfolding remapped_def by metis
qed

theorem mappages_installs_witness:
  "\<exists>r s' ps'. mappages 0x80022000 0x1000 (4096 * word_of_nat 1) 0x80026000 PTE_R one_page_kmem = Done r s'
    \<and> free_pages s' ps' \<and> tree_ok (kend one_page_kmem) ps' 2 (memory s') 0x80022000
    \<and> (r = 0 \<and> (\<forall>a<MAXVA. entry 2 (memory s') 0x80022000 a =
          map_result 0x1000 1 0x80026000 PTE_R (entry 2 (memory one_page_kmem) 0x80022000) a)
       \<or> r = - 1 \<and> ps' = [])"
proof (rule mappages_installs)
  show "free_pages one_page_kmem []" by (simp add: free_pages_def one_page_kmem_def)
  show "tree_ok (kend one_page_kmem) [] 2 (memory one_page_kmem) 0x80022000"
    using one_page_tree_ok by (simp add: one_page_kmem_def)
  show "aligned 0x1000" by (simp add: aligned_def PGSIZE_def)
  show "\<forall>a<MAXVA. vpn 0x1000 \<le> vpn a \<and> vpn a < vpn 0x1000 + 1 \<longrightarrow>
      entry 2 (memory one_page_kmem) 0x80022000 a AND PTE_V = 0"
  proof (intro allI impI)
    fix a assume "vpn 0x1000 \<le> vpn a \<and> vpn a < vpn 0x1000 + 1"
    then have "unat (PX 0 a) = 1" by (simp add: vpn_def PX_unat)
    then have "PX 0 a \<noteq> 0" by auto
    then show "entry 2 (memory one_page_kmem) 0x80022000 a AND PTE_V = 0"
      by (simp add: one_page_kmem_def one_page_tree)
  qed
qed simp_all

text \<open>
  C7 (roundtrip): in a well-formed user address space, copyout of a byte string to writable user
  memory succeeds, changes exactly the user bytes of the destination range, and a copyin of the
  same range then returns the string.
\<close>

theorem copyout_copyin_roundtrip:
  assumes "aspace_ok e ps (memory s) pt" and "length src \<le> 2 ^ 64"
    and "\<forall>i<length src. uwritable (memory s) pt (va + word_of_nat i)"
  shows "\<exists>s'. copyout pt va src s = Done 0 s' \<and> copyin pt va (length src) s' = Done (src, 0) s'
    \<and> (\<forall>x. umapped (memory s) pt x \<longrightarrow> length src \<le> unat (x - va) \<longrightarrow>
         ubyte (memory s') pt x = ubyte (memory s) pt x)"
proof -
  obtain m where m: "copyout pt va src s = Done 0 (s\<lparr>memory := m\<rparr>)" "aspace_ok e ps m pt"
    "user_pa m pt = user_pa (memory s) pt"
    "\<forall>x. umapped (memory s) pt x \<longrightarrow>
         ubyte m pt x = (if unat (x - va) < length src then src ! unat (x - va) else ubyte (memory s) pt x)"
    using copyout_writes [OF assms] by blast
  let ?s = "s\<lparr>memory := m\<rparr>"
  have t: "tree_ok e ps 2 (memory ?s) pt" using m(2) by (simp add: aspace_ok_def)
  have um: "umapped (memory s) pt (va + word_of_nat i)" if "i < length src" for i
    using assms(3) that by (simp add: uwritable_def)
  then have "umapped (memory ?s) pt (va + word_of_nat i)" if "i < length src" for i
    using that m(3) by (simp add: umapped_def)
  note ci = copyin_eq [OF t this, of "length src"]
  have "ubyte m pt (va + word_of_nat i) = src ! i" if "i < length src" for i
  proof -
    have "unat (word_of_nat i :: u64) = i" using that assms(2) by (simp add: unat_of_nat)
    then show ?thesis using m(4) um [OF that] that by simp
  qed
  then have "map (\<lambda>i. ubyte m pt (va + word_of_nat i)) [0..<length src] = src"
    by (intro nth_equalityI) simp_all
  then show ?thesis using m(1,4) ci by (intro exI [of _ ?s]) auto
qed

theorem copyout_copyin_roundtrip_witness:
  "\<exists>s'. copyout 0x80022000 16 (str ''hi'') (blank_kstate\<lparr>memory := one_page_mem\<rparr>) = Done 0 s'
     \<and> copyin 0x80022000 16 (length (str ''hi'')) s' = Done (str ''hi'', 0) s'"
proof -
  have "PGROUNDDOWN 16 = 0" "PGROUNDDOWN 17 = 0" by (simp_all add: PGROUNDDOWN_def PGSIZE_def)
  then have "uwritable one_page_mem 0x80022000 16" "uwritable one_page_mem 0x80022000 17"
    using one_page_flags(3)
    by (simp_all add: uwritable_def umapped_def one_page_user_pa one_page_tree vpn_def PX_def)
  then have "\<forall>i<length (str ''hi''). uwritable one_page_mem 0x80022000 (16 + word_of_nat i)"
    by (auto simp: str_def less_Suc_eq numeral_2_eq_2)
  moreover have "length (str ''hi'') \<le> 2 ^ 64" by (simp add: str_def)
  ultimately show ?thesis
    using copyout_copyin_roundtrip [of "0x80021000" "[]" "blank_kstate\<lparr>memory := one_page_mem\<rparr>" "0x80022000"
        "str ''hi''" 16] one_page_aspace by auto
qed

end
