(* ===== verification/Proc.thy ===== *)
theory Proc
  imports Vm
begin

text \<open>
  Processes and scheduling: \<^verbatim>\<open>kernel/proc.c\<close>, and the boot page table of \<^verbatim>\<open>kernel/vm.c\<close> that needs
  the process table. The functions that go through the file system (\<^verbatim>\<open>kfork\<close>, \<^verbatim>\<open>kexit\<close>,
  \<^verbatim>\<open>userinit\<close>, \<^verbatim>\<open>forkret\<close>) are in a later theory.

  \<^item> A loop over the process table is a recursion over the list of its indices.
  \<^item> \<^verbatim>\<open>swtch\<close> to the scheduler ends the run of the process: \<open>sched\<close> has the outcome \<open>Sleep\<close>, with
    the state in which the scheduler takes over. What a function does after \<^verbatim>\<open>swtch\<close> returns is
    its \<open>_resume\<close>.
\<close>

section \<open>Definitions\<close>

subsection \<open>Boot\<close>

definition UART0 :: u64 where "UART0 = 0x10000000"
definition VIRTIO0 :: u64 where "VIRTIO0 = 0x10001000"
definition PLIC :: u64 where "PLIC = 0x0c000000"

primrec proc_mapstacks_loop :: "u64 \<Rightarrow> nat list \<Rightarrow> 'a kmem_scheme \<Rightarrow> (unit, 'a kmem_scheme) outcome" where
  "proc_mapstacks_loop kpgtbl [] s = Done () s"
| "proc_mapstacks_loop kpgtbl (p # ps) s =
     bnd (kalloc s) (\<lambda>pa s.
       if pa = 0 then Panic ''kalloc''
       else bnd (kvmmap kpgtbl (KSTACK p) pa PGSIZE (PTE_R OR PTE_W) s) (\<lambda>_ s.
         proc_mapstacks_loop kpgtbl ps s))"

definition proc_mapstacks :: "u64 \<Rightarrow> 'a kmem_scheme \<Rightarrow> (unit, 'a kmem_scheme) outcome" where
  "proc_mapstacks kpgtbl s = proc_mapstacks_loop kpgtbl [0..<NPROC] s"

definition kvmmake :: "'a kstate_scheme \<Rightarrow> (u64, 'a kstate_scheme) outcome" where
  "kvmmake s =
     bnd (kalloc s) (\<lambda>kpgtbl s.
       let s = s\<lparr>memory := memset (memory s) kpgtbl 0 (unat PGSIZE)\<rparr>; te = etext (syms s) in
       bnd (kvmmap kpgtbl UART0 UART0 PGSIZE (PTE_R OR PTE_W) s) (\<lambda>_ s.
       bnd (kvmmap kpgtbl VIRTIO0 VIRTIO0 PGSIZE (PTE_R OR PTE_W) s) (\<lambda>_ s.
       bnd (kvmmap kpgtbl PLIC PLIC 0x4000000 (PTE_R OR PTE_W) s) (\<lambda>_ s.
       bnd (kvmmap kpgtbl KERNBASE KERNBASE (te - KERNBASE) (PTE_R OR PTE_X) s) (\<lambda>_ s.
       bnd (kvmmap kpgtbl te te (PHYSTOP - te) (PTE_R OR PTE_W) s) (\<lambda>_ s.
       bnd (kvmmap kpgtbl TRAMPOLINE (trampoline (syms s)) PGSIZE (PTE_R OR PTE_X) s) (\<lambda>_ s.
       bnd (proc_mapstacks kpgtbl s) (\<lambda>_ s. Done kpgtbl s))))))))"

definition kvminit :: "'a kstate_scheme \<Rightarrow> (unit, 'a kstate_scheme) outcome" where
  "kvminit s = bnd (kvmmake s) (\<lambda>pt s. Done () (s\<lparr>kernel_pagetable := pt\<rparr>))"

definition kvminithart :: "'a kstate_scheme \<Rightarrow> 'a kstate_scheme" where
  "kvminithart s = s\<lparr>satp := MAKE_SATP (kernel_pagetable s)\<rparr>"

primrec procinit_loop :: "nat list \<Rightarrow> 'a kstate_scheme \<Rightarrow> 'a kstate_scheme" where
  "procinit_loop [] s = s"
| "procinit_loop (p # ps) s =
     (let s = init_lock (L_proc p) s;
          s = upd_proc p (\<lambda>q. q\<lparr>state := UNUSED\<rparr>) s;
          s = upd_proc p (\<lambda>q. q\<lparr>kstack := KSTACK p\<rparr>) s
      in procinit_loop ps s)"

definition procinit :: "'a kstate_scheme \<Rightarrow> 'a kstate_scheme" where
  "procinit s =
     (let s = init_lock L_sem s;
          s = s\<lparr>global_sem := 1\<rparr>;
          s = init_lock L_pid s;
          s = init_lock L_wait s
      in procinit_loop [0..<NPROC] s)"

subsection \<open>Allocation\<close>

definition allocpid :: "'a kstate_scheme \<Rightarrow> (i32, 'a kstate_scheme) outcome" where
  "allocpid s =
     bnd (acquire L_pid s) (\<lambda>_ s.
       let p = nextpid s; s = s\<lparr>nextpid := nextpid s + 1\<rparr>
       in bnd (release L_pid s) (\<lambda>_ s. Done p s))"

definition proc_pagetable :: "nat \<Rightarrow> 'a kstate_scheme \<Rightarrow> (u64, 'a kstate_scheme) outcome" where
  "proc_pagetable p s =
     bnd (uvmcreate s) (\<lambda>pt s.
       if pt = 0 then Done 0 s
       else bnd (mappages pt TRAMPOLINE PGSIZE (trampoline (syms s)) (PTE_R OR PTE_X) s) (\<lambda>r s.
         if sint r < 0 then bnd (uvmfree pt 0 s) (\<lambda>_ s. Done 0 s)
         else bnd (mappages pt TRAPFRAME PGSIZE (trapframe (procs s p)) (PTE_R OR PTE_W) s) (\<lambda>r s.
           if sint r < 0 then
             bnd (uvmunmap pt TRAMPOLINE 1 False s) (\<lambda>_ s. bnd (uvmfree pt 0 s) (\<lambda>_ s. Done 0 s))
           else Done pt s)))"

definition proc_freepagetable :: "u64 \<Rightarrow> u64 \<Rightarrow> 'a kmem_scheme \<Rightarrow> (unit, 'a kmem_scheme) outcome" where
  "proc_freepagetable pt n s =
     bnd (uvmunmap pt TRAMPOLINE 1 False s) (\<lambda>_ s.
     bnd (uvmunmap pt TRAPFRAME 1 False s) (\<lambda>_ s. uvmfree pt n s))"

definition freeproc :: "nat \<Rightarrow> 'a kstate_scheme \<Rightarrow> (unit, 'a kstate_scheme) outcome" where
  "freeproc p s =
     bnd (if trapframe (procs s p) \<noteq> 0 then kfree (trapframe (procs s p)) s else Done () s) (\<lambda>_ s.
       let s = upd_proc p (\<lambda>q. q\<lparr>trapframe := 0\<rparr>) s in
       bnd (if pagetable (procs s p) \<noteq> 0 then proc_freepagetable (pagetable (procs s p)) (sz (procs s p)) s
            else Done () s) (\<lambda>_ s.
         Done () (upd_proc p (\<lambda>q. q\<lparr>pagetable := 0, sz := 0, pid := 0, parent := None, pname := [],
           chan := NoChan, killed := 0, xstate := 0, state := UNUSED\<rparr>) s)))"

primrec allocproc_scan :: "nat list \<Rightarrow> 'a kstate_scheme \<Rightarrow> (nat option, 'a kstate_scheme) outcome" where
  "allocproc_scan [] s = Done None s"
| "allocproc_scan (p # ps) s =
     bnd (acquire (L_proc p) s) (\<lambda>_ s.
       if state (procs s p) = UNUSED then Done (Some p) s
       else bnd (release (L_proc p) s) (\<lambda>_ s. allocproc_scan ps s))"

text \<open>
  \<^verbatim>\<open>allocproc\<close> returns with the lock of the new process held. A page from \<^verbatim>\<open>kalloc\<close> holds 5 in every
  byte, which is what the new trapframe holds.
\<close>

definition allocproc :: "'a kstate_scheme \<Rightarrow> (nat option, 'a kstate_scheme) outcome" where
  "allocproc s =
     bnd (allocproc_scan [0..<NPROC] s) (\<lambda>found s.
       case found of
         None \<Rightarrow> Done None s
       | Some p \<Rightarrow>
           let fail = (\<lambda>s. bnd (freeproc p s) (\<lambda>_ s. bnd (release (L_proc p) s) (\<lambda>_ s. Done None s))) in
           bnd (allocpid s) (\<lambda>n s.
             let s = upd_proc p (\<lambda>q. q\<lparr>pid := n\<rparr>) s;
                 s = upd_proc p (\<lambda>q. q\<lparr>state := USED\<rparr>) s
             in bnd (kalloc s) (\<lambda>tf s.
               let s = upd_proc p (\<lambda>q. q\<lparr>trapframe := tf\<rparr>) s in
               if tf = 0 then fail s
               else
                 let s = s\<lparr>tframes := (tframes s)(tf := (\<lambda>_. 0x0505050505050505))\<rparr> in
                 bnd (proc_pagetable p s) (\<lambda>pt s.
                   let s = upd_proc p (\<lambda>q. q\<lparr>pagetable := pt\<rparr>) s in
                   if pt = 0 then fail s
                   else
                     let s = upd_proc p (\<lambda>q. q\<lparr>ctx := (\<lambda>_. 0)\<rparr>) s;
                         s = upd_proc p (\<lambda>q. q\<lparr>ctx := (ctx q)(Ctx_ra := forkret_pc (syms s))\<rparr>) s;
                         s = upd_proc p (\<lambda>q. q\<lparr>ctx := (ctx q)(Ctx_sp := kstack q + PGSIZE)\<rparr>) s
                     in Done (Some p) s))))"

definition growproc :: "i32 \<Rightarrow> 'a kstate_scheme \<Rightarrow> (i32, 'a kstate_scheme) outcome" where
  "growproc n s =
     with_myproc s (\<lambda>p.
       let pt = pagetable (procs s p); old = sz (procs s p);
           set_sz = (\<lambda>v s. Done 0 (upd_proc p (\<lambda>q. q\<lparr>sz := v\<rparr>) s))
       in
       if 0 < sint n then
         if old + scast n > TRAPFRAME then Done (- 1) s
         else bnd (uvmalloc pt old (old + scast n) PTE_W s) (\<lambda>v s.
           if v = 0 then Done (- 1) s else set_sz v s)
       else if sint n < 0 then bnd (uvmdealloc pt old (old + scast n) s) set_sz
       else set_sz old s)"

subsection \<open>Sleeping and waking\<close>

definition sched :: "'a kstate_scheme \<Rightarrow> (unit, 'a kstate_scheme) outcome" where
  "sched s =
     with_myproc s (\<lambda>p.
       if \<not> holding (L_proc p) s then Panic ''sched p->lock''
       else if length (held s) \<noteq> 1 then Panic ''sched locks''
       else if state (procs s p) = RUNNING then Panic ''sched RUNNING''
       else if intr_enabled s then Panic ''sched interruptible''
       else Sleep s)"

definition yield :: "'a kstate_scheme \<Rightarrow> (unit, 'a kstate_scheme) outcome" where
  "yield s =
     with_myproc s (\<lambda>p.
       bnd (acquire (L_proc p) s) (\<lambda>_ s.
         let s = upd_proc p (\<lambda>q. q\<lparr>state := RUNNABLE\<rparr>) s in
         bnd (sched s) (\<lambda>_ s. release (L_proc p) s)))"

definition sleep :: "chan \<Rightarrow> lockid \<Rightarrow> 'a kstate_scheme \<Rightarrow> (unit, 'a kstate_scheme) outcome" where
  "sleep c lk s =
     with_myproc s (\<lambda>p.
       bnd (acquire (L_proc p) s) (\<lambda>_ s.
       bnd (release lk s) (\<lambda>_ s.
         let s = upd_proc p (\<lambda>q. q\<lparr>chan := c\<rparr>) s;
             s = upd_proc p (\<lambda>q. q\<lparr>state := SLEEPING\<rparr>) s
         in bnd (sched s) (\<lambda>_ s.
           let s = upd_proc p (\<lambda>q. q\<lparr>chan := NoChan\<rparr>) s in
           bnd (release (L_proc p) s) (\<lambda>_ s. acquire lk s)))))"

text \<open>What \<^verbatim>\<open>sleep\<close> does once the scheduler has switched back to the process.\<close>

definition sleep_resume :: "lockid \<Rightarrow> 'a kstate_scheme \<Rightarrow> (unit, 'a kstate_scheme) outcome" where
  "sleep_resume lk s =
     with_myproc s (\<lambda>p.
       let s = upd_proc p (\<lambda>q. q\<lparr>chan := NoChan\<rparr>) s in
       bnd (release (L_proc p) s) (\<lambda>_ s. acquire lk s))"

primrec wakeup_loop :: "chan \<Rightarrow> nat list \<Rightarrow> 'a kstate_scheme \<Rightarrow> (unit, 'a kstate_scheme) outcome" where
  "wakeup_loop c [] s = Done () s"
| "wakeup_loop c (p # ps) s =
     bnd (if cur s \<noteq> Some p then
            bnd (acquire (L_proc p) s) (\<lambda>_ s.
              let s = (if state (procs s p) = SLEEPING \<and> chan (procs s p) = c
                       then upd_proc p (\<lambda>q. q\<lparr>state := RUNNABLE\<rparr>) s else s)
              in release (L_proc p) s)
          else Done () s) (\<lambda>_ s. wakeup_loop c ps s)"

definition wakeup :: "chan \<Rightarrow> 'a kstate_scheme \<Rightarrow> (unit, 'a kstate_scheme) outcome" where
  "wakeup c s = wakeup_loop c [0..<NPROC] s"

definition proc_chan :: "nat option \<Rightarrow> chan" where
  "proc_chan p = (case p of None \<Rightarrow> NoChan | Some i \<Rightarrow> Ch_proc i)"

primrec reparent_loop :: "nat \<Rightarrow> nat list \<Rightarrow> 'a kstate_scheme \<Rightarrow> (unit, 'a kstate_scheme) outcome" where
  "reparent_loop p [] s = Done () s"
| "reparent_loop p (pp # pps) s =
     bnd (if parent (procs s pp) = Some p then
            let s = upd_proc pp (\<lambda>q. q\<lparr>parent := initproc s\<rparr>) s in wakeup (proc_chan (initproc s)) s
          else Done () s) (\<lambda>_ s. reparent_loop p pps s)"

definition reparent :: "nat \<Rightarrow> 'a kstate_scheme \<Rightarrow> (unit, 'a kstate_scheme) outcome" where
  "reparent p s = reparent_loop p [0..<NPROC] s"

definition setkilled :: "nat \<Rightarrow> 'a kstate_scheme \<Rightarrow> (unit, 'a kstate_scheme) outcome" where
  "setkilled p s =
     bnd (acquire (L_proc p) s) (\<lambda>_ s.
       let s = upd_proc p (\<lambda>q. q\<lparr>killed := 1\<rparr>) s in release (L_proc p) s)"

definition is_killed :: "nat \<Rightarrow> 'a kstate_scheme \<Rightarrow> (i32, 'a kstate_scheme) outcome" where
  "is_killed p s =
     bnd (acquire (L_proc p) s) (\<lambda>_ s.
       let k = killed (procs s p) in bnd (release (L_proc p) s) (\<lambda>_ s. Done k s))"

primrec kkill_loop :: "i32 \<Rightarrow> i32 \<Rightarrow> nat list \<Rightarrow> 'a kstate_scheme \<Rightarrow> (i32, 'a kstate_scheme) outcome" where
  "kkill_loop n signum [] s = Done (- 1) s"
| "kkill_loop n signum (p # ps) s =
     bnd (acquire (L_proc p) s) (\<lambda>_ s.
       if pid (procs s p) = n then
         let s = upd_proc p (\<lambda>q. q\<lparr>pending_signals := pending_signals q OR push_bit (unat signum) 1\<rparr>) s;
             s = (if state (procs s p) = SLEEPING then upd_proc p (\<lambda>q. q\<lparr>state := RUNNABLE\<rparr>) s else s)
         in bnd (release (L_proc p) s) (\<lambda>_ s. Done 0 s)
       else bnd (release (L_proc p) s) (\<lambda>_ s. kkill_loop n signum ps s))"

definition kkill :: "i32 \<Rightarrow> i32 \<Rightarrow> 'a kstate_scheme \<Rightarrow> (i32, 'a kstate_scheme) outcome" where
  "kkill n signum s = kkill_loop n signum [0..<NPROC] s"

subsection \<open>Waiting for children\<close>

text \<open>
  The scan of \<^verbatim>\<open>kwait\<close> over the table: \<open>Inl r\<close> is its return with \<open>r\<close>, \<open>Inr havekids\<close> the end of
  the loop.
\<close>

primrec kwait_scan :: "nat \<Rightarrow> u64 \<Rightarrow> bool \<Rightarrow> nat list \<Rightarrow> 'a kstate_scheme \<Rightarrow> (i32 + bool, 'a kstate_scheme) outcome" where
  "kwait_scan me addr havekids [] s = Done (Inr havekids) s"
| "kwait_scan me addr havekids (pp # pps) s =
     (if parent (procs s pp) = Some me then
        bnd (acquire (L_proc pp) s) (\<lambda>_ s.
          if state (procs s pp) = ZOMBIE then
            let n = pid (procs s pp) in
            bnd (if addr \<noteq> 0 then copyout (pagetable (procs s me)) addr (word_to_bytes 4 (xstate (procs s pp))) s
                 else Done 0 s) (\<lambda>r s.
              if sint r < 0 then
                bnd (release (L_proc pp) s) (\<lambda>_ s. bnd (release L_wait s) (\<lambda>_ s. Done (Inl (- 1)) s))
              else
                bnd (freeproc pp s) (\<lambda>_ s.
                bnd (release (L_proc pp) s) (\<lambda>_ s. bnd (release L_wait s) (\<lambda>_ s. Done (Inl n) s))))
          else bnd (release (L_proc pp) s) (\<lambda>_ s. kwait_scan me addr True pps s))
      else kwait_scan me addr havekids pps s)"

text \<open>
  One iteration of the loop of \<^verbatim>\<open>kwait\<close>. It returns or suspends the process; when the process is
  resumed, \<open>kwait_resume\<close> goes round the loop again.
\<close>

definition kwait_loop :: "nat \<Rightarrow> u64 \<Rightarrow> 'a kstate_scheme \<Rightarrow> (i32, 'a kstate_scheme) outcome" where
  "kwait_loop me addr s =
     bnd (kwait_scan me addr False [0..<NPROC] s) (\<lambda>r s.
       case r of
         Inl v \<Rightarrow> Done v s
       | Inr havekids \<Rightarrow>
           let give_up = (\<lambda>s. bnd (release L_wait s) (\<lambda>_ s. Done (- 1) s)) in
           if \<not> havekids then give_up s
           else bnd (is_killed me s) (\<lambda>k s.
             if k \<noteq> 0 then give_up s
             else bnd (sleep (Ch_proc me) L_wait s) (\<lambda>_ s. Sleep s)))"

definition kwait :: "u64 \<Rightarrow> 'a kstate_scheme \<Rightarrow> (i32, 'a kstate_scheme) outcome" where
  "kwait addr s = with_myproc s (\<lambda>me. bnd (acquire L_wait s) (\<lambda>_ s. kwait_loop me addr s))"

definition kwait_resume :: "u64 \<Rightarrow> 'a kstate_scheme \<Rightarrow> (i32, 'a kstate_scheme) outcome" where
  "kwait_resume addr s = with_myproc s (\<lambda>me. bnd (sleep_resume L_wait s) (\<lambda>_ s. kwait_loop me addr s))"

subsection \<open>The scheduler\<close>

text \<open>
  One pass of \<^verbatim>\<open>scheduler\<close> over the table. \<open>run p s\<close> is the state in which process \<open>p\<close>, entered in
  state \<open>s\<close>, switches back; the result lists the processes that were run, and \<^verbatim>\<open>found\<close> of the code
  says whether it is empty.
\<close>

primrec scheduler_pass :: "(nat \<Rightarrow> 'a kstate_scheme \<Rightarrow> 'a kstate_scheme) \<Rightarrow> nat list \<Rightarrow>
    'a kstate_scheme \<Rightarrow> (nat list, 'a kstate_scheme) outcome" where
  "scheduler_pass run [] s = Done [] s"
| "scheduler_pass run (p # ps) s =
     bnd (acquire (L_proc p) s) (\<lambda>_ s.
     bnd (if state (procs s p) = RUNNABLE then
            let s = upd_proc p (\<lambda>q. q\<lparr>state := RUNNING\<rparr>) s;
                s = s\<lparr>cur := Some p\<rparr>;
                s = run p s;
                s = s\<lparr>cur := None\<rparr>
            in Done [p] s
          else Done [] s) (\<lambda>ran s.
     bnd (release (L_proc p) s) (\<lambda>_ s.
     bnd (scheduler_pass run ps s) (\<lambda>rest s. Done (ran @ rest) s))))"

definition scheduler_round :: "(nat \<Rightarrow> 'a kstate_scheme \<Rightarrow> 'a kstate_scheme) \<Rightarrow>
    'a kstate_scheme \<Rightarrow> (nat list, 'a kstate_scheme) outcome" where
  "scheduler_round run s = scheduler_pass run [0..<NPROC] (s\<lparr>intr := False\<rparr>)"

subsection \<open>Copies and the process listing\<close>

definition either_copyout :: "bool \<Rightarrow> u64 \<Rightarrow> u8 list \<Rightarrow> 'a kstate_scheme \<Rightarrow> (i32, 'a kstate_scheme) outcome" where
  "either_copyout user_dst dst src s =
     (if user_dst then with_myproc s (\<lambda>p. copyout (pagetable (procs s p)) dst src s)
      else Done 0 (s\<lparr>memory := wr_bytes (memory s) dst src\<rparr>))"

definition either_copyin :: "bool \<Rightarrow> u64 \<Rightarrow> nat \<Rightarrow> 'a kstate_scheme \<Rightarrow> (u8 list \<times> i32, 'a kstate_scheme) outcome" where
  "either_copyin user_src src n s =
     (if user_src then with_myproc s (\<lambda>p. copyin (pagetable (procs s p)) src n s)
      else Done (rd_bytes (memory s) src n, 0) s)"

definition state_name :: "procstate \<Rightarrow> u8 list" where
  "state_name st = str (case st of UNUSED \<Rightarrow> ''unused'' | USED \<Rightarrow> ''used'' | SLEEPING \<Rightarrow> ''sleep ''
     | RUNNABLE \<Rightarrow> ''runble'' | RUNNING \<Rightarrow> ''run   '' | ZOMBIE \<Rightarrow> ''zombie'')"

primrec procdump_loop :: "nat list \<Rightarrow> 'a kstate_scheme \<Rightarrow> (unit, 'a kstate_scheme) outcome" where
  "procdump_loop [] s = Done () s"
| "procdump_loop (p # ps) s =
     (if state (procs s p) = UNUSED then procdump_loop ps s
      else
        bnd (printf (str ''%d %s %s'') [Val (scast (pid (procs s p))),
            Str (Some (state_name (state (procs s p)))), Str (Some (pname (procs s p)))] s) (\<lambda>_ s.
        bnd (printf [10] [] s) (\<lambda>_ s. procdump_loop ps s)))"

definition procdump :: "'a kstate_scheme \<Rightarrow> (unit, 'a kstate_scheme) outcome" where
  "procdump s = bnd (printf [10] [] s) (\<lambda>_ s. procdump_loop [0..<NPROC] s)"

section \<open>Effects\<close>

lemma upd_proc_held [simp]: "upd_proc p f (s\<lparr>held := hs\<rparr>) = (upd_proc p f s)\<lparr>held := hs\<rparr>"
  by (simp add: upd_proc_def)

definition woken :: "chan \<Rightarrow> nat set \<Rightarrow> nat option \<Rightarrow> (nat \<Rightarrow> proc) \<Rightarrow> nat \<Rightarrow> proc" where
  "woken c P me ps i =
     (if i \<in> P \<and> me \<noteq> Some i \<and> state (ps i) = SLEEPING \<and> chan (ps i) = c
      then (ps i)\<lparr>state := RUNNABLE\<rparr> else ps i)"

lemma wakeup_loop_eq:
  "(\<forall>p\<in>set ps. cur s \<noteq> Some p \<longrightarrow> L_proc p \<notin> set (held s)) \<Longrightarrow>
    wakeup_loop c ps s = Done () (s\<lparr>procs := woken c (set ps) (cur s) (procs s)\<rparr>)"
proof (induction ps arbitrary: s)
  case Nil
  have "woken c {} (cur s) (procs s) = procs s" by (auto simp: woken_def fun_eq_iff)
  then show ?case by simp
next
  case (Cons p ps)
  have f: "woken c (set ps) (cur s) (woken c {p} (cur s) (procs s)) = woken c (set (p # ps)) (cur s) (procs s)"
    by (auto simp: woken_def fun_eq_iff)
  have one: "(if cur s \<noteq> Some p then
            bnd (acquire (L_proc p) s) (\<lambda>_ s.
              let s = (if state (procs s p) = SLEEPING \<and> chan (procs s p) = c
                       then upd_proc p (\<lambda>q. q\<lparr>state := RUNNABLE\<rparr>) s else s)
              in release (L_proc p) s)
          else Done () s) = Done () (s\<lparr>procs := woken c {p} (cur s) (procs s)\<rparr>)"
  proof (cases "cur s \<noteq> Some p \<and> state (procs s p) = SLEEPING \<and> chan (procs s p) = c")
    case True
    then have "woken c {p} (cur s) (procs s) = (procs s)(p := (procs s p)\<lparr>state := RUNNABLE\<rparr>)"
      by (auto simp: woken_def fun_eq_iff)
    with True Cons.prems show ?thesis by (simp add: upd_proc_def)
  next
    case False
    then have "woken c {p} (cur s) (procs s) = procs s" by (auto simp: woken_def fun_eq_iff)
    with False Cons.prems show ?thesis by auto
  qed
  show ?case unfolding wakeup_loop.simps one using Cons.IH [of "s\<lparr>procs := woken c {p} (cur s) (procs s)\<rparr>"] Cons.prems f
    by simp
qed

lemma wakeup_eq:
  assumes "\<forall>p<NPROC. cur s \<noteq> Some p \<longrightarrow> L_proc p \<notin> set (held s)"
  shows "wakeup c s = Done () (s\<lparr>procs := woken c {0..<NPROC} (cur s) (procs s)\<rparr>)"
  using wakeup_loop_eq [of "[0..<NPROC]" s c] assms by (simp add: wakeup_def)

lemma sched_not_Done: "sched s \<noteq> Done u s'"
  by (auto simp: sched_def with_myproc_def split: option.splits)

lemma sleep_eq:
  assumes "cur s = Some p" and "held s = [lk]" and "lk \<noteq> L_proc p"
  shows "sleep c lk s = Sleep (upd_proc p (\<lambda>q. q\<lparr>chan := c, state := SLEEPING\<rparr>) s\<lparr>held := [L_proc p]\<rparr>)"
  using assms
  by (simp add: sleep_def sched_def holding_def release_def intr_enabled_def Let_def upd_proc_def)

end
