(* ===== verification/Vm_Frame.thy ===== *)
theory Vm_Frame
  imports Vm
begin

text \<open>
  The memory operations change memory and the free list and nothing else: every one of them, when
  it returns, leaves the locks, the process table and all other kernel state as they were.
\<close>

definition mem_only :: "'a kmem_scheme \<Rightarrow> 'a kmem_scheme \<Rightarrow> bool" where
  "mem_only s s' \<longleftrightarrow> held s' = held s \<and> intr s' = intr s \<and> kend s' = kend s \<and> kmem.more s' = kmem.more s"

lemma mem_only_refl [simp]: "mem_only s s"
  by (simp add: mem_only_def)

lemma mem_only_upd [simp]:
  "mem_only s (s'\<lparr>memory := m\<rparr>) = mem_only s s'" "mem_only s (s'\<lparr>freelist := f\<rparr>) = mem_only s s'"
  "mem_only (s\<lparr>memory := m\<rparr>) s' = mem_only s s'"
  by (simp_all add: mem_only_def)

lemma mem_only_trans [trans]: "mem_only s s1 \<Longrightarrow> mem_only s1 s2 \<Longrightarrow> mem_only s s2"
  by (simp add: mem_only_def)

lemma mem_only_kstate:
  assumes "mem_only s (s' :: 'a kstate_scheme)"
  shows "procs s' = procs s" "cur s' = cur s" "held s' = held s" "intr s' = intr s" "kend s' = kend s"
    "uart_out s' = uart_out s" "panicking s' = panicking s" "panicked s' = panicked s" "syms s' = syms s"
    "kernel_pagetable s' = kernel_pagetable s" "satp s' = satp s" "initproc s' = initproc s"
    "nextpid s' = nextpid s" "tframes s' = tframes s" "ticks s' = ticks s" "global_sem s' = global_sem s"
    "lock_used s' = lock_used s"
  using assms unfolding mem_only_def by (cases s; cases s'; simp)+

text \<open>The operation \<open>f\<close> changes memory and the free list only.\<close>

definition mem_op :: "('a kmem_scheme \<Rightarrow> ('b, 'a kmem_scheme) outcome) \<Rightarrow> bool" where
  "mem_op f \<longleftrightarrow> (\<forall>s r s'. f s = Done r s' \<longrightarrow> mem_only s s')"

lemma mem_opD: "mem_op f \<Longrightarrow> f s = Done r s' \<Longrightarrow> mem_only s s'"
  by (auto simp: mem_op_def)

lemma mem_opI: "(\<And>s r s'. f s = Done r s' \<Longrightarrow> mem_only s s') \<Longrightarrow> mem_op f"
  by (auto simp: mem_op_def)

named_theorems mem_ops \<open>operations that change memory and the free list only\<close>

lemma kalloc_mem_op [mem_ops]: "mem_op kalloc"
proof (rule mem_opI)
  fix s r and s' :: "'a kmem_scheme" assume d: "kalloc s = Done r s'"
  then have "L_kmem \<notin> set (held s)" by (auto simp: kalloc_def acquire_def holding_def)
  with d kalloc_eq [of s] show "mem_only s s'" by (auto split: if_splits)
qed

lemma kfree_mem_op [mem_ops]: "mem_op (kfree p)"
proof (rule mem_opI)
  fix s r and s' :: "'a kmem_scheme" assume d: "kfree p s = Done r s'"
  then have "L_kmem \<notin> set (held s)" "page_ok (kend s) p"
    by (auto simp: kfree_def acquire_def holding_def page_ok_def aligned_def Let_def split: if_splits)
  with d kfree_eq [of s p] show "mem_only s s'" by auto
qed

lemma bnd_mem_op:
  assumes "mem_op f" and "\<And>r s. mem_op (g r)"
  shows "mem_op (\<lambda>s. bnd (f s) g)"
  using assms mem_only_trans unfolding mem_op_def bnd_Done_iff by blast

lemma walk_from_mem_op: "mem_op (walk_from l pt va alloc)"
proof (induction l arbitrary: pt)
  case 0
  then show ?case by (simp add: mem_op_def)
next
  case (Suc l)
  show ?case
  proof (rule mem_opI)
    fix s r and s' :: "'a kmem_scheme" assume d: "walk_from (Suc l) pt va alloc s = Done r s'"
    let ?pte = "pte_addr pt (PX (Suc l) va)"
    consider "walk_from l (PTE2PA (ld64 (memory s) ?pte)) va alloc s = Done r s'" | "s' = s"
      | p s1 where "kalloc s = Done p s1" "s' = s1 \<or> (\<exists>m. walk_from l p va alloc (s1\<lparr>memory := m\<rparr>) = Done r s')"
      using d by (auto simp: Let_def bnd_Done_iff split: if_splits)
    then show "mem_only s s'"
    proof cases
      case 1
      then show ?thesis by (rule mem_opD [OF Suc.IH])
    next
      case (3 p s1)
      have "mem_only s s1" using mem_opD [OF kalloc_mem_op 3(1)] .
      moreover have "mem_only s1 s'" using 3(2) mem_opD [OF Suc.IH] by fastforce
      ultimately show ?thesis by (rule mem_only_trans)
    qed simp
  qed
qed

lemma walk_mem_op [mem_ops]: "mem_op (walk pt va alloc)"
  using walk_from_mem_op [of 2 pt va alloc] by (auto simp: mem_op_def walk_def)

lemma walk_noalloc_state: "walk pt va False s = Done r s' \<Longrightarrow> s' = s"
proof -
  have "walk_from l pt va False s = Done r s' \<Longrightarrow> s' = s" for l pt
    by (induction l arbitrary: pt) (auto simp: Let_def split: if_splits)
  then show "walk pt va False s = Done r s' \<Longrightarrow> s' = s" by (auto simp: walk_def split: if_splits)
qed

lemma mem_op_bnd_step:
  assumes "bnd (f s) g = Done r s'" and "mem_op f"
    and "\<And>x s1. f s = Done x s1 \<Longrightarrow> g x s1 = Done r s' \<Longrightarrow> mem_only s1 s'"
  shows "mem_only s s'"
proof -
  obtain x s1 where x: "f s = Done x s1" "g x s1 = Done r s'" using assms(1) by (rule bnd_DoneE)
  show ?thesis by (rule mem_only_trans [OF mem_opD [OF assms(2) x(1)] assms(3) [OF x]])
qed

lemma mappages_loop_mem_only:
  "mappages_loop pt a lst pa perm s = Done r s' \<Longrightarrow> mem_only s s'"
proof (induction pt a lst pa perm s rule: mappages_loop.induct)
  case (1 pt a lst pa perm s)
  from "1.prems" [unfolded mappages_loop.simps [of pt a]] walk_mem_op show ?case
  proof (rule mem_op_bnd_step)
    fix x s1 assume "walk pt a True s = Done x s1"
    then show "mem_only s1 s'" if "(if x = 0 then Done (- 1) s1
          else if ld64 (memory s1) x AND PTE_V \<noteq> 0 then Panic ''mappages: remap''
          else let s = s1\<lparr>memory := st64 (memory s1) x (PA2PTE pa OR perm OR PTE_V)\<rparr>
               in if a = lst then Done 0 s else mappages_loop pt (a + PGSIZE) lst (pa + PGSIZE) perm s) = Done r s'"
      using that "1.IH" [of x s1] by (auto simp: Let_def split: if_splits)
  qed
qed

lemma mappages_mem_op [mem_ops]: "mem_op (mappages pt va n pa perm)"
  using mappages_loop_mem_only by (auto simp: mem_op_def mappages_def split: if_splits)

lemma kvmmap_mem_op [mem_ops]: "mem_op (kvmmap pt va pa n perm)"
proof (rule mem_opI)
  fix s r and s' :: "'a kmem_scheme" assume "kvmmap pt va pa n perm s = Done r s'"
  from this [unfolded kvmmap_def] mappages_mem_op show "mem_only s s'"
    by (rule mem_op_bnd_step) (auto split: if_splits)
qed

lemma uvmcreate_mem_op [mem_ops]: "mem_op uvmcreate"
proof (rule mem_opI)
  fix s r and s' :: "'a kmem_scheme" assume "uvmcreate s = Done r s'"
  from this [unfolded uvmcreate_def] kalloc_mem_op show "mem_only s s'"
    by (rule mem_op_bnd_step) (auto split: if_splits)
qed

lemma free_if_mem_op: "mem_op (\<lambda>s. if b then kfree (p s) s else Done () s)"
  using kfree_mem_op by (auto simp: mem_op_def)

lemma uvmunmap_loop_mem_only:
  "uvmunmap_loop pt a limit do_free s = Done r s' \<Longrightarrow> mem_only s s'"
proof (induction pt a limit do_free s rule: uvmunmap_loop.induct)
  case (1 pt a limit do_free s)
  show ?case
  proof (cases "a < limit")
    case False
    then show ?thesis using "1.prems" by (simp add: uvmunmap_loop.simps [of pt a])
  next
    case True
    with "1.prems" obtain pte where pte: "walk pt a False s = Done pte s" and
      rest: "(if pte = 0 \<or> ld64 (memory s) pte AND PTE_V = 0 then uvmunmap_loop pt (a + PGSIZE) limit do_free s
        else bnd (if do_free then kfree (PTE2PA (ld64 (memory s) pte)) s else Done () s) (\<lambda>_ s.
          uvmunmap_loop pt (a + PGSIZE) limit do_free (s\<lparr>memory := st64 (memory s) pte 0\<rparr>))) = Done r s'"
      using walk_noalloc_state by (fastforce simp: uvmunmap_loop.simps [of pt a] bnd_Done_iff Let_def split: if_splits)
    show ?thesis
    proof (cases "pte = 0 \<or> ld64 (memory s) pte AND PTE_V = 0")
      case c: True
      then show ?thesis using "1.IH"(1) [OF _ pte] "1.IH"(2) [OF _ pte] True rest by auto
    next
      case c: False
      then have "bnd ((\<lambda>s. if do_free then kfree (PTE2PA (ld64 (memory s) pte)) s else Done () s) s) (\<lambda>_ s.
          uvmunmap_loop pt (a + PGSIZE) limit do_free (s\<lparr>memory := st64 (memory s) pte 0\<rparr>)) = Done r s'"
        using rest by simp
      from this free_if_mem_op show ?thesis
        by (rule mem_op_bnd_step) (use "1.IH"(3) [OF _ pte] True c in fastforce)
    qed
  qed
qed

lemma uvmunmap_mem_op [mem_ops]: "mem_op (uvmunmap pt va n f)"
  using uvmunmap_loop_mem_only by (auto simp: mem_op_def uvmunmap_def split: if_splits)

lemma uvmdealloc_mem_op [mem_ops]: "mem_op (uvmdealloc pt a b)"
  by (rule mem_opI) (auto simp: uvmdealloc_def bnd_Done_iff Let_def split: if_splits
      dest: mem_opD [OF uvmunmap_mem_op])

lemma uvmalloc_loop_mem_only:
  "uvmalloc_loop pt a oldsz newsz xperm s = Done r s' \<Longrightarrow> mem_only s s'"
proof (induction pt a oldsz newsz xperm s rule: uvmalloc_loop.induct)
  case (1 pt a oldsz newsz xperm s)
  show ?case
  proof (cases "a < newsz")
    case False
    then show ?thesis using "1.prems" by (simp add: uvmalloc_loop.simps [of pt a])
  next
    case True
    obtain p s1 where k: "kalloc s = Done p s1"
      using "1.prems" True by (auto simp: uvmalloc_loop.simps [of pt a] bnd_Done_iff)
    note m1 = mem_opD [OF kalloc_mem_op k]
    show ?thesis
    proof (cases "p = 0")
      case z: True
      then have "\<exists>v. uvmdealloc pt a oldsz s1 = Done v s'"
        using "1.prems" True k by (auto simp: uvmalloc_loop.simps [of pt a] bnd_Done_iff)
      then show ?thesis using mem_only_trans [OF m1] mem_opD [OF uvmdealloc_mem_op] by blast
    next
      case nz: False
      let ?s1 = "s1\<lparr>memory := memset (memory s1) p 0 (unat PGSIZE)\<rparr>"
      obtain v s2 where m: "mappages pt a PGSIZE p (PTE_R OR PTE_U OR xperm) ?s1 = Done v s2"
        using "1.prems" True k nz by (auto simp: uvmalloc_loop.simps [of pt a] bnd_Done_iff)
      have m2: "mem_only s s2" using m1 mem_opD [OF mappages_mem_op m] by (simp add: mem_only_def)
      have rest: "(if v \<noteq> 0 then bnd (kfree p s2) (\<lambda>_ s. bnd (uvmdealloc pt a oldsz s) (\<lambda>_ s. Done 0 s))
          else uvmalloc_loop pt (a + PGSIZE) oldsz newsz xperm s2) = Done r s'"
        using "1.prems" True k nz m by (simp add: uvmalloc_loop.simps [of pt a] Let_def)
      have "mem_only s2 s'"
      proof (cases "v = 0")
        case v: True
        then show ?thesis using "1.IH" [OF _ k nz refl m] True rest by simp
      next
        case False
        then show ?thesis using rest
          by (auto simp: bnd_Done_iff dest!: mem_opD [OF kfree_mem_op] mem_opD [OF uvmdealloc_mem_op] intro: mem_only_trans)
      qed
      then show ?thesis by (rule mem_only_trans [OF m2])
    qed
  qed
qed

lemma uvmalloc_mem_op [mem_ops]: "mem_op (uvmalloc pt a b p)"
  by (rule mem_opI) (auto simp: uvmalloc_def split: if_splits dest: uvmalloc_loop_mem_only)

lemma freewalk_loop_mem_only:
  assumes "\<And>c. mem_op (rec c)"
  shows "freewalk_loop rec pt is s = Done r s' \<Longrightarrow> mem_only s s'"
proof (induction "is" arbitrary: s)
  case (Cons i "is")
  let ?e = "ld64 (memory s) (pte_addr pt (word_of_nat i))"
  consider "freewalk_loop rec pt is s = Done r s'"
    | s1 where "rec (PTE2PA ?e) s = Done () s1"
      "freewalk_loop rec pt is (s1\<lparr>memory := st64 (memory s1) (pte_addr pt (word_of_nat i)) 0\<rparr>) = Done r s'"
    using Cons.prems by (auto simp: Let_def bnd_Done_iff split: if_splits)
  then show ?case
  proof cases
    case 1
    then show ?thesis by (rule Cons.IH)
  next
    case (2 s1)
    from Cons.IH [OF 2(2)] mem_opD [OF assms 2(1)] show ?thesis by (simp add: mem_only_def)
  qed
qed simp

lemma freewalk_mem_op [mem_ops]: "mem_op (freewalk pt)"
proof -
  have "mem_op (freewalk_depth d pt :: 'a kmem_scheme \<Rightarrow> _)" for d pt
  proof (induction d arbitrary: pt)
    case (Suc d)
    show ?case
    proof (rule mem_opI)
      fix s r and s' :: "'a kmem_scheme" assume "freewalk_depth (Suc d) pt s = Done r s'"
      then obtain s1 where f: "freewalk_loop (freewalk_depth d) pt [0..<512] s = Done () s1"
        and k: "kfree pt s1 = Done r s'" by (auto simp: bnd_Done_iff)
      from freewalk_loop_mem_only [OF Suc.IH f] mem_opD [OF kfree_mem_op k] show "mem_only s s'"
        by (rule mem_only_trans)
    qed
  qed (simp add: mem_op_def)
  then show ?thesis by (simp add: freewalk_def [abs_def])
qed

lemma uvmfree_mem_op [mem_ops]: "mem_op (uvmfree pt n)"
  by (rule mem_opI) (auto simp: uvmfree_def bnd_Done_iff split: if_splits
      dest!: mem_opD [OF uvmunmap_mem_op] mem_opD [OF freewalk_mem_op] intro: mem_only_trans)

lemma uvmcopy_loop_mem_only:
  "uvmcopy_loop old new i n s = Done r s' \<Longrightarrow> mem_only s s'"
proof (induction old new i n s rule: uvmcopy_loop.induct)
  case (1 old new i n s)
  show ?case
  proof (cases "i < n")
    case False
    then show ?thesis using "1.prems" by (simp add: uvmcopy_loop.simps [of old new i])
  next
    case True
    obtain pte where pte: "walk old i False s = Done pte s"
      using "1.prems" True walk_noalloc_state by (fastforce simp: uvmcopy_loop.simps [of old new i] bnd_Done_iff)
    let ?e = "ld64 (memory s) pte"
    show ?thesis
    proof (cases "pte = 0 \<or> ?e AND PTE_V = 0")
      case c: True
      then show ?thesis using "1.IH"(1,2) [OF _ pte] True "1.prems" pte
        by (auto simp: uvmcopy_loop.simps [of old new i] split: if_splits)
    next
      case c: False
      obtain p s1 where k: "kalloc s = Done p s1"
        using "1.prems" True pte c by (auto simp: uvmcopy_loop.simps [of old new i] bnd_Done_iff Let_def)
      note m1 = mem_opD [OF kalloc_mem_op k]
      let ?s1 = "s1\<lparr>memory := memmove (memory s1) p (PTE2PA ?e) (unat PGSIZE)\<rparr>"
      let ?err = "\<lambda>s. bnd (uvmunmap new 0 (i div PGSIZE) True s) (\<lambda>_ s. Done (- 1) s)"
      have err: "mem_only t s'" if "?err t = Done r s'" for t
        using that by (auto simp: bnd_Done_iff dest: mem_opD [OF uvmunmap_mem_op])
      show ?thesis
      proof (cases "p = 0")
        case z: True
        then have "?err s1 = Done r s'"
          using "1.prems" True pte c k by (simp add: uvmcopy_loop.simps [of old new i] Let_def)
        then show ?thesis using err mem_only_trans [OF m1] by blast
      next
        case nz: False
        have all: "bnd (mappages new i PGSIZE p (PTE_FLAGS ?e) ?s1) (\<lambda>v s.
            if v \<noteq> 0 then bnd (kfree p s) (\<lambda>_ s. ?err s) else uvmcopy_loop old new (i + PGSIZE) n s) = Done r s'"
          using "1.prems" True pte c k nz by (simp add: uvmcopy_loop.simps [of old new i] Let_def)
        have "mem_only ?s1 s'"
        proof (rule mem_op_bnd_step [OF all mappages_mem_op])
          fix v s2 assume m: "mappages new i PGSIZE p (PTE_FLAGS ?e) ?s1 = Done v s2"
            and rest: "(if v \<noteq> 0 then bnd (kfree p s2) (\<lambda>_ s. ?err s) else uvmcopy_loop old new (i + PGSIZE) n s2) = Done r s'"
          show "mem_only s2 s'"
          proof (cases "v = 0")
            case v: True
            then show ?thesis using "1.IH"(3) [OF _ pte _ _ refl refl refl k nz refl m] True c rest by simp
          next
            case False
            with rest have "bnd (kfree p s2) (\<lambda>_ s. ?err s) = Done r s'" by simp
            from this kfree_mem_op show ?thesis by (rule mem_op_bnd_step) (rule err)
          qed
        qed
        then show ?thesis using m1 by (simp add: mem_only_def)
      qed
    qed
  qed
qed

lemma uvmcopy_mem_op [mem_ops]: "mem_op (uvmcopy old new n)"
  by (rule mem_opI) (auto simp: uvmcopy_def dest: uvmcopy_loop_mem_only)

lemma ismapped_state: "ismapped pt va s = Done r s' \<Longrightarrow> s' = s"
  by (auto simp: ismapped_def bnd_Done_iff split: if_splits dest!: walk_noalloc_state)

lemma walkaddr_state: "walkaddr pt va s = Done r s' \<Longrightarrow> s' = s"
  by (auto simp: walkaddr_def bnd_Done_iff split: if_splits dest!: walk_noalloc_state)

lemma vmfault_mem_op [mem_ops]: "mem_op (vmfault pt va)"
proof (rule mem_opI)
  fix s r and s' :: "'a kstate_scheme" assume d: "vmfault pt va s = Done r s'"
  then obtain me where me: "cur s = Some me" by (cases "cur s") (auto simp: vmfault_def)
  show "mem_only s s'"
  proof (cases "sz (procs s me) \<le> va")
    case True
    then show ?thesis using d me by (simp add: vmfault_def)
  next
    case False
    let ?va = "PGROUNDDOWN va"
    obtain m where m: "ismapped pt ?va s = Done m s"
      using d me False ismapped_state by (fastforce simp: vmfault_def bnd_Done_iff Let_def)
    show ?thesis
    proof (cases m)
      case True
      then show ?thesis using d me False m by (simp add: vmfault_def Let_def)
    next
      case nm: False
      then have "bnd (kalloc s) (\<lambda>p s. if p = 0 then Done 0 s
          else bnd (mappages (pagetable (procs (s\<lparr>memory := memset (memory s) p 0 (unat PGSIZE)\<rparr>) me)) ?va
              PGSIZE p (PTE_W OR PTE_U OR PTE_R)
              (s\<lparr>memory := memset (memory s) p 0 (unat PGSIZE)\<rparr>)) (\<lambda>r s.
            if r \<noteq> 0 then bnd (kfree p s) (\<lambda>_ s. Done 0 s) else Done p s)) = Done r s'"
        using d [unfolded vmfault_def Let_def] me False m by simp
      from this kalloc_mem_op show ?thesis
        by (rule mem_op_bnd_step)
          (auto simp: bnd_Done_iff split: if_splits dest!: mem_opD [OF mappages_mem_op] mem_opD [OF kfree_mem_op]
            intro: mem_only_trans)
    qed
  qed
qed

lemma user_frame_mem_op [mem_ops]: "mem_op (user_frame pt va)"
  by (rule mem_opI) (auto simp: user_frame_def bnd_Done_iff split: if_splits
      dest!: walkaddr_state mem_opD [OF vmfault_mem_op])

lemma copyout_mem_op [mem_ops]: "mem_op (copyout pt va src)"
proof (rule mem_opI)
  fix s r and s' :: "'a kstate_scheme"
  show "copyout pt va src s = Done r s' \<Longrightarrow> mem_only s s'"
  proof (induction pt va src s rule: copyout.induct)
    case (1 pt va src s)
    show ?case
    proof (cases "src = [] \<or> PGROUNDDOWN va \<ge> MAXVA")
      case True
      then show ?thesis using "1.prems" by (auto simp: copyout.simps [of pt va] Let_def split: if_splits)
    next
      case False
      then have b: "bnd (user_frame pt (PGROUNDDOWN va) s) (\<lambda>pa0 s.
          if pa0 = 0 then Done (- 1) s
          else bnd (walk pt (PGROUNDDOWN va) False s) (\<lambda>pte s.
            if pte = 0 then Panic ''kerneltrap''
            else if ld64 (memory s) pte AND PTE_W = 0 then Done (- 1) s
            else copyout pt (PGROUNDDOWN va + PGSIZE) (drop (page_part va (length src)) src)
              (s\<lparr>memory := wr_bytes (memory s) (pa0 + (va - PGROUNDDOWN va)) (take (page_part va (length src)) src)\<rparr>)))
          = Done r s'"
        using "1.prems" [unfolded copyout.simps [of pt va] Let_def] by simp
      show ?thesis
      proof (rule mem_op_bnd_step [OF b user_frame_mem_op])
        fix pa0 s1 assume u: "user_frame pt (PGROUNDDOWN va) s = Done pa0 s1"
          and rest: "(if pa0 = 0 then Done (- 1) s1
          else bnd (walk pt (PGROUNDDOWN va) False s1) (\<lambda>pte s.
            if pte = 0 then Panic ''kerneltrap''
            else if ld64 (memory s) pte AND PTE_W = 0 then Done (- 1) s
            else copyout pt (PGROUNDDOWN va + PGSIZE) (drop (page_part va (length src)) src)
              (s\<lparr>memory := wr_bytes (memory s) (pa0 + (va - PGROUNDDOWN va)) (take (page_part va (length src)) src)\<rparr>)))
          = Done r s'"
        show "mem_only s1 s'"
        proof (cases "pa0 = 0")
          case False
          then obtain pte where "walk pt (PGROUNDDOWN va) False s1 = Done pte s1"
            using rest walk_noalloc_state by (fastforce simp: bnd_Done_iff)
          then show ?thesis using rest "1.IH" [OF _ refl _ u _ _ _ _ refl refl] False \<open>\<not> (src = [] \<or> _)\<close>
            by (auto split: if_splits)
        qed (use rest in simp)
      qed
    qed
  qed
qed

lemma copyin_mem_op [mem_ops]: "mem_op (copyin pt va n)"
proof (rule mem_opI)
  fix s r and s' :: "'a kstate_scheme"
  show "copyin pt va n s = Done r s' \<Longrightarrow> mem_only s s'"
  proof (induction pt va n s arbitrary: r rule: copyin.induct)
    case (1 pt va n s)
    show ?case
    proof (cases "n = 0")
      case True
      then show ?thesis using "1.prems" by (simp add: copyin.simps)
    next
      case False
      then obtain pa0 s1 where u: "user_frame pt (PGROUNDDOWN va) s = Done pa0 s1" and
        rest: "pa0 = 0 \<and> s' = s1 \<or> pa0 \<noteq> 0 \<and> (\<exists>v. copyin pt (PGROUNDDOWN va + PGSIZE) (n - page_part va n) s1 = Done v s')"
        using "1.prems" by (auto simp: copyin.simps [of pt va] bnd_Done_iff Let_def split: if_splits prod.splits)
      have "mem_only s1 s'" using rest "1.IH" [OF False refl u _ refl refl] by auto
      then show ?thesis by (rule mem_only_trans [OF mem_opD [OF user_frame_mem_op u]])
    qed
  qed
qed

lemma copyinstr_state: "copyinstr pt va n s = Done r s' \<Longrightarrow> s' = s"
proof (induction pt va n s arbitrary: r rule: copyinstr.induct)
  case (1 pt va n s)
  then show ?case
    by (subst (asm) copyinstr.simps [of pt va n]) (fastforce simp: bnd_Done_iff Let_def split: if_splits prod.splits dest: walkaddr_state)
qed

end
