(* ===== verification/Proc_Facts.thy ===== *)
theory Proc_Facts
  imports Proc Vm_Frame "HOL-Library.Sublist"
begin

text \<open>
  Properties of the process table operations: what waking, killing, waiting and scheduling do to
  every slot of the table.
\<close>

section \<open>Locks of the process table\<close>

definition no_proc_locks :: "'a kstate_scheme \<Rightarrow> bool" where
  "no_proc_locks s \<longleftrightarrow> (\<forall>p<NPROC. L_proc p \<notin> set (held s))"

section \<open>Freeing and allocating a slot\<close>

lemma proc_freepagetable_mem_op [mem_ops]: "mem_op (proc_freepagetable pt n)"
  unfolding proc_freepagetable_def
  by (rule mem_opI) (auto elim!: bnd_DoneE dest!: mem_opD [OF uvmunmap_mem_op] mem_opD [OF uvmfree_mem_op] intro: mem_only_trans)

definition proc_freed :: "proc \<Rightarrow> proc" where
  "proc_freed q = q\<lparr>trapframe := 0, pagetable := 0, sz := 0, pid := 0, parent := None, pname := [],
     chan := NoChan, killed := 0, xstate := 0, state := UNUSED\<rparr>"

lemma freeproc_frame:
  assumes "freeproc p s = Done () t"
  shows "held t = held s \<and> cur t = cur s \<and> nextpid t = nextpid s \<and> procs t = (procs s)(p := proc_freed (procs s p))"
proof -
  let ?u = "upd_proc p (\<lambda>q. q\<lparr>trapframe := 0\<rparr>)"
  obtain s1 s2 where 1: "(if trapframe (procs s p) \<noteq> 0 then kfree (trapframe (procs s p)) s else Done () s) = Done () s1"
    and 2: "(if pagetable (procs (?u s1) p) \<noteq> 0 then proc_freepagetable (pagetable (procs (?u s1) p)) (sz (procs (?u s1) p)) (?u s1)
            else Done () (?u s1)) = Done () s2"
    and t: "t = upd_proc p (\<lambda>q. q\<lparr>pagetable := 0, sz := 0, pid := 0, parent := None, pname := [],
           chan := NoChan, killed := 0, xstate := 0, state := UNUSED\<rparr>) s2"
    using assms by (auto simp: freeproc_def Let_def bnd_Done_iff)
  have "mem_only s s1" using 1 by (auto split: if_splits dest: mem_opD [OF kfree_mem_op])
  note a = mem_only_kstate [OF this]
  have "mem_only (?u s1) s2" using 2 by (auto split: if_splits dest: mem_opD [OF proc_freepagetable_mem_op])
  note b = mem_only_kstate [OF this]
  show ?thesis by (simp add: t proc_freed_def upd_proc_def fun_eq_iff a b)
qed

lemma proc_pagetable_frame:
  assumes "proc_pagetable p s = Done pt t"
  shows "mem_only s t"
  using assms [unfolded proc_pagetable_def]
  by (auto elim!: bnd_DoneE split: if_splits
      dest!: mem_opD [OF uvmcreate_mem_op] mem_opD [OF mappages_mem_op] mem_opD [OF uvmfree_mem_op] mem_opD [OF uvmunmap_mem_op])
    (simp_all add: mem_only_def)

lemma allocproc_scan_eq:
  assumes "\<forall>p\<in>set ps. L_proc p \<notin> set (held s)"
  shows "allocproc_scan ps s = (case find (\<lambda>p. state (procs s p) = UNUSED) ps of
    None \<Rightarrow> Done None s | Some p \<Rightarrow> Done (Some p) (s\<lparr>held := L_proc p # held s\<rparr>))"
  using assms by (induction ps) auto

lemma allocpid_eq:
  assumes "L_pid \<notin> set (held s)"
  shows "allocpid s = Done (nextpid s) (s\<lparr>nextpid := nextpid s + 1\<rparr>)"
  using assms by (simp add: allocpid_def Let_def)

text \<open>The outcome of \<open>allocproc\<close> on the table: a slot claimed, or every slot as it was.\<close>

definition slot_claimed :: "nat \<Rightarrow> 'a kstate_scheme \<Rightarrow> 'a kstate_scheme \<Rightarrow> bool" where
  "slot_claimed p s t \<longleftrightarrow> held t = L_proc p # held s \<and> state (procs t p) = USED
     \<and> pid (procs t p) = nextpid s \<and> trapframe (procs t p) \<noteq> 0 \<and> pagetable (procs t p) \<noteq> 0
     \<and> ctx (procs t p) = (\<lambda>_. 0)(Ctx_ra := forkret_pc (syms s), Ctx_sp := kstack (procs s p) + PGSIZE)
     \<and> (\<forall>q. q \<noteq> p \<longrightarrow> procs t q = procs s q)"

definition slot_returned :: "nat \<Rightarrow> 'a kstate_scheme \<Rightarrow> 'a kstate_scheme \<Rightarrow> bool" where
  "slot_returned p s t \<longleftrightarrow> held t = held s \<and> procs t p = proc_freed (procs t p) \<and> (\<forall>q. q \<noteq> p \<longrightarrow> procs t q = procs s q)"

lemma alloc_fail_frame:
  assumes "bnd (freeproc p s1) (\<lambda>_ s. bnd (release (L_proc p) s) (\<lambda>_ s. Done None s)) = Done r t"
    and "held s1 = L_proc p # held s" and "\<forall>q. q \<noteq> p \<longrightarrow> procs s1 q = procs s q"
  shows "r = None \<and> slot_returned p s t \<and> nextpid t = nextpid s1"
proof -
  obtain s2 where "freeproc p s1 = Done () s2" "bnd (release (L_proc p) s2) (\<lambda>_ s. Done None s) = Done r t"
    using assms(1) by (auto elim: bnd_DoneE)
  then show ?thesis using freeproc_frame [of p s1 s2] assms(2,3)
    by (auto simp: slot_returned_def proc_freed_def)
qed

lemma allocproc_body_frame:
  assumes "bnd (kalloc s1) (\<lambda>tf s.
      let s = upd_proc p (\<lambda>q. q\<lparr>trapframe := tf\<rparr>) s in
      if tf = 0 then bnd (freeproc p s) (\<lambda>_ s. bnd (release (L_proc p) s) (\<lambda>_ s. Done None s))
      else
        let s = s\<lparr>tframes := (tframes s)(tf := (\<lambda>_. 0x0505050505050505))\<rparr> in
        bnd (proc_pagetable p s) (\<lambda>pt s.
          let s = upd_proc p (\<lambda>q. q\<lparr>pagetable := pt\<rparr>) s in
          if pt = 0 then bnd (freeproc p s) (\<lambda>_ s. bnd (release (L_proc p) s) (\<lambda>_ s. Done None s))
          else
            let s = upd_proc p (\<lambda>q. q\<lparr>ctx := (\<lambda>_. 0)\<rparr>) s;
                s = upd_proc p (\<lambda>q. q\<lparr>ctx := (ctx q)(Ctx_ra := forkret_pc (syms s))\<rparr>) s;
                s = upd_proc p (\<lambda>q. q\<lparr>ctx := (ctx q)(Ctx_sp := kstack q + PGSIZE)\<rparr>) s
            in Done (Some p) s)) = Done r t"
    and s1: "s1 = upd_proc p (\<lambda>q. q\<lparr>pid := n, state := USED\<rparr>) s\<lparr>held := L_proc p # held s, nextpid := n + 1\<rparr>"
    and "n = nextpid s"
  shows "nextpid t = n + 1 \<and> (case r of Some q \<Rightarrow> q = p \<and> slot_claimed p s t | None \<Rightarrow> slot_returned p s t)"
proof -
  let ?fail = "\<lambda>s. bnd (freeproc p s) (\<lambda>_ s. bnd (release (L_proc p) s) (\<lambda>_ s. Done None s))"
  obtain tf s2 where k: "kalloc s1 = Done tf s2" using assms(1) by (rule bnd_DoneE)
  note a = mem_only_kstate [OF mem_opD [OF kalloc_mem_op k]]
  let ?s2 = "upd_proc p (\<lambda>q. q\<lparr>trapframe := tf\<rparr>) s2"
  have h2: "held ?s2 = L_proc p # held s" "\<forall>q. q \<noteq> p \<longrightarrow> procs ?s2 q = procs s q" "nextpid ?s2 = n + 1"
    by (simp_all add: a s1 upd_proc_def)
  show ?thesis
  proof (cases "tf = 0")
    case True
    then have "?fail ?s2 = Done r t" using assms(1) k by (simp add: Let_def)
    from alloc_fail_frame [OF this h2(1,2)] show ?thesis using h2(3) by simp
  next
    case False
    let ?s3 = "?s2\<lparr>tframes := (tframes ?s2)(tf := (\<lambda>_. 0x0505050505050505))\<rparr>"
    obtain pt s4 where pt: "proc_pagetable p ?s3 = Done pt s4"
      and rest: "(if pt = 0 then ?fail (upd_proc p (\<lambda>q. q\<lparr>pagetable := pt\<rparr>) s4)
         else Done (Some p) (upd_proc p (\<lambda>q. q\<lparr>pagetable := pt,
            ctx := (\<lambda>_. 0)(Ctx_ra := forkret_pc (syms s4), Ctx_sp := kstack q + PGSIZE)\<rparr>) s4)) = Done r t"
    proof -
      have "bnd (proc_pagetable p ?s3) (\<lambda>pt s. if pt = 0 then ?fail (upd_proc p (\<lambda>q. q\<lparr>pagetable := pt\<rparr>) s)
         else Done (Some p) (upd_proc p (\<lambda>q. q\<lparr>pagetable := pt,
            ctx := (\<lambda>_. 0)(Ctx_ra := forkret_pc (syms s), Ctx_sp := kstack q + PGSIZE)\<rparr>) s)) = Done r t"
        using assms(1) [unfolded Let_def k bnd.simps if_not_P [OF False]] by (simp add: upd_proc_def cong: if_cong)
      then show thesis by (rule bnd_DoneE) (rule that)
    qed
    note b = mem_only_kstate [OF proc_pagetable_frame [OF pt]]
    show ?thesis
    proof (cases "pt = 0")
      case True
      from alloc_fail_frame [of p "upd_proc p (\<lambda>q. q\<lparr>pagetable := pt\<rparr>) s4" r t s] show ?thesis
        using rest True h2 by (simp add: b)
    next
      case False
      then show ?thesis using rest h2 \<open>tf \<noteq> 0\<close> by (auto simp: slot_claimed_def b a s1 assms(3))
    qed
  qed
qed



section \<open>Waking\<close>

text \<open>
  C24 (functional): wakeup makes runnable exactly the processes other than the caller that sleep on
  the channel, and changes nothing else.
\<close>

theorem wakeup_exact:
  assumes "no_proc_locks s"
  shows "wakeup c s = Done () (s\<lparr>procs := (\<lambda>i.
      if i < NPROC \<and> cur s \<noteq> Some i \<and> state (procs s i) = SLEEPING \<and> chan (procs s i) = c
      then (procs s i)\<lparr>state := RUNNABLE\<rparr> else procs s i)\<rparr>)"
proof -
  have "woken c {0..<NPROC} (cur s) (procs s) = (\<lambda>i.
      if i < NPROC \<and> cur s \<noteq> Some i \<and> state (procs s i) = SLEEPING \<and> chan (procs s i) = c
      then (procs s i)\<lparr>state := RUNNABLE\<rparr> else procs s i)"
    by (auto simp: woken_def fun_eq_iff)
  then show ?thesis using wakeup_eq [of s c] assms by (simp add: no_proc_locks_def)
qed

definition two_procs :: kstate where
  "two_procs = blank_kstate\<lparr>cur := Some 0, procs := (\<lambda>i.
     if i = 0 then blank_proc\<lparr>state := RUNNING, pid := 1\<rparr>
     else if i = 1 then blank_proc\<lparr>state := SLEEPING, chan := Ch_ticks, pid := 2, parent := Some 0\<rparr>
     else blank_proc)\<rparr>"

theorem wakeup_exact_witness:
  "\<exists>s'. wakeup Ch_ticks two_procs = Done () s' \<and> state (procs s' 1) = RUNNABLE"
proof -
  have "no_proc_locks two_procs" by (simp add: no_proc_locks_def two_procs_def blank_kstate_def)
  from wakeup_exact [OF this] show ?thesis by (simp add: two_procs_def NPROC_def)
qed



section \<open>Signals sent by kill\<close>

lemma kkill_loop_eq:
  "(\<forall>p\<in>set ps. L_proc p \<notin> set (held s)) \<Longrightarrow>
    kkill_loop n signum ps s = (case find (\<lambda>p. pid (procs s p) = n) ps of
      None \<Rightarrow> Done (- 1) s
    | Some p \<Rightarrow> Done 0 (upd_proc p (\<lambda>q. q\<lparr>pending_signals := pending_signals q OR push_bit (unat signum) 1,
        state := (if state q = SLEEPING then RUNNABLE else state q)\<rparr>) s))"
  by (induction ps) (auto simp: upd_proc_def Let_def)

text \<open>
  C25 (functional): kkill marks the signal pending for the first slot of the table with the pid,
  and makes that process runnable if it sleeps; nothing else changes. With no such slot it
  returns -1 and changes nothing. In particular it never sets the killed flag.
\<close>

theorem kkill_exact:
  assumes "no_proc_locks s"
  shows "kkill n signum s = (case find (\<lambda>p. pid (procs s p) = n) [0..<NPROC] of
      None \<Rightarrow> Done (- 1) s
    | Some p \<Rightarrow> Done 0 (upd_proc p (\<lambda>q. q\<lparr>pending_signals := pending_signals q OR push_bit (unat signum) 1,
        state := (if state q = SLEEPING then RUNNABLE else state q)\<rparr>) s))"
  using assms kkill_loop_eq [of "[0..<NPROC]" s n signum] by (simp add: kkill_def no_proc_locks_def)

lemma NPROC_Suc2: "[0..<NPROC] = 0 # 1 # [2..<NPROC]"
  by (simp add: NPROC_def upt_rec)

theorem kkill_exact_witness:
  "\<exists>s'. kkill 2 9 two_procs = Done 0 s' \<and> pending_signals (procs s' 1) = push_bit 9 1
     \<and> state (procs s' 1) = RUNNABLE \<and> killed (procs s' 1) = 0"
proof -
  have "no_proc_locks two_procs" by (simp add: no_proc_locks_def two_procs_def blank_kstate_def)
  from kkill_exact [OF this, of 2 9] show ?thesis
    unfolding NPROC_Suc2 by (simp add: two_procs_def blank_proc_def upd_proc_def)
qed

section \<open>Waiting\<close>

lemma kwait_scan_no_zombie:
  assumes "\<forall>q\<in>set ps. parent (procs s q) = Some me \<longrightarrow> state (procs s q) \<noteq> ZOMBIE"
    and "\<forall>q\<in>set ps. L_proc q \<notin> set (held s)"
  shows "kwait_scan me addr hk ps s = Done (Inr (hk \<or> (\<exists>q\<in>set ps. parent (procs s q) = Some me))) s"
  using assms by (induction ps arbitrary: hk) auto

lemma kwait_scan_zombie:
  assumes "\<forall>q\<in>set ps. parent (procs s q) = Some me \<longrightarrow> state (procs s q) \<noteq> ZOMBIE"
    and "\<forall>q\<in>set (ps @ [z]). L_proc q \<notin> set (held s)"
    and "parent (procs s z) = Some me" and "state (procs s z) = ZOMBIE"
    and "freeproc z (s\<lparr>held := L_proc z # held s\<rparr>) = Done () t" and "held t = L_proc z # L_wait # hs"
  shows "kwait_scan me 0 hk (ps @ z # qs) s = Done (Inl (pid (procs s z))) (t\<lparr>held := hs\<rparr>)"
  using assms(1,2)
proof (induction ps arbitrary: hk)
  case Nil
  then show ?case using assms(3-6) by simp
next
  case (Cons q ps)
  then show ?case by auto
qed

text \<open>
  C17 (functional): wait on each branch, for a caller that asks for no exit status and holds no
  locks. With no child it returns -1 and changes nothing. With children, none of them a zombie, a
  killed caller gets -1 and any other caller goes to sleep on its own process structure. With a
  zombie child, the first one in the table is freed and its pid returned.
\<close>

theorem kwait_branches:
  assumes "cur s = Some me" and "held s = []" and "me < NPROC"
  shows "((\<forall>q<NPROC. parent (procs s q) \<noteq> Some me) \<longrightarrow> kwait 0 s = Done (- 1) s)
    \<and> ((\<exists>q<NPROC. parent (procs s q) = Some me) \<and>
        (\<forall>q<NPROC. parent (procs s q) = Some me \<longrightarrow> state (procs s q) \<noteq> ZOMBIE) \<longrightarrow>
        kwait 0 s = (if killed (procs s me) \<noteq> 0 then Done (- 1) s
          else Sleep (upd_proc me (\<lambda>q. q\<lparr>chan := Ch_proc me, state := SLEEPING\<rparr>) s\<lparr>held := [L_proc me]\<rparr>)))
    \<and> (\<forall>z t. z < NPROC \<and> parent (procs s z) = Some me \<and> state (procs s z) = ZOMBIE
        \<and> (\<forall>q<z. parent (procs s q) = Some me \<longrightarrow> state (procs s q) \<noteq> ZOMBIE)
        \<and> freeproc z (s\<lparr>held := [L_proc z, L_wait]\<rparr>) = Done () t \<longrightarrow>
        kwait 0 s = Done (pid (procs s z)) (t\<lparr>held := []\<rparr>)
        \<and> procs t = (procs s)(z := proc_freed (procs s z)))"
proof -
  let ?s = "s\<lparr>held := [L_wait]\<rparr>"
  have k: "kwait 0 s = kwait_loop me 0 ?s" using assms by (simp add: kwait_def)
  have scan: "kwait_scan me 0 False [0..<NPROC] ?s = Done (Inr (\<exists>q<NPROC. parent (procs s q) = Some me)) ?s"
    if "\<forall>q<NPROC. parent (procs s q) = Some me \<longrightarrow> state (procs s q) \<noteq> ZOMBIE"
    using kwait_scan_no_zombie [of "[0..<NPROC]" ?s me 0 False] that by (auto simp: Bex_def)
  have "kwait 0 s = Done (- 1) s" if "\<forall>q<NPROC. parent (procs s q) \<noteq> Some me"
    using scan that assms(2) by (auto simp: k kwait_loop_def Let_def)
  moreover have "kwait 0 s = (if killed (procs s me) \<noteq> 0 then Done (- 1) s
          else Sleep (upd_proc me (\<lambda>q. q\<lparr>chan := Ch_proc me, state := SLEEPING\<rparr>) s\<lparr>held := [L_proc me]\<rparr>))"
    if c: "\<exists>q<NPROC. parent (procs s q) = Some me" "\<forall>q<NPROC. parent (procs s q) = Some me \<longrightarrow> state (procs s q) \<noteq> ZOMBIE"
    using scan [OF c(2)] c(1) assms(1,2) sleep_eq [of ?s me L_wait "Ch_proc me"]
    by (simp add: k kwait_loop_def is_killed_def Let_def)
  moreover have "kwait 0 s = Done (pid (procs s z)) (t\<lparr>held := []\<rparr>) \<and> procs t = (procs s)(z := proc_freed (procs s z))"
    if z: "z < NPROC" "parent (procs s z) = Some me" "state (procs s z) = ZOMBIE"
      "\<forall>q<z. parent (procs s q) = Some me \<longrightarrow> state (procs s q) \<noteq> ZOMBIE"
      "freeproc z (s\<lparr>held := [L_proc z, L_wait]\<rparr>) = Done () t" for z t
  proof -
    have "held t = [L_proc z, L_wait]" using freeproc_frame [OF z(5)] by simp
    moreover have "[0..<NPROC] = [0..<z] @ z # [Suc z..<NPROC]"
      using z(1) upt_add_eq_append [of 0 z "NPROC - z"] upt_conv_Cons [of z NPROC] by simp
    ultimately show ?thesis
      using kwait_scan_zombie [of "[0..<z]" ?s me z t "[]" False "[Suc z..<NPROC]"] freeproc_frame [OF z(5)] z
      by (simp add: k kwait_loop_def)
  qed
  ultimately show ?thesis by blast
qed

theorem kwait_branches_witness:
  "\<exists>t. kwait 0 (two_procs\<lparr>procs := (procs two_procs)(1 := (procs two_procs 1)\<lparr>state := ZOMBIE\<rparr>)\<rparr>) = Done 2 t
     \<and> state (procs t 1) = UNUSED"
proof -
  let ?s = "two_procs\<lparr>procs := (procs two_procs)(1 := (procs two_procs 1)\<lparr>state := ZOMBIE\<rparr>)\<rparr>"
  have h: "cur ?s = Some 0" "held ?s = []" "0 < NPROC" by (simp_all add: two_procs_def NPROC_def blank_kstate_def)
  obtain t where t: "freeproc 1 (?s\<lparr>held := [L_proc 1, L_wait]\<rparr>) = Done () t"
    by (simp add: freeproc_def two_procs_def blank_proc_def)
  have z: "1 < NPROC" "parent (procs ?s 1) = Some 0" "state (procs ?s 1) = ZOMBIE"
    "\<forall>q<1. parent (procs ?s q) = Some 0 \<longrightarrow> state (procs ?s q) \<noteq> ZOMBIE"
    by (simp_all add: two_procs_def blank_proc_def NPROC_def)
  have "kwait 0 ?s = Done (pid (procs ?s 1)) (t\<lparr>held := []\<rparr>) \<and> procs t = (procs ?s)(1 := proc_freed (procs ?s 1))"
    using kwait_branches [OF h] z t by blast
  then show ?thesis by (simp add: two_procs_def proc_freed_def)
qed

section \<open>Scheduling\<close>

lemma scheduler_pass_runs:
  assumes "\<And>p s. held (run p s) = held s"
    and "\<And>p q s. q \<noteq> p \<Longrightarrow> state (procs s q) = RUNNABLE \<Longrightarrow> state (procs (run p s) q) = RUNNABLE"
    and "distinct ps" and "\<forall>p\<in>set ps. L_proc p \<notin> set (held s)"
  shows "\<exists>ran t. scheduler_pass run ps s = Done ran t \<and> subseq ran ps \<and> held t = held s
    \<and> {p \<in> set ps. state (procs s p) = RUNNABLE} \<subseteq> set ran"
  using assms(3,4)
proof (induction ps arbitrary: s)
  case Nil
  then show ?case by simp
next
  case (Cons p ps)
  let ?s1 = "upd_proc p (\<lambda>q. q\<lparr>state := RUNNING\<rparr>) (s\<lparr>held := L_proc p # held s\<rparr>)\<lparr>cur := Some p\<rparr>"
  define s2 where "s2 = (if state (procs s p) = RUNNABLE then run p ?s1\<lparr>cur := None, held := held s\<rparr> else s)"
  have "held s2 = held s" by (simp add: s2_def)
  then obtain ran t where r: "scheduler_pass run ps s2 = Done ran t" "subseq ran ps" "held t = held s"
    "{p \<in> set ps. state (procs s2 p) = RUNNABLE} \<subseteq> set ran"
    using Cons.IH [of s2] Cons.prems by auto
  have "state (procs s2 q) = RUNNABLE" if "q \<in> set ps" "state (procs s q) = RUNNABLE" for q
    using that assms(2) [of q p ?s1] Cons.prems(1) by (auto simp: s2_def upd_proc_def)
  then have sub: "{p \<in> set ps. state (procs s p) = RUNNABLE} \<subseteq> set ran" using r(4) by blast
  have "scheduler_pass run (p # ps) s = Done ((if state (procs s p) = RUNNABLE then [p] else []) @ ran) t"
    using Cons.prems r(1) assms(1) [of p ?s1] by (auto simp: s2_def Let_def upd_proc_def)
  then show ?case using r(2,3) sub by (auto split: if_splits)
qed

text \<open>
  C15 (liveness): no runnable process is passed over. For any behaviour of the processes that gives
  the scheduler its locks back and takes no other process off the run queue, a round of the scheduler completes, runs
  every process that was runnable when it began, and runs none twice.
\<close>

theorem scheduler_round_fair:
  assumes "\<And>p s. held (run p s) = held s"
    and "\<And>p q s. q \<noteq> p \<Longrightarrow> state (procs s q) = RUNNABLE \<Longrightarrow> state (procs (run p s) q) = RUNNABLE"
    and "no_proc_locks s"
  shows "\<exists>ran t. scheduler_round run s = Done ran t \<and> subseq ran [0..<NPROC] \<and> held t = held s
    \<and> (\<forall>p<NPROC. state (procs s p) = RUNNABLE \<longrightarrow> p \<in> set ran)"
proof -
  have "\<exists>ran t. scheduler_pass run [0..<NPROC] (s\<lparr>intr := False\<rparr>) = Done ran t \<and> subseq ran [0..<NPROC]
    \<and> held t = held (s\<lparr>intr := False\<rparr>)
    \<and> {p \<in> set [0..<NPROC]. state (procs (s\<lparr>intr := False\<rparr>) p) = RUNNABLE} \<subseteq> set ran"
    by (rule scheduler_pass_runs) (use assms in \<open>auto simp: no_proc_locks_def\<close>)
  then show ?thesis by (auto simp: scheduler_round_def)
qed

theorem scheduler_round_fair_witness:
  "\<exists>ran t. scheduler_round (\<lambda>p. upd_proc p (\<lambda>q. q\<lparr>state := RUNNABLE\<rparr>))
       (upd_proc 1 (\<lambda>q. q\<lparr>state := RUNNABLE\<rparr>) two_procs) = Done ran t \<and> 1 \<in> set ran"
proof -
  have "\<exists>ran t. scheduler_round (\<lambda>p. upd_proc p (\<lambda>q. q\<lparr>state := RUNNABLE\<rparr>))
       (upd_proc 1 (\<lambda>q. q\<lparr>state := RUNNABLE\<rparr>) two_procs) = Done ran t \<and> subseq ran [0..<NPROC]
    \<and> held t = held (upd_proc 1 (\<lambda>q. q\<lparr>state := RUNNABLE\<rparr>) two_procs)
    \<and> (\<forall>p<NPROC. state (procs (upd_proc 1 (\<lambda>q. q\<lparr>state := RUNNABLE\<rparr>) two_procs) p) = RUNNABLE \<longrightarrow> p \<in> set ran)"
    by (rule scheduler_round_fair) (auto simp: upd_proc_def no_proc_locks_def two_procs_def blank_kstate_def)
  then show ?thesis by (fastforce simp: upd_proc_def NPROC_def)
qed

end
