(* ===== verification/Ring.thy ===== *)
theory Ring
  imports Prelude
begin

text \<open>
  Ring buffers indexed by counters that run freely and wrap around at \<open>2 ^ 32\<close>, the way the pipe and the
  console use them: slot \<open>i\<close> of the counter is \<open>i mod size\<close> of the array. The locale holds the facts
  about the contents between two counters for a size that divides \<open>2 ^ 32\<close>; it is interpreted for
  the 512 bytes of a pipe and the 128 bytes of the console.
\<close>

definition ring :: "nat \<Rightarrow> (nat \<Rightarrow> 'a) \<Rightarrow> u32 \<Rightarrow> u32 \<Rightarrow> 'a list" where
  "ring n b r w = map (\<lambda>i. b ((unat r + i) mod n)) [0..<unat (w - r)]"

lemma length_ring [simp]: "length (ring n b r w) = unat (w - r)"
  by (simp add: ring_def)

lemma ring_empty [simp]: "ring n b r r = []"
  by (simp add: ring_def)

lemma ring_Nil_iff: "ring n b r w = [] \<longleftrightarrow> r = w"
  by (auto simp: ring_def unat_eq_0)

lemma unat_u32_less: "unat (x :: u32) < 2 ^ 32"
  using unsigned_less [of x] by simp

lemma unat_u32_add: "unat (a + b :: u32) = (unat a + unat b) mod 2 ^ 32"
  by (simp add: unat_word_ariths)

lemma unat_diff_succ:
  assumes "unat (w - r :: u32) < 2 ^ 32 - 1"
  shows "unat (w + 1 - r) = Suc (unat (w - r))"
proof -
  have "unat ((w - r) + 1) = Suc (unat (w - r))" using assms by (simp add: unat_u32_add)
  then show ?thesis by (simp add: algebra_simps)
qed

lemma unat_diff_pred:
  assumes "w \<noteq> (r :: u32)"
  shows "unat (w - r) = Suc (unat (w - (r + 1)))" and "unat (w - r) = Suc (unat (w - 1 - r))"
proof -
  have e: "w - (r + 1) = w - r - 1" "w - 1 - r = w - r - 1" by simp_all
  have "0 < unat (w - r)" using assms by (simp add: unat_gt_0)
  moreover have "unat (w - r - 1) = unat (w - r) - 1" using assms by (simp add: unat_sub word_le_nat_alt Suc_leI unat_gt_0)
  ultimately show "unat (w - r) = Suc (unat (w - (r + 1)))" "unat (w - r) = Suc (unat (w - 1 - r))"
    unfolding e by simp_all
qed

locale ring_size =
  fixes n :: nat
  assumes size_pos: "0 < n" and size_less: "n < 2 ^ 32" and size_dvd: "n dvd 2 ^ 32"
begin

lemma slot_add: "unat (r + d :: u32) mod n = (unat r + unat d) mod n"
  using size_dvd unat_u32_add [of r d] by (simp add: mod_mod_cancel)

lemma slot_last: "(unat r + unat (w - r)) mod n = unat (w :: u32) mod n"
  using slot_add [of r "w - r"] by simp

lemma slots_distinct:
  assumes "i < j" and "j - i < n"
  shows "(a + i) mod n \<noteq> (a + j) mod n"
proof
  assume "(a + i) mod n = (a + j) mod n"
  then have "n dvd (a + j) - (a + i)" using assms(1) mod_eq_dvd_iff_nat [of "a + i" "a + j" n] by simp
  then show False using assms by (auto dest: dvd_imp_le)
qed

lemma push:
  assumes "unat (w - r) < n"
  shows "ring n (b(unat w mod n := c)) r (w + 1) = ring n b r w @ [c]"
proof -
  have "(unat r + i) mod n \<noteq> unat w mod n" if "i < unat (w - r)" for i
    using slots_distinct [OF that, of "unat r"] assms by (simp add: slot_last)
  moreover have "unat (w + 1 - r) = Suc (unat (w - r))"
    using unat_diff_succ [of w r] assms size_less by linarith
  ultimately show ?thesis by (simp add: ring_def slot_last)
qed

lemma pop:
  assumes "r \<noteq> w"
  shows "ring n b r w = b (unat r mod n) # ring n b (r + 1) w"
proof -
  have "(unat (r + 1) + i) mod n = (unat r + Suc i) mod n" for i
    using mod_add_left_eq [of "unat (r + 1)" n i] mod_add_left_eq [of "unat r + 1" n i] slot_add [of r 1] by simp
  then have "ring n b (r + 1) w = map (\<lambda>i. b ((unat r + i) mod n)) (map Suc [0..<unat (w - (r + 1))])"
    by (simp add: ring_def)
  then show ?thesis using unat_diff_pred(1) [of w r] assms
    by (simp add: ring_def map_Suc_upt upt_conv_Cons del: upt_Suc)
qed

lemma unpush:
  assumes "r \<noteq> w"
  shows "ring n b r w = ring n b r (w - 1) @ [b (unat (w - 1) mod n)]"
  using unat_diff_pred(2) [of w r] assms slot_last [of r "w - 1"] by (simp add: ring_def)

lemma split_at:
  assumes "unat (m - r) \<le> unat (w - r)"
  shows "ring n b r w = ring n b r m @ ring n b m w"
proof -
  have e: "unat (w - m) = unat (w - r) - unat (m - r)"
  proof -
    have "w - m = (w - r) - (m - r)" by simp
    then show ?thesis using assms unat_sub [of "m - r" "w - r"] by (simp add: word_le_nat_alt)
  qed
  have "(unat m + i) mod n = (unat r + (unat (m - r) + i)) mod n" for i
    using mod_add_left_eq [of "unat m" n i] mod_add_left_eq [of "unat r + unat (m - r)" n i] slot_last [of r m]
    by (simp add: add.assoc)
  then have "ring n b m w = map (\<lambda>i. b ((unat r + i) mod n)) (map (\<lambda>i. unat (m - r) + i) [0..<unat (w - r) - unat (m - r)])"
    by (simp add: ring_def e)
  also have "map (\<lambda>i. unat (m - r) + i) [0..<unat (w - r) - unat (m - r)] = [unat (m - r)..<unat (w - r)]"
    using map_add_upt [of "unat (m - r)" "unat (w - r) - unat (m - r)"] assms by (simp add: add.commute)
  finally show ?thesis using assms upt_add_eq_append [of 0 "unat (m - r)" "unat (w - r) - unat (m - r)"]
    by (simp add: ring_def)
qed

end

interpretation ring512: ring_size 512
  by unfold_locales simp_all

interpretation ring128: ring_size 128
  by unfold_locales simp_all

end
