(* ===== verification/Frames.thy ===== *)
theory Frames
  imports Proc Vm_Frame
begin

text \<open>
  Frame facts for the layers above the process table: the operations of the kernel below them never
  touch the fields those layers add to the state, whether they return or suspend the process.
\<close>

section \<open>Operations that do not suspend\<close>

definition nosleep :: "('a, 's) outcome \<Rightarrow> bool" where
  "nosleep m \<longleftrightarrow> (\<forall>s. m \<noteq> Sleep s)"

named_theorems nosleeps \<open>operations that do not suspend\<close>

lemma nosleep_base [nosleeps]: "nosleep (Done x s)" "nosleep (Panic e)" "nosleep Spin"
  by (simp_all add: nosleep_def)

lemma nosleep_bnd [nosleeps]: "nosleep m \<Longrightarrow> (\<And>x s. m = Done x s \<Longrightarrow> nosleep (f x s)) \<Longrightarrow> nosleep (bnd m f)"
  by (cases m) (simp_all add: nosleep_def)

lemma nosleep_if [nosleeps]: "(b \<Longrightarrow> nosleep x) \<Longrightarrow> (\<not> b \<Longrightarrow> nosleep y) \<Longrightarrow> nosleep (if b then x else y)"
  by simp

lemma nosleep_let [nosleeps]: "(\<And>x. x = v \<Longrightarrow> nosleep (f x)) \<Longrightarrow> nosleep (Let v f)"
  by (simp add: Let_def)

lemma nosleep_prod [nosleeps]: "(\<And>x y. nosleep (f x y s)) \<Longrightarrow> nosleep ((case p of (x, y) \<Rightarrow> f x y) s)"
  by (simp add: case_prod_beta)

lemma nosleep_locks [nosleeps]: "nosleep (acquire l s)" "nosleep (release l s)"
  by (simp_all add: nosleep_def acquire_def release_def)

lemma nosleep_alloc [nosleeps]: "nosleep (kalloc s)" "nosleep (kfree p s)"
  unfolding kalloc_def kfree_def by (intro nosleeps)+

lemma nosleep_walk [nosleeps]: "nosleep (walk pt va alloc s)"
proof -
  have "nosleep (walk_from l pt va alloc s)" for l pt
    by (induction l arbitrary: pt s) (auto intro!: nosleeps simp: Let_def)
  then show ?thesis unfolding walk_def by (intro nosleeps)
qed

lemma nosleep_lookup [nosleeps]: "nosleep (walkaddr pt va s)" "nosleep (ismapped pt va s)"
  unfolding walkaddr_def ismapped_def by (intro nosleeps)+

lemma nosleep_mappages [nosleeps]: "nosleep (mappages pt va n pa perm s)"
proof -
  have "nosleep (mappages_loop pt a l pa perm s)" for a l
  proof (induction pt a l pa perm s rule: mappages_loop.induct)
    case (1 pt a lst pa perm s)
    then show ?case unfolding mappages_loop.simps [of pt a]
      by (auto intro!: nosleeps simp: Let_def)
  qed
  then show ?thesis unfolding mappages_def by (intro nosleeps)
qed

lemma nosleep_myproc [nosleeps]: "(\<And>p. nosleep (f p)) \<Longrightarrow> nosleep (with_myproc s f)"
  by (simp add: with_myproc_def nosleep_base split: option.splits)

lemma nosleep_fault [nosleeps]: "nosleep (vmfault pt va s)" "nosleep (user_frame pt va s)"
  unfolding user_frame_def vmfault_def by (intro nosleeps)+

lemma nosleep_copyin [nosleeps]: "nosleep (copyin pt va n s)"
proof (induction pt va n s rule: copyin.induct)
  case (1 pt va n s)
  then show ?case unfolding copyin.simps [of pt va] by (auto intro!: nosleeps simp: Let_def)
qed

lemma nosleep_copyout [nosleeps]: "nosleep (copyout pt va src s)"
proof (induction pt va src s rule: copyout.induct)
  case (1 pt va src s)
  then show ?case unfolding copyout.simps [of pt va] by (auto intro!: nosleeps simp: Let_def)
qed

lemma nosleep_copyinstr [nosleeps]: "nosleep (copyinstr pt va n s)"
proof (induction pt va n s rule: copyinstr.induct)
  case (1 pt va n s)
  then show ?case unfolding copyinstr.simps [of pt va] by (auto intro!: nosleeps simp: Let_def)
qed

section \<open>States in which an operation leaves off\<close>

definition ends :: "('s \<Rightarrow> bool) \<Rightarrow> ('a, 's) outcome \<Rightarrow> bool" where
  "ends P m \<longleftrightarrow> (case m of Done _ s \<Rightarrow> P s | Sleep s \<Rightarrow> P s | Panic _ \<Rightarrow> True | Spin \<Rightarrow> True)"

lemma ends_simps [simp]: "ends P (Done x s) = P s" "ends P (Sleep s) = P s" "ends P (Panic e)" "ends P Spin"
  by (simp_all add: ends_def)

lemma ends_bnd:
  assumes "ends Q m" and "\<And>s. Q s \<Longrightarrow> P s" and "\<And>x s. m = Done x s \<Longrightarrow> Q s \<Longrightarrow> ends P (f x s)"
  shows "ends P (bnd m f)"
  using assms by (cases m) auto

lemma ends_mono: "ends Q m \<Longrightarrow> (\<And>s. Q s \<Longrightarrow> P s) \<Longrightarrow> ends P m"
  by (cases m) auto

text \<open>The same for a predicate that also sees the value returned, \<open>None\<close> when the process is suspended.\<close>

definition leaves :: "('a option \<Rightarrow> 's \<Rightarrow> bool) \<Rightarrow> ('a, 's) outcome \<Rightarrow> bool" where
  "leaves P m \<longleftrightarrow> (case m of Done x s \<Rightarrow> P (Some x) s | Sleep s \<Rightarrow> P None s | Panic _ \<Rightarrow> True | Spin \<Rightarrow> True)"

lemma leaves_simps [simp]: "leaves P (Done x s) = P (Some x) s" "leaves P (Sleep s) = P None s" "leaves P (Panic e)" "leaves P Spin"
  by (simp_all add: leaves_def)

lemma leaves_bnd:
  assumes "ends Q m" and "\<And>s. m = Sleep s \<Longrightarrow> Q s \<Longrightarrow> P None s" and "\<And>x s. m = Done x s \<Longrightarrow> Q s \<Longrightarrow> leaves P (f x s)"
  shows "leaves P (bnd m f)"
  using assms by (cases m) auto

lemma leaves_mono: "leaves Q m \<Longrightarrow> (\<And>r s. Q r s \<Longrightarrow> P r s) \<Longrightarrow> leaves P m"
  by (cases m) auto

lemma ends_leaves: "leaves (\<lambda>_. P) m = ends P m"
  by (cases m) simp_all

text \<open>The part of the state above the process table.\<close>

definition upper :: "'a kstate_scheme \<Rightarrow> 'a kstate_scheme \<Rightarrow> bool" where
  "upper s s' \<longleftrightarrow> kstate.more s' = kstate.more s"

named_theorems uppers \<open>operations that leave the upper layers alone\<close>

lemma upper_refl [simp, uppers]: "upper s s"
  by (simp add: upper_def)

lemma upper_trans: "upper s s1 \<Longrightarrow> upper s1 s2 \<Longrightarrow> upper s s2"
  by (simp add: upper_def)

lemma upper_upd [simp]:
  "upper s (t\<lparr>held := a1\<rparr>) = upper s t" "upper s (t\<lparr>memory := a2\<rparr>) = upper s t"
  "upper s (t\<lparr>freelist := a3\<rparr>) = upper s t" "upper s (upd_proc p f t) = upper s t"
  "upper s (t\<lparr>uart_out := a4\<rparr>) = upper s t" "upper s (t\<lparr>panicking := a5\<rparr>) = upper s t"
  "upper s (t\<lparr>panicked := a6\<rparr>) = upper s t" "upper s (t\<lparr>procs := a7\<rparr>) = upper s t"
  "upper s (t\<lparr>ticks := a8\<rparr>) = upper s t" "upper s (t\<lparr>tframes := a9\<rparr>) = upper s t"
  "upper s (t\<lparr>nextpid := a10\<rparr>) = upper s t" "upper s (t\<lparr>cur := a11\<rparr>) = upper s t"
  "upper s (t\<lparr>intr := a12\<rparr>) = upper s t" "upper s (tf_set p r v t) = upper s t"
  by (simp_all add: upper_def upd_proc_def tf_set_def Let_def)

lemma upper_base [uppers]: "upper s t \<Longrightarrow> ends (upper s) (Done x t)" "upper s t \<Longrightarrow> ends (upper s) (Sleep t)"
    "ends (upper s) (Panic e)" "ends (upper s) Spin"
  by simp_all

lemma upper_bnd [uppers]:
  assumes "ends (upper s) m" and "\<And>x t. m = Done x t \<Longrightarrow> upper s t \<Longrightarrow> ends (upper s) (f x t)"
  shows "ends (upper s) (bnd m f)"
  using assms by (cases m) auto

lemma upper_if [uppers]: "(b \<Longrightarrow> ends P x) \<Longrightarrow> (\<not> b \<Longrightarrow> ends P y) \<Longrightarrow> ends P (if b then x else y)"
  by simp

lemma upper_let [uppers]: "(\<And>x. x = v \<Longrightarrow> ends P (f x)) \<Longrightarrow> ends P (Let v f)"
  by (simp add: Let_def)

lemma upper_prod [uppers]: "(\<And>x y. p = (x, y) \<Longrightarrow> ends P (f x y s)) \<Longrightarrow> ends P ((case p of (x, y) \<Rightarrow> f x y) s)"
  by (cases p) simp

lemma upper_myproc [uppers]: "(\<And>p. cur t = Some p \<Longrightarrow> ends P (f p)) \<Longrightarrow> ends P (with_myproc t f)"
  by (simp add: with_myproc_def split: option.splits)

subsection \<open>Memory\<close>

lemma mem_only_upper: "mem_only s s' \<Longrightarrow> upper s s'"
  unfolding mem_only_def upper_def by (cases s; cases s') simp

lemma mem_op_upper:
  assumes "mem_op f" and "nosleep (f t)" and "upper s t"
  shows "ends (upper s) (f t)"
  using mem_opD [OF assms(1), of t] assms(2,3)
  by (cases "f t") (auto simp: nosleep_def intro: mem_only_upper upper_trans)

lemma upper_locks [uppers]: "upper s t \<Longrightarrow> ends (upper s) (acquire l t)" "upper s t \<Longrightarrow> ends (upper s) (release l t)"
  by (simp_all add: acquire_def release_def)

lemma upper_memory [uppers]:
  assumes "upper s t"
  shows "ends (upper s) (kalloc t)" "ends (upper s) (kfree p t)"
    "ends (upper s) (copyin pt va n t)" "ends (upper s) (copyout pt va src t)"
  using assms
  by (auto intro!: mem_op_upper nosleep_alloc nosleep_copyin nosleep_copyout kalloc_mem_op kfree_mem_op copyin_mem_op copyout_mem_op)

lemma upper_copyinstr [uppers]: "upper s t \<Longrightarrow> ends (upper s) (copyinstr pt va n t)"
  using nosleep_copyinstr [of pt va n t] copyinstr_state [of pt va n t]
  by (cases "copyinstr pt va n t") (auto simp: nosleep_def)

subsection \<open>Processes\<close>

lemma upper_killed [uppers]:
  "upper s t \<Longrightarrow> ends (upper s) (is_killed p t)" "upper s t \<Longrightarrow> ends (upper s) (setkilled p t)"
  unfolding is_killed_def setkilled_def by (auto intro!: uppers simp: Let_def)

lemma upper_wakeup [uppers]: "upper s t \<Longrightarrow> ends (upper s) (wakeup c t)"
proof -
  have "upper s t \<Longrightarrow> ends (upper s) (wakeup_loop c ps t)" for ps
    by (induction ps arbitrary: t) (auto intro!: uppers simp: Let_def)
  then show "upper s t \<Longrightarrow> ends (upper s) (wakeup c t)" by (simp add: wakeup_def)
qed

lemma upper_sched [uppers]: "upper s t \<Longrightarrow> ends (upper s) (sched t)"
  unfolding sched_def by (auto intro!: uppers)

lemma upper_sleep [uppers]:
  "upper s t \<Longrightarrow> ends (upper s) (sleep c lk t)" "upper s t \<Longrightarrow> ends (upper s) (sleep_resume lk t)"
  "upper s t \<Longrightarrow> ends (upper s) (yield t)"
  unfolding sleep_def sleep_resume_def yield_def by (auto intro!: uppers simp: Let_def)

lemma upper_either [uppers]:
  "upper s t \<Longrightarrow> ends (upper s) (either_copyout u d src t)" "upper s t \<Longrightarrow> ends (upper s) (either_copyin u d n t)"
  unfolding either_copyout_def either_copyin_def by (auto intro!: uppers)

end
