(* ===== verification/Pipe.thy ===== *)
theory Pipe
  imports Proc_Facts Ring Frames Vm_Copy
begin

text \<open>
  Pipes (\<^verbatim>\<open>kernel/pipe.c\<close>), apart from \<^verbatim>\<open>pipealloc\<close>, which is with the files. The \<^verbatim>\<open>struct pipe\<close> that
  lives in the page at address \<open>a\<close> is \<open>pipes s a\<close>.

  Reading and writing wait inside their loops. The definitions run up to the \<^verbatim>\<open>sleep\<close>; the
  \<open>_resume\<close> definitions take up the loop when the process runs again.
\<close>

section \<open>Definitions\<close>

definition PIPESIZE :: nat where "PIPESIZE = 512"

record pipe =
  data :: "nat \<Rightarrow> u8"
  nread :: u32
  nwrite :: u32
  readopen :: i32
  writeopen :: i32

record kpipe = kstate +
  pipes :: "u64 \<Rightarrow> pipe"

definition upd_pipe :: "u64 \<Rightarrow> (pipe \<Rightarrow> pipe) \<Rightarrow> 'a kpipe_scheme \<Rightarrow> 'a kpipe_scheme" where
  "upd_pipe a f s = s\<lparr>pipes := (pipes s)(a := f (pipes s a))\<rparr>"

definition pipeclose :: "u64 \<Rightarrow> bool \<Rightarrow> 'a kpipe_scheme \<Rightarrow> (unit, 'a kpipe_scheme) outcome" where
  "pipeclose pi writable s =
     bnd (acquire (L_pipe pi) s) (\<lambda>_ s.
     bnd (if writable then wakeup (Ch_nread pi) (upd_pipe pi (\<lambda>q. q\<lparr>writeopen := 0\<rparr>) s)
          else wakeup (Ch_nwrite pi) (upd_pipe pi (\<lambda>q. q\<lparr>readopen := 0\<rparr>) s)) (\<lambda>_ s.
       if readopen (pipes s pi) = 0 \<and> writeopen (pipes s pi) = 0 then
         bnd (release (L_pipe pi) s) (\<lambda>_ s. kfree pi s)
       else release (L_pipe pi) s))"

text \<open>The code after the loop of \<^verbatim>\<open>pipewrite\<close>.\<close>

definition pipewrite_end :: "u64 \<Rightarrow> nat \<Rightarrow> 'a kpipe_scheme \<Rightarrow> (i32, 'a kpipe_scheme) outcome" where
  "pipewrite_end pi i s =
     bnd (wakeup (Ch_nread pi) s) (\<lambda>_ s. bnd (release (L_pipe pi) s) (\<lambda>_ s. Done (of_nat i) s))"

function pipewrite_loop :: "nat \<Rightarrow> u64 \<Rightarrow> u64 \<Rightarrow> i32 \<Rightarrow> nat \<Rightarrow> 'a kpipe_scheme \<Rightarrow> (i32, 'a kpipe_scheme) outcome" where
  "pipewrite_loop pr pi addr n i s =
     (if int i < sint n then
        if readopen (pipes s pi) = 0 then bnd (release (L_pipe pi) s) (\<lambda>_ s. Done (- 1) s)
        else bnd (is_killed pr s) (\<lambda>k s.
          if k \<noteq> 0 then bnd (release (L_pipe pi) s) (\<lambda>_ s. Done (- 1) s)
          else if nwrite (pipes s pi) = nread (pipes s pi) + of_nat PIPESIZE then
            bnd (wakeup (Ch_nread pi) s) (\<lambda>_ s. bnd (sleep (Ch_nwrite pi) (L_pipe pi) s) (\<lambda>_ s. Sleep s))
          else bnd (copyin (pagetable (procs s pr)) (addr + of_nat i) 1 s) (\<lambda>(bs, r) s.
            if r = - 1 then pipewrite_end pi i s
            else
              let s = upd_pipe pi (\<lambda>q. q\<lparr>data := (data q)(unat (nwrite q) mod PIPESIZE := hd bs),
                        nwrite := nwrite q + 1\<rparr>) s
              in pipewrite_loop pr pi addr n (Suc i) s))
      else pipewrite_end pi i s)"
  by pat_completeness auto

termination pipewrite_loop
  by (relation "measure (\<lambda>(pr, pi, addr, n, i, s). nat (sint n) - i)") auto

definition pipewrite :: "u64 \<Rightarrow> u64 \<Rightarrow> i32 \<Rightarrow> 'a kpipe_scheme \<Rightarrow> (i32, 'a kpipe_scheme) outcome" where
  "pipewrite pi addr n s =
     with_myproc s (\<lambda>pr. bnd (acquire (L_pipe pi) s) (\<lambda>_ s. pipewrite_loop pr pi addr n 0 s))"

definition pipewrite_resume :: "u64 \<Rightarrow> u64 \<Rightarrow> i32 \<Rightarrow> nat \<Rightarrow> 'a kpipe_scheme \<Rightarrow> (i32, 'a kpipe_scheme) outcome" where
  "pipewrite_resume pi addr n i s =
     with_myproc s (\<lambda>pr. bnd (sleep_resume (L_pipe pi) s) (\<lambda>_ s. pipewrite_loop pr pi addr n i s))"

definition piperead_end :: "u64 \<Rightarrow> i32 \<Rightarrow> 'a kpipe_scheme \<Rightarrow> (i32, 'a kpipe_scheme) outcome" where
  "piperead_end pi i s =
     bnd (wakeup (Ch_nwrite pi) s) (\<lambda>_ s. bnd (release (L_pipe pi) s) (\<lambda>_ s. Done i s))"

function piperead_copy :: "nat \<Rightarrow> u64 \<Rightarrow> u64 \<Rightarrow> i32 \<Rightarrow> nat \<Rightarrow> 'a kpipe_scheme \<Rightarrow> (i32, 'a kpipe_scheme) outcome" where
  "piperead_copy pr pi addr n i s =
     (if int i < sint n then
        if nread (pipes s pi) = nwrite (pipes s pi) then piperead_end pi (of_nat i) s
        else
          let ch = data (pipes s pi) (unat (nread (pipes s pi)) mod PIPESIZE) in
          bnd (copyout (pagetable (procs s pr)) (addr + of_nat i) [ch] s) (\<lambda>r s.
            if r = - 1 then piperead_end pi (if i = 0 then - 1 else of_nat i) s
            else piperead_copy pr pi addr n (Suc i) (upd_pipe pi (\<lambda>q. q\<lparr>nread := nread q + 1\<rparr>) s))
      else piperead_end pi (of_nat i) s)"
  by pat_completeness auto

termination piperead_copy
  by (relation "measure (\<lambda>(pr, pi, addr, n, i, s). nat (sint n) - i)") auto

definition piperead_loop :: "nat \<Rightarrow> u64 \<Rightarrow> u64 \<Rightarrow> i32 \<Rightarrow> 'a kpipe_scheme \<Rightarrow> (i32, 'a kpipe_scheme) outcome" where
  "piperead_loop pr pi addr n s =
     (if nread (pipes s pi) = nwrite (pipes s pi) \<and> writeopen (pipes s pi) \<noteq> 0 then
        bnd (is_killed pr s) (\<lambda>k s.
          if k \<noteq> 0 then bnd (release (L_pipe pi) s) (\<lambda>_ s. Done (- 1) s)
          else bnd (sleep (Ch_nread pi) (L_pipe pi) s) (\<lambda>_ s. Sleep s))
      else piperead_copy pr pi addr n 0 s)"

definition piperead :: "u64 \<Rightarrow> u64 \<Rightarrow> i32 \<Rightarrow> 'a kpipe_scheme \<Rightarrow> (i32, 'a kpipe_scheme) outcome" where
  "piperead pi addr n s =
     with_myproc s (\<lambda>pr. bnd (acquire (L_pipe pi) s) (\<lambda>_ s. piperead_loop pr pi addr n s))"

definition piperead_resume :: "u64 \<Rightarrow> u64 \<Rightarrow> i32 \<Rightarrow> 'a kpipe_scheme \<Rightarrow> (i32, 'a kpipe_scheme) outcome" where
  "piperead_resume pi addr n s =
     with_myproc s (\<lambda>pr. bnd (sleep_resume (L_pipe pi) s) (\<lambda>_ s. piperead_loop pr pi addr n s))"

declare pipewrite_loop.simps [simp del] piperead_copy.simps [simp del]

section \<open>Example states\<close>

definition blank_pipe :: pipe where
  "blank_pipe = \<lparr>data = (\<lambda>_. 0), nread = 0, nwrite = 0, readopen = 1, writeopen = 1\<rparr>"

definition with_pipes :: "kstate \<Rightarrow> kpipe" where
  "with_pipes s = kstate.extend s (kpipe.fields (\<lambda>_. blank_pipe))"

lemma with_pipes_fields [simp]:
  "pipes (with_pipes s) = (\<lambda>_. blank_pipe)" "held (with_pipes s) = held s" "cur (with_pipes s) = cur s"
  "procs (with_pipes s) = procs s" "memory (with_pipes s) = memory s" "tframes (with_pipes s) = tframes s" "panicked (with_pipes s) = panicked s"
  by (simp_all add: with_pipes_def kstate.defs kpipe.defs)

section \<open>A pipe is a bounded queue\<close>

definition pipe_bytes :: "pipe \<Rightarrow> u8 list" where
  "pipe_bytes q = ring PIPESIZE (data q) (nread q) (nwrite q)"

definition pipe_ok :: "pipe \<Rightarrow> bool" where
  "pipe_ok q \<longleftrightarrow> unat (nwrite q - nread q) \<le> PIPESIZE"

lemma length_pipe_bytes: "pipe_ok q \<Longrightarrow> length (pipe_bytes q) \<le> PIPESIZE"
  by (simp add: pipe_ok_def pipe_bytes_def)

lemma pipes_upper: "upper s t \<Longrightarrow> pipes t = pipes s"
  unfolding upper_def by (cases s; cases t) simp

lemma upd_pipe_fields [simp]:
  "pipes (upd_pipe a f s) = (pipes s)(a := f (pipes s a))" "held (upd_pipe a f s) = held s"
  "procs (upd_pipe a f s) = procs s" "cur (upd_pipe a f s) = cur s" "memory (upd_pipe a f s) = memory s"
  by (simp_all add: upd_pipe_def)

lemma not_full_iff:
  assumes "pipe_ok q"
  shows "nwrite q = nread q + of_nat PIPESIZE \<longleftrightarrow> length (pipe_bytes q) = PIPESIZE"
proof -
  have "nwrite q = nread q + of_nat PIPESIZE \<longleftrightarrow> nwrite q - nread q = of_nat PIPESIZE"
    by (auto simp: algebra_simps)
  also have "\<dots> \<longleftrightarrow> unat (nwrite q - nread q) = PIPESIZE"
    by (simp add: word_unat_eq_iff PIPESIZE_def)
  finally show ?thesis by (simp add: pipe_bytes_def)
qed

lemma pipe_push:
  fixes c :: u8
  assumes "pipe_ok q" and "nwrite q \<noteq> nread q + of_nat PIPESIZE"
  defines "q' \<equiv> q\<lparr>data := (data q)(unat (nwrite q) mod PIPESIZE := c), nwrite := nwrite q + 1\<rparr>"
  shows "pipe_ok q'" and "pipe_bytes q' = pipe_bytes q @ [c]"
proof -
  have "unat (nwrite q - nread q) < 512"
    using assms(1,2) not_full_iff [OF assms(1)] by (simp add: pipe_ok_def pipe_bytes_def PIPESIZE_def)
  then show "pipe_bytes q' = pipe_bytes q @ [c]" "pipe_ok q'"
    using ring512.push [of "nwrite q" "nread q" "data q" c] unat_diff_succ [of "nwrite q" "nread q"]
    by (simp_all add: q'_def pipe_bytes_def pipe_ok_def PIPESIZE_def)
qed

lemma pipe_pop:
  assumes "pipe_ok q" and "nread q \<noteq> nwrite q"
  defines "q' \<equiv> q\<lparr>nread := nread q + 1\<rparr>"
  shows "pipe_ok q'" and "pipe_bytes q = data q (unat (nread q) mod PIPESIZE) # pipe_bytes q'"
  using assms(1,2) ring512.pop [of "nread q" "nwrite q" "data q"] unat_diff_pred(1) [of "nwrite q" "nread q"]
  by (simp_all add: q'_def pipe_bytes_def pipe_ok_def PIPESIZE_def)

text \<open>The state after \<open>bs\<close> went into the pipe, or \<open>k\<close> bytes came out of it.\<close>

definition appended :: "u64 \<Rightarrow> u8 list \<Rightarrow> 'a kpipe_scheme \<Rightarrow> 'a kpipe_scheme \<Rightarrow> bool" where
  "appended pi bs s s' \<longleftrightarrow> (\<forall>b. b \<noteq> pi \<longrightarrow> pipes s' b = pipes s b) \<and> pipe_ok (pipes s' pi)
     \<and> pipe_bytes (pipes s' pi) = pipe_bytes (pipes s pi) @ bs
     \<and> readopen (pipes s' pi) = readopen (pipes s pi) \<and> writeopen (pipes s' pi) = writeopen (pipes s pi)"

definition removed :: "u64 \<Rightarrow> nat \<Rightarrow> 'a kpipe_scheme \<Rightarrow> 'a kpipe_scheme \<Rightarrow> bool" where
  "removed pi k s s' \<longleftrightarrow> (\<forall>b. b \<noteq> pi \<longrightarrow> pipes s' b = pipes s b) \<and> pipe_ok (pipes s' pi)
     \<and> k \<le> length (pipe_bytes (pipes s pi)) \<and> pipe_bytes (pipes s' pi) = drop k (pipe_bytes (pipes s pi))
     \<and> readopen (pipes s' pi) = readopen (pipes s pi) \<and> writeopen (pipes s' pi) = writeopen (pipes s pi)"

lemma appended_Nil: "pipe_ok (pipes s pi) \<Longrightarrow> upper s t \<Longrightarrow> appended pi [] s t"
  by (simp add: appended_def pipes_upper)

lemma removed_0: "pipe_ok (pipes s pi) \<Longrightarrow> upper s t \<Longrightarrow> removed pi 0 s t"
  by (simp add: removed_def pipes_upper)

lemma pipewrite_end_upper: "upper s t \<Longrightarrow> leaves (\<lambda>r s'. upper s s' \<and> (\<forall>v. r = Some v \<longrightarrow> v = of_nat i)) (pipewrite_end pi i t)"
  unfolding pipewrite_end_def
  by (rule leaves_bnd [OF upper_wakeup, of s], assumption, simp)
    (rule leaves_bnd [OF upper_locks(2), of s], assumption, simp_all)

lemma piperead_end_upper: "upper s t \<Longrightarrow> leaves (\<lambda>r s'. upper s s' \<and> (\<forall>v. r = Some v \<longrightarrow> v = i)) (piperead_end pi i t)"
  unfolding piperead_end_def
  by (rule leaves_bnd [OF upper_wakeup, of s], assumption, simp)
    (rule leaves_bnd [OF upper_locks(2), of s], assumption, simp_all)

lemma leaves_upper:
  assumes "ends (upper s) m" and "\<And>t. upper s t \<Longrightarrow> P None t" and "\<And>x t. m = Done x t \<Longrightarrow> upper s t \<Longrightarrow> leaves P (f x t)"
  shows "leaves P (bnd m f)"
  using assms by (cases m) auto

definition wrote :: "u64 \<Rightarrow> i32 \<Rightarrow> nat \<Rightarrow> 'a kpipe_scheme \<Rightarrow> i32 option \<Rightarrow> 'a kpipe_scheme \<Rightarrow> bool" where
  "wrote pi n i s r s' \<longleftrightarrow> (\<exists>bs. appended pi bs s s' \<and> (bs = [] \<or> int (i + length bs) \<le> sint n)
      \<and> (\<forall>v. r = Some v \<longrightarrow> v = - 1 \<or> v = of_nat (i + length bs)))"

lemma wrote_nothing:
  assumes "pipe_ok (pipes s pi)" and "upper s s'" and "\<forall>v. r = Some v \<longrightarrow> v = - 1 \<or> v = of_nat i"
  shows "wrote pi n i s r s'"
  using appended_Nil [OF assms(1,2)] assms(3) unfolding wrote_def by (intro exI [of _ "[]"]) simp

lemma wrote_one:
  assumes "wrote pi n (Suc i) t r s'" and "appended pi [c] s t" and "int i < sint n"
  shows "wrote pi n i s r s'"
proof -
  obtain bs where bs: "appended pi bs t s'" "bs = [] \<or> int (Suc i + length bs) \<le> sint n"
    "\<forall>v. r = Some v \<longrightarrow> v = - 1 \<or> v = of_nat (Suc i + length bs)" using assms(1) unfolding wrote_def by blast
  have "appended pi (c # bs) s s'" using bs(1) assms(2) by (simp add: appended_def)
  with bs(2,3) assms(3) show ?thesis unfolding wrote_def by (intro exI [of _ "c # bs"]) auto
qed

lemma pipewrite_loop_fifo:
  "pipe_ok (pipes s pi) \<Longrightarrow> leaves (wrote pi n i s) (pipewrite_loop pr pi addr n i s)"
proof (induction pr pi addr n i s rule: pipewrite_loop.induct)
  case (1 pr pi addr n i s)
  note quit = wrote_nothing [OF "1.prems"]
  have fin: "leaves (wrote pi n i s) (pipewrite_end pi i t)" if "upper s t" for t
    by (rule leaves_mono [OF pipewrite_end_upper [OF that]]) (simp add: quit)
  have rel: "leaves (wrote pi n i s) (bnd (release (L_pipe pi) t) (\<lambda>_ s. Done (- 1) s))" if "upper s t" for t
    by (rule leaves_upper [OF upper_locks(2) [OF that]]) (simp_all add: quit)
  have susp: "leaves (wrote pi n i s) (bnd (wakeup (Ch_nread pi) t) (\<lambda>_ s. bnd (sleep (Ch_nwrite pi) (L_pipe pi) s) (\<lambda>_ s. Sleep s)))"
    if "upper s t" for t
    by (rule leaves_upper [OF upper_wakeup [OF that]]) (auto intro!: leaves_upper [OF upper_sleep(1)] simp: quit)
  show ?case
  proof (cases "int i < sint n \<and> readopen (pipes s pi) \<noteq> 0")
    case False
    then show ?thesis using fin [of s] rel [of s] by (auto simp: pipewrite_loop.simps [of pr pi addr n i s])
  next
    case True
    let ?put = "\<lambda>bs. upd_pipe pi (\<lambda>q. q\<lparr>data := (data q)(unat (nwrite q) mod PIPESIZE := hd bs), nwrite := nwrite q + 1\<rparr>)"
    have one: "leaves (wrote pi n i s) (pipewrite_loop pr pi addr n (Suc i) (?put bs s2))"
      if "is_killed pr s = Done 0 s1" "copyin (pagetable (procs s1 pr)) (addr + of_nat i) 1 s1 = Done (bs, r) s2" "r \<noteq> - 1"
        "upper s s1" "upper s s2" "nwrite (pipes s pi) \<noteq> nread (pipes s pi) + of_nat PIPESIZE" for s1 s2 bs r
    proof -
      have "appended pi [hd bs] s (?put bs s2)"
        using pipe_push [OF "1.prems" that(6)] that(5) by (simp add: appended_def pipes_upper)
      moreover from this have "leaves (wrote pi n (Suc i) (?put bs s2)) (pipewrite_loop pr pi addr n (Suc i) (?put bs s2))"
        using "1.IH" True that by (simp add: pipes_upper appended_def)
      ultimately show ?thesis using True by (auto elim: leaves_mono intro: wrote_one)
    qed
    have *: "int i < sint n" "readopen (pipes s pi) \<noteq> 0" using True by simp_all
    show ?thesis unfolding pipewrite_loop.simps [of pr pi addr n i s] if_P [OF *(1)] if_not_P [OF *(2)] Let_def
    proof (rule leaves_upper [OF upper_killed(1) [OF upper_refl]], goal_cases)
      case (1 t)
      then show ?case by (simp add: quit)
    next
      case (2 k s1)
      then have "leaves (wrote pi n i s) (bnd (copyin (pagetable (procs s1 pr)) (addr + of_nat i) 1 s1) (\<lambda>(bs, r) s2.
          if r = - 1 then pipewrite_end pi i s2 else pipewrite_loop pr pi addr n (Suc i) (?put bs s2)))"
        if "k = 0" "nwrite (pipes s pi) \<noteq> nread (pipes s pi) + of_nat PIPESIZE"
        by (intro leaves_upper [OF upper_memory(3)]) (use that in \<open>auto simp: quit fin intro: one [unfolded One_nat_def]\<close>)
      then show ?case using 2 rel [of s1] susp [of s1] by (auto simp: pipes_upper)
    qed
  qed
qed

definition readout :: "u64 \<Rightarrow> i32 \<Rightarrow> nat \<Rightarrow> 'a kpipe_scheme \<Rightarrow> i32 option \<Rightarrow> 'a kpipe_scheme \<Rightarrow> bool" where
  "readout pi n i s r s' \<longleftrightarrow> (\<exists>k. removed pi k s s' \<and> (k = 0 \<or> int (i + k) \<le> sint n)
      \<and> (\<forall>v. r = Some v \<longrightarrow> v = - 1 \<and> i + k = 0 \<or> v = of_nat (i + k)))"

lemma readout_nothing:
  assumes "pipe_ok (pipes s pi)" and "upper s s'" and "\<forall>v. r = Some v \<longrightarrow> v = - 1 \<and> i = 0 \<or> v = of_nat i"
  shows "readout pi n i s r s'"
  using removed_0 [OF assms(1,2)] assms(3) unfolding readout_def by (intro exI [of _ 0]) simp

lemma readout_one:
  assumes "readout pi n (Suc i) t r s'" and "removed pi (Suc 0) s t" and "int i < sint n"
  shows "readout pi n i s r s'"
proof -
  obtain k where k: "removed pi k t s'" "k = 0 \<or> int (Suc i + k) \<le> sint n"
    "\<forall>v. r = Some v \<longrightarrow> v = - 1 \<and> Suc i + k = 0 \<or> v = of_nat (Suc i + k)" using assms(1) unfolding readout_def by blast
  have "removed pi (Suc k) s s'" using k(1) assms(2) by (auto simp: removed_def)
  with k(2,3) assms(3) show ?thesis unfolding readout_def by (intro exI [of _ "Suc k"]) auto
qed

lemma piperead_copy_fifo:
  "pipe_ok (pipes s pi) \<Longrightarrow> leaves (readout pi n i s) (piperead_copy pr pi addr n i s)"
proof (induction pr pi addr n i s rule: piperead_copy.induct)
  case (1 pr pi addr n i s)
  note quit = readout_nothing [OF "1.prems"]
  have fin: "leaves (readout pi n i s) (piperead_end pi v t)" if "upper s t" "v = - 1 \<and> i = 0 \<or> v = of_nat i" for t v
    by (rule leaves_mono [OF piperead_end_upper [OF that(1)]]) (use that(2) in \<open>auto intro!: quit\<close>)
  show ?case
  proof (cases "int i < sint n \<and> nread (pipes s pi) \<noteq> nwrite (pipes s pi)")
    case False
    then show ?thesis using fin [of s "of_nat i"] by (auto simp: piperead_copy.simps [of pr pi addr n i s])
  next
    case True
    let ?get = "upd_pipe pi (\<lambda>q. q\<lparr>nread := nread q + 1\<rparr>)"
    let ?ch = "data (pipes s pi) (unat (nread (pipes s pi)) mod PIPESIZE)"
    have one: "leaves (readout pi n i s) (piperead_copy pr pi addr n (Suc i) (?get s1))"
      if "copyout (pagetable (procs s pr)) (addr + of_nat i) [?ch] s = Done r s1" "r \<noteq> - 1" "upper s s1" for s1 r
    proof -
      have "removed pi 1 s (?get s1)"
        using pipe_pop [OF "1.prems"] True that(3) by (simp add: removed_def pipes_upper)
      moreover from this have "leaves (readout pi n (Suc i) (?get s1)) (piperead_copy pr pi addr n (Suc i) (?get s1))"
        using "1.IH" True that by (simp add: pipes_upper removed_def)
      ultimately show ?thesis using True by (auto elim: leaves_mono intro: readout_one)
    qed
    have "leaves (readout pi n i s) (bnd (copyout (pagetable (procs s pr)) (addr + of_nat i) [?ch] s) (\<lambda>r s.
            if r = - 1 then piperead_end pi (if i = 0 then - 1 else of_nat i) s
            else piperead_copy pr pi addr n (Suc i) (?get s)))"
    proof (rule leaves_upper [OF upper_memory(4) [OF upper_refl]], goal_cases)
      case (1 t)
      then show ?case by (simp add: quit)
    next
      case (2 r s1)
      have "leaves (readout pi n i s) (piperead_end pi (if i = 0 then - 1 else of_nat i) s1)"
        by (rule fin [OF 2(2)]) simp
      then show ?case using one [OF 2(1) _ 2(2)] by (cases "r = - 1") simp_all
    qed
    then show ?thesis using True by (simp add: piperead_copy.simps [of pr pi addr n i s] Let_def)
  qed
qed

lemma appended_pre: "upper s t \<Longrightarrow> appended pi bs t s' = appended pi bs s s'"
  by (simp add: appended_def pipes_upper)

lemma removed_pre: "upper s t \<Longrightarrow> removed pi k t s' = removed pi k s s'"
  by (simp add: removed_def pipes_upper)

lemma pipewrite_entry:
  assumes "pipe_ok (pipes s pi)" and "ends (upper s) m"
  shows "leaves (wrote pi n i s) (bnd m (\<lambda>_ t. pipewrite_loop pr pi addr n i t))"
proof (rule leaves_upper [OF assms(2)])
  show "wrote pi n i s None t" if "upper s t" for t using wrote_nothing [OF assms(1) that] by simp
  show "leaves (wrote pi n i s) (pipewrite_loop pr pi addr n i t)" if "upper s t" for t
    using pipewrite_loop_fifo [of t pi n i pr addr] assms(1) that by (simp add: pipes_upper wrote_def [abs_def] appended_pre)
qed

lemma piperead_entry:
  assumes "pipe_ok (pipes s pi)" and "ends (upper s) m"
  shows "leaves (\<lambda>r s'. readout pi n 0 s r s') (bnd m (\<lambda>_ t. piperead_loop pr pi addr n t))"
proof (rule leaves_upper [OF assms(2)])
  note quit = readout_nothing [OF assms(1)]
  show "readout pi n 0 s None t" if "upper s t" for t using quit that by simp
  show "leaves (readout pi n 0 s) (piperead_loop pr pi addr n t)" if t: "upper s t" for t
  proof -
    have "leaves (readout pi n 0 s) (bnd (is_killed pr t) (\<lambda>k s.
          if k \<noteq> 0 then bnd (release (L_pipe pi) s) (\<lambda>_ s. Done (- 1) s)
          else bnd (sleep (Ch_nread pi) (L_pipe pi) s) (\<lambda>_ s. Sleep s)))"
      by (rule leaves_upper [OF upper_killed(1) [OF t]])
        (auto simp: quit intro!: leaves_upper [OF upper_sleep(1)] leaves_upper [OF upper_locks(2)])
    moreover have "leaves (readout pi n 0 s) (piperead_copy pr pi addr n 0 t)"
      using piperead_copy_fifo [of t pi n 0 pr addr] assms(1) t by (simp add: pipes_upper readout_def [abs_def] removed_pre)
    ultimately show ?thesis by (simp add: piperead_loop_def)
  qed
qed

text \<open>
  C8 (refinement): a pipe is a queue of at most 512 bytes, whatever the counters have wrapped to.
  Every call of pipewrite or piperead, also one that resumes after waiting, and whether it returns,
  fails or suspends the process, has only put bytes behind the ones that were there, or taken bytes from the
  front; a count that is returned is the number of bytes moved, a read that fails has moved none, and no other pipe changes.
\<close>

theorem pipe_is_bounded_queue:
  assumes "pipe_ok (pipes s pi)"
  shows "leaves (wrote pi n 0 s) (pipewrite pi addr n s) \<and> leaves (wrote pi n i s) (pipewrite_resume pi addr n i s)
    \<and> leaves (readout pi n 0 s) (piperead pi addr n s) \<and> leaves (readout pi n 0 s) (piperead_resume pi addr n s)"
  using pipewrite_entry [OF assms upper_locks(1) [OF upper_refl]] pipewrite_entry [OF assms upper_sleep(2) [OF upper_refl]]
    piperead_entry [OF assms upper_locks(1) [OF upper_refl]] piperead_entry [OF assms upper_sleep(2) [OF upper_refl]]
  by (simp add: pipewrite_def pipewrite_resume_def piperead_def piperead_resume_def with_myproc_def split: option.splits)

theorem pipe_is_bounded_queue_witness:
  "pipe_ok (pipes (with_pipes two_procs) 0) \<and> leaves (wrote 0 5 0 (with_pipes two_procs)) (pipewrite 0 64 5 (with_pipes two_procs))"
proof
  show ok: "pipe_ok (pipes (with_pipes two_procs) 0)" by (simp add: pipe_ok_def blank_pipe_def)
  show "leaves (wrote 0 5 0 (with_pipes two_procs)) (pipewrite 0 64 5 (with_pipes two_procs))"
    using pipe_is_bounded_queue [OF ok] by blast
qed

section \<open>From one process to another\<close>

lemma is_killed_eq [simp]: "L_proc p \<notin> set (held s) \<Longrightarrow> is_killed p s = Done (killed (procs s p)) s"
  by (simp add: is_killed_def)

lemma copyout_byte:
  assumes "aspace_ok e ps (memory s) pt" and "uwritable (memory s) pt va"
  obtains m where "copyout pt va [c] s = Done 0 (s\<lparr>memory := m\<rparr>)" and "aspace_ok e ps m pt"
    and "uwritable m pt = uwritable (memory s) pt" and "umapped m pt = umapped (memory s) pt"
    and "\<And>x. umapped (memory s) pt x \<Longrightarrow> ubyte m pt x = (if x = va then c else ubyte (memory s) pt x)"
proof -
  let ?m = "wr_bytes (memory s) (user_pa (memory s) pt (PGROUNDDOWN va) + (va - PGROUNDDOWN va)) [c]"
  have t: "tree_ok e ps 2 (memory s) pt" using assms(1) by (simp add: aspace_ok_def)
  have p: "page_part va 1 = 1" using page_off_less [of va] by (simp add: page_part_eq)
  have "umapped (memory s) pt va" "page_off va + length [c] \<le> 4096"
    using assms(2) page_off_less [of va] by (simp_all add: uwritable_def)
  note w = write_chunk [OF assms(1) this refl]
  have "copyout pt va [c] s = Done 0 (s\<lparr>memory := ?m\<rparr>)"
    using copyout_step [OF t assms(2), of "[c]"] p by (simp add: copyout.simps)
  moreover have "umapped ?m pt = umapped (memory s) pt" "uwritable ?m pt = uwritable (memory s) pt"
    using w(2,3) by (simp_all add: fun_eq_iff uwritable_def umapped_def)
  moreover have "ubyte ?m pt x = (if x = va then c else ubyte (memory s) pt x)" if "umapped (memory s) pt x" for x
  proof -
    have "unat (x - va) = 0 \<longleftrightarrow> x = va" by (simp add: unat_eq_0)
    then show ?thesis using w(4) [OF that] by auto
  qed
  ultimately show thesis using that w(1) by blast
qed

text \<open>A writer whose bytes are mapped and fit puts them all into the pipe.\<close>

lemma pipewrite_loop_mapped:
  assumes "held s = [L_pipe pi]" and "killed (procs s pr) = 0" and "readopen (pipes s pi) \<noteq> 0" and "pipe_ok (pipes s pi)"
    and "tree_ok e ps 2 (memory s) (pagetable (procs s pr))"
    and "\<forall>j. i \<le> j \<and> j < k \<longrightarrow> umapped (memory s) (pagetable (procs s pr)) (addr + word_of_nat j)"
    and "i \<le> k" and "sint n = int k" and "length (pipe_bytes (pipes s pi)) + (k - i) \<le> PIPESIZE"
  shows "\<exists>q. pipewrite_loop pr pi addr n i s = pipewrite_end pi k (s\<lparr>pipes := (pipes s)(pi := q)\<rparr>) \<and> pipe_ok q
    \<and> pipe_bytes q = pipe_bytes (pipes s pi) @ map (\<lambda>j. ubyte (memory s) (pagetable (procs s pr)) (addr + word_of_nat j)) [i..<k]"
  using assms
proof (induction "k - i" arbitrary: i s)
  case 0
  then show ?case by (intro exI [of _ "pipes s pi"]) (simp add: pipewrite_loop.simps)
next
  case (Suc d)
  let ?b = "ubyte (memory s) (pagetable (procs s pr)) (addr + word_of_nat i)"
  let ?q = "(pipes s pi)\<lparr>data := (data (pipes s pi))(unat (nwrite (pipes s pi)) mod PIPESIZE := ?b), nwrite := nwrite (pipes s pi) + 1\<rparr>"
  let ?s = "s\<lparr>pipes := (pipes s)(pi := ?q)\<rparr>"
  have i: "i < k" using Suc.hyps(2) by simp
  have nf: "nwrite (pipes s pi) \<noteq> nread (pipes s pi) + of_nat PIPESIZE"
    using not_full_iff [OF Suc.prems(4)] Suc.prems(9) i by auto
  note q = pipe_push [OF Suc.prems(4) nf, of ?b]
  have "copyin (pagetable (procs s pr)) (addr + word_of_nat i) 1 s = Done ([?b], 0) s"
    using copyin_eq [OF Suc.prems(5), of 1 "addr + word_of_nat i"] Suc.prems(6) i by simp
  then have step: "pipewrite_loop pr pi addr n i s = pipewrite_loop pr pi addr n (Suc i) ?s"
    using Suc.prems(1-3,8) i nf
    by (simp add: pipewrite_loop.simps [of pr pi addr n i s] Let_def upd_pipe_def)
  have "\<exists>q. pipewrite_loop pr pi addr n (Suc i) ?s = pipewrite_end pi k (?s\<lparr>pipes := (pipes ?s)(pi := q)\<rparr>) \<and> pipe_ok q
    \<and> pipe_bytes q = pipe_bytes (pipes ?s pi) @ map (\<lambda>j. ubyte (memory ?s) (pagetable (procs ?s pr)) (addr + word_of_nat j)) [Suc i..<k]"
    by (rule Suc.hyps(1)) (use Suc.prems Suc.hyps(2) i q in auto)
  then show ?case using step q(2) i by (auto simp: upt_conv_Cons)
qed

text \<open>
  The user memory \<open>m'\<close> is \<open>m\<close> with the first bytes of \<open>bs\<close> at the offsets \<open>i\<close> to \<open>k\<close> of the buffer.
\<close>

definition received :: "u64 \<Rightarrow> u64 \<Rightarrow> nat \<Rightarrow> nat \<Rightarrow> u8 list \<Rightarrow> mem \<Rightarrow> mem \<Rightarrow> bool" where
  "received pt addr i k bs m m' \<longleftrightarrow>
     (\<forall>x. umapped m pt x \<longrightarrow> x \<notin> (\<lambda>j. addr + word_of_nat j) ` {i..<k} \<longrightarrow> ubyte m' pt x = ubyte m pt x)
     \<and> (\<forall>j\<in>{i..<k}. ubyte m' pt (addr + word_of_nat j) = bs ! (j - i))"

lemma received_step:
  assumes "received pt addr (Suc i) k bs m1 m'" and "umapped m1 pt = umapped m pt" and "i < k" and "k < 2 ^ 64"
    and "\<And>x. umapped m pt x \<Longrightarrow> ubyte m1 pt x = (if x = addr + word_of_nat i then c else ubyte m pt x)"
    and "umapped m pt (addr + word_of_nat i)"
  shows "received pt addr i k (c # bs) m m'"
proof -
  have ins: "{i..<k} = insert i {Suc i..<k}" using assms(3) by auto
  have "word_of_nat i \<noteq> (word_of_nat j :: u64)" if "j \<in> {Suc i..<k}" for j
    using that assms(4) by (auto simp: word_unat_eq_iff unat_of_nat)
  then have "addr + word_of_nat i \<noteq> addr + word_of_nat j" if "j \<in> {Suc i..<k}" for j using that by simp
  then have "addr + word_of_nat i \<notin> (\<lambda>j. addr + word_of_nat j) ` {Suc i..<k}" by blast
  then have "ubyte m' pt (addr + word_of_nat i) = c"
    using assms(1,2,6) assms(5) [OF assms(6)] unfolding received_def by auto
  then show ?thesis using assms(1,2,5) unfolding received_def ins by auto
qed

text \<open>A reader whose buffer is writable takes what it asked for, if that much is there.\<close>

lemma piperead_copy_mapped:
  assumes "pipe_ok (pipes s pi)" and "aspace_ok e ps (memory s) (pagetable (procs s pr))"
    and "\<forall>j\<in>{i..<k}. uwritable (memory s) (pagetable (procs s pr)) (addr + word_of_nat j)"
    and "i \<le> k" and "sint n = int k" and "k - i \<le> length (pipe_bytes (pipes s pi))" and "k < 2 ^ 64"
  shows "\<exists>q m. piperead_copy pr pi addr n i s = piperead_end pi (of_nat k) (s\<lparr>memory := m, pipes := (pipes s)(pi := q)\<rparr>)
    \<and> pipe_bytes q = drop (k - i) (pipe_bytes (pipes s pi))
    \<and> received (pagetable (procs s pr)) addr i k (pipe_bytes (pipes s pi)) (memory s) m"
  using assms
proof (induction "k - i" arbitrary: i s)
  case 0
  then show ?case by (intro exI [of _ "pipes s pi"] exI [of _ "memory s"]) (simp add: piperead_copy.simps received_def)
next
  case (Suc d)
  let ?pt = "pagetable (procs s pr)"
  let ?ch = "data (pipes s pi) (unat (nread (pipes s pi)) mod PIPESIZE)"
  let ?q = "(pipes s pi)\<lparr>nread := nread (pipes s pi) + 1\<rparr>"
  have i: "i < k" using Suc.hyps(2) by simp
  have ne: "nread (pipes s pi) \<noteq> nwrite (pipes s pi)" using Suc.prems(6) i by (auto simp: pipe_bytes_def)
  note q = pipe_pop [OF Suc.prems(1) ne]
  have w: "uwritable (memory s) ?pt (addr + word_of_nat i)" using Suc.prems(3) i by simp
  obtain m where m: "copyout ?pt (addr + word_of_nat i) [?ch] s = Done 0 (s\<lparr>memory := m\<rparr>)" "aspace_ok e ps m ?pt"
    "uwritable m ?pt = uwritable (memory s) ?pt" "umapped m ?pt = umapped (memory s) ?pt"
    "\<And>x. umapped (memory s) ?pt x \<Longrightarrow> ubyte m ?pt x = (if x = addr + word_of_nat i then ?ch else ubyte (memory s) ?pt x)"
    using copyout_byte [OF Suc.prems(2) w] by blast
  let ?s = "s\<lparr>memory := m, pipes := (pipes s)(pi := ?q)\<rparr>"
  have step: "piperead_copy pr pi addr n i s = piperead_copy pr pi addr n (Suc i) ?s"
    using Suc.prems(5) i ne m(1) by (simp add: piperead_copy.simps [of pr pi addr n i s] Let_def upd_pipe_def)
  have "\<exists>q m'. piperead_copy pr pi addr n (Suc i) ?s = piperead_end pi (of_nat k) (?s\<lparr>memory := m', pipes := (pipes ?s)(pi := q)\<rparr>)
    \<and> pipe_bytes q = drop (k - Suc i) (pipe_bytes (pipes ?s pi))
    \<and> received (pagetable (procs ?s pr)) addr (Suc i) k (pipe_bytes (pipes ?s pi)) (memory ?s) m'"
    by (rule Suc.hyps(1)) (use Suc.prems Suc.hyps(2) i q m in auto)
  then obtain q' m' where r: "piperead_copy pr pi addr n (Suc i) ?s = piperead_end pi (of_nat k) (?s\<lparr>memory := m', pipes := (pipes ?s)(pi := q')\<rparr>)"
    "pipe_bytes q' = drop (k - Suc i) (pipe_bytes ?q)" "received ?pt addr (Suc i) k (pipe_bytes ?q) m m'"
    by auto
  have "received ?pt addr i k (?ch # pipe_bytes ?q) (memory s) m'"
    by (rule received_step [OF r(3) m(4) i Suc.prems(7) m(5)]) (use w in \<open>simp_all add: uwritable_def\<close>)
  moreover have "drop (k - i) (?ch # pipe_bytes ?q) = drop (k - Suc i) (pipe_bytes ?q)"
    using i by (simp add: drop_Cons' Suc_diff_Suc [symmetric])
  ultimately show ?case using step r(1,2) q(2) by (intro exI [of _ q'] exI [of _ m']) simp
qed

lemma woken_pagetable [simp]: "pagetable (woken c P me ps i) = pagetable (ps i)" "killed (woken c P me ps i) = killed (ps i)"
  by (simp_all add: woken_def)

lemma pipewrite_end_eq:
  assumes "held s = [L_pipe pi]"
  shows "pipewrite_end pi i s = Done (of_nat i) (s\<lparr>procs := woken (Ch_nread pi) {0..<NPROC} (cur s) (procs s), held := []\<rparr>)"
  using assms wakeup_eq [of s "Ch_nread pi"] by (simp add: pipewrite_end_def)

lemma piperead_end_eq:
  assumes "held s = [L_pipe pi]"
  shows "piperead_end pi v s = Done v (s\<lparr>procs := woken (Ch_nwrite pi) {0..<NPROC} (cur s) (procs s), held := []\<rparr>)"
  using assms wakeup_eq [of s "Ch_nwrite pi"] by (simp add: piperead_end_def)

text \<open>
  C22 (roundtrip): what one process writes into an empty pipe, up to 512 bytes, another process
  reads from it, byte for byte from the memory of the writer into the memory of the reader; both calls return the
  count and the pipe is empty again.
\<close>

theorem pipe_roundtrip:
  fixes s :: "'a kpipe_scheme" and n :: i32
  assumes "cur s = Some p" and "held s = []" and "killed (procs s p) = 0"
    and "pipe_ok (pipes s pi)" and "pipe_bytes (pipes s pi) = []" and "readopen (pipes s pi) \<noteq> 0"
    and "sint n = int k" and "0 < k" and "k \<le> PIPESIZE"
    and "tree_ok e ps 2 (memory s) (pagetable (procs s p))"
    and "\<forall>j<k. umapped (memory s) (pagetable (procs s p)) (src + word_of_nat j)"
    and "aspace_ok e' ps' (memory s) (pagetable (procs s q))"
    and "\<forall>j<k. uwritable (memory s) (pagetable (procs s q)) (dst + word_of_nat j)"
  shows "\<exists>s1 s2. pipewrite pi src n s = Done (of_nat k) s1 \<and> piperead pi dst n (s1\<lparr>cur := Some q\<rparr>) = Done (of_nat k) s2
    \<and> (\<forall>j<k. ubyte (memory s2) (pagetable (procs s q)) (dst + word_of_nat j) = ubyte (memory s) (pagetable (procs s p)) (src + word_of_nat j))
    \<and> pipe_bytes (pipes s2 pi) = []"
proof -
  let ?bs = "map (\<lambda>j. ubyte (memory s) (pagetable (procs s p)) (src + word_of_nat j)) [0..<k]"
  let ?s0 = "s\<lparr>held := [L_pipe pi]\<rparr>"
  have "\<exists>q. pipewrite_loop p pi src n 0 ?s0 = pipewrite_end pi k (?s0\<lparr>pipes := (pipes ?s0)(pi := q)\<rparr>) \<and> pipe_ok q
    \<and> pipe_bytes q = pipe_bytes (pipes ?s0 pi) @ map (\<lambda>j. ubyte (memory ?s0) (pagetable (procs ?s0 p)) (src + word_of_nat j)) [0..<k]"
    by (rule pipewrite_loop_mapped) (use assms in simp_all)
  then obtain w where w: "pipewrite_loop p pi src n 0 ?s0 = pipewrite_end pi k (?s0\<lparr>pipes := (pipes s)(pi := w)\<rparr>)"
    "pipe_ok w" "pipe_bytes w = ?bs" using assms(5) by auto
  let ?s1 = "s\<lparr>held := [], pipes := (pipes s)(pi := w), procs := woken (Ch_nread pi) {0..<NPROC} (cur s) (procs s)\<rparr>"
  have 1: "pipewrite pi src n s = Done (of_nat k) ?s1"
    using assms(1,2) w(1) by (simp add: pipewrite_def pipewrite_end_eq)
  let ?t = "?s1\<lparr>cur := Some q, held := [L_pipe pi]\<rparr>"
  have "\<exists>q' m. piperead_copy q pi dst n 0 ?t = piperead_end pi (of_nat k) (?t\<lparr>memory := m, pipes := (pipes ?t)(pi := q')\<rparr>)
    \<and> pipe_bytes q' = drop (k - 0) (pipe_bytes (pipes ?t pi))
    \<and> received (pagetable (procs ?t q)) dst 0 k (pipe_bytes (pipes ?t pi)) (memory ?t) m"
    by (rule piperead_copy_mapped) (use assms w in \<open>simp_all add: PIPESIZE_def\<close>)
  then obtain q' m where r: "piperead_copy q pi dst n 0 ?t = piperead_end pi (of_nat k) (?t\<lparr>memory := m, pipes := (pipes ?t)(pi := q')\<rparr>)"
    "pipe_bytes q' = []" "received (pagetable (procs s q)) dst 0 k ?bs (memory s) m" using w(3) by auto
  have "nread w \<noteq> nwrite w" using w(3) assms(8) ring_Nil_iff [of PIPESIZE "data w" "nread w" "nwrite w"] by (auto simp: pipe_bytes_def)
  then have "\<exists>s2. piperead pi dst n (?s1\<lparr>cur := Some q\<rparr>) = Done (of_nat k) s2 \<and> memory s2 = m \<and> pipes s2 pi = q'"
    using r(1) by (simp add: piperead_def piperead_loop_def piperead_end_eq)
  then show ?thesis using 1 r(2,3) by (auto simp: received_def)
qed

theorem pipe_roundtrip_witness:
  "\<exists>s1 s2. pipewrite 0x80030000 16 2 (with_pipes (two_procs\<lparr>memory := one_page_mem,
        procs := (\<lambda>_. blank_proc\<lparr>pagetable := 0x80022000\<rparr>)\<rparr>)) = Done 2 s1
     \<and> piperead 0x80030000 17 2 (s1\<lparr>cur := Some 1\<rparr>) = Done 2 s2"
proof -
  let ?s = "with_pipes (two_procs\<lparr>memory := one_page_mem, procs := (\<lambda>_. blank_proc\<lparr>pagetable := 0x80022000\<rparr>)\<rparr>)"
  have "PGROUNDDOWN 16 = 0" "PGROUNDDOWN 17 = 0" "PGROUNDDOWN 18 = 0" by (simp_all add: PGROUNDDOWN_def PGSIZE_def)
  then have w: "uwritable one_page_mem 0x80022000 16" "uwritable one_page_mem 0x80022000 17" "uwritable one_page_mem 0x80022000 18"
    using one_page_flags(3) by (simp_all add: uwritable_def umapped_def one_page_user_pa one_page_tree vpn_def PX_def)
  then have src: "\<forall>j<2. umapped (memory ?s) (pagetable (procs ?s 0)) (16 + word_of_nat j)"
    by (auto simp: uwritable_def less_Suc_eq numeral_2_eq_2)
  have dst: "\<forall>j<2. uwritable (memory ?s) (pagetable (procs ?s 1)) (17 + word_of_nat j)"
    using w by (auto simp: less_Suc_eq numeral_2_eq_2)
  have as: "aspace_ok 0x80021000 [] (memory ?s) (pagetable (procs ?s q))" for q using one_page_aspace by simp
  then have "tree_ok 0x80021000 [] 2 (memory ?s) (pagetable (procs ?s 0))" by (simp add: aspace_ok_def)
  from pipe_roundtrip [of ?s 0 "0x80030000" 2 2, OF _ _ _ _ _ _ _ _ _ this src as dst] show ?thesis
    by (auto simp: two_procs_def blank_kstate_def blank_proc_def pipe_ok_def pipe_bytes_def blank_pipe_def PIPESIZE_def)
qed

end
