(* ===== verification/Console.thy ===== *)
theory Console
  imports Pipe
begin

text \<open>
  The console (\<^verbatim>\<open>kernel/console.c\<close>) and the interrupt-driven part of the UART driver
  (\<^verbatim>\<open>kernel/uart.c\<close>).

  The device is seen through its registers: \<open>uart_out\<close> is what was written to the transmit register,
  \<open>uart_rx\<close> what is waiting in the receive register, \<open>tx_idle\<close> the transmit bit of the line status, \<open>uart_ctl\<close> the writes to the
  control registers, as pairs of a register number and a byte. \<open>devsw_read\<close> and \<open>devsw_write\<close> are the two columns of the device table.
\<close>

section \<open>Definitions\<close>

definition INPUT_BUF_SIZE :: nat where "INPUT_BUF_SIZE = 128"

definition CONSOLE :: nat where "CONSOLE = 1"

text \<open>The control character of a letter.\<close>

definition Ctl :: "char \<Rightarrow> u8" where "Ctl x = chr x - chr CHR ''@''"

datatype devfn = Consoleread | Consolewrite

record kcons = kpipe +
  cons_buf :: "nat \<Rightarrow> u8"
  cons_r :: u32
  cons_w :: u32
  cons_e :: u32
  tx_busy :: i32
  tx_idle :: bool
  uart_rx :: "u8 list"
  uart_ctl :: "(nat \<times> u8) list"
  devsw_read :: "nat \<Rightarrow> devfn option"
  devsw_write :: "nat \<Rightarrow> devfn option"

subsection \<open>UART\<close>

definition WriteReg :: "nat \<Rightarrow> u8 \<Rightarrow> 'a kcons_scheme \<Rightarrow> 'a kcons_scheme" where
  "WriteReg r v s = s\<lparr>uart_ctl := uart_ctl s @ [(r, v)]\<rparr>"

definition uartinit :: "'a kcons_scheme \<Rightarrow> 'a kcons_scheme" where
  "uartinit s =
     (let s = WriteReg 1 0x00 s;
          s = WriteReg 3 0x80 s;
          s = WriteReg 0 0x03 s;
          s = WriteReg 1 0x00 s;
          s = WriteReg 3 0x03 s;
          s = WriteReg 2 (0x01 OR 0x06) s;
          s = WriteReg 1 (0x02 OR 0x01) s
      in init_lock L_tx s)"

primrec uartwrite_loop :: "u8 list \<Rightarrow> 'a kcons_scheme \<Rightarrow> (unit, 'a kcons_scheme) outcome" where
  "uartwrite_loop [] s = release L_tx s"
| "uartwrite_loop (c # cs) s =
     (if tx_busy s \<noteq> 0 then bnd (sleep Ch_tx L_tx s) (\<lambda>_ s. Sleep s)
      else
        let s = s\<lparr>uart_out := uart_out s @ [c]\<rparr>; s = s\<lparr>tx_busy := 1\<rparr>
        in uartwrite_loop cs s)"

definition uartwrite :: "u8 list \<Rightarrow> 'a kcons_scheme \<Rightarrow> (unit, 'a kcons_scheme) outcome" where
  "uartwrite bs s = bnd (acquire L_tx s) (\<lambda>_ s. uartwrite_loop bs s)"

text \<open>Taken up again with the bytes that are still to be sent.\<close>

definition uartwrite_resume :: "u8 list \<Rightarrow> 'a kcons_scheme \<Rightarrow> (unit, 'a kcons_scheme) outcome" where
  "uartwrite_resume bs s = bnd (sleep_resume L_tx s) (\<lambda>_ s. uartwrite_loop bs s)"

definition uartgetc :: "'a kcons_scheme \<Rightarrow> u8 option \<times> 'a kcons_scheme" where
  "uartgetc s = (case uart_rx s of [] \<Rightarrow> (None, s) | c # cs \<Rightarrow> (Some c, s\<lparr>uart_rx := cs\<rparr>))"

subsection \<open>Console output and input\<close>

function consolewrite_loop :: "bool \<Rightarrow> u64 \<Rightarrow> i32 \<Rightarrow> nat \<Rightarrow> 'a kcons_scheme \<Rightarrow> (i32, 'a kcons_scheme) outcome" where
  "consolewrite_loop user_src src n i s =
     (if int i < sint n then
        let nn = min 32 (nat (sint n) - i) in
        bnd (either_copyin user_src (src + of_nat i) nn s) (\<lambda>(buf, r) s.
          if r = - 1 then Done (of_nat i) s
          else bnd (uartwrite buf s) (\<lambda>_ s. consolewrite_loop user_src src n (i + nn) s))
      else Done (of_nat i) s)"
  by pat_completeness auto

termination consolewrite_loop
  by (relation "measure (\<lambda>(u, src, n, i, s). nat (sint n) - i)") auto

definition consolewrite :: "bool \<Rightarrow> u64 \<Rightarrow> i32 \<Rightarrow> 'a kcons_scheme \<Rightarrow> (i32, 'a kcons_scheme) outcome" where
  "consolewrite user_src src n s = consolewrite_loop user_src src n 0 s"

text \<open>Taken up again inside \<^verbatim>\<open>uartwrite\<close>: \<open>rest\<close> of the batch that ends at offset \<open>i\<close> is still to be sent.\<close>

definition consolewrite_resume :: "bool \<Rightarrow> u64 \<Rightarrow> i32 \<Rightarrow> nat \<Rightarrow> u8 list \<Rightarrow> 'a kcons_scheme \<Rightarrow> (i32, 'a kcons_scheme) outcome" where
  "consolewrite_resume user_src src n i rest s =
     bnd (uartwrite_resume rest s) (\<lambda>_ s. consolewrite_loop user_src src n i s)"

text \<open>The loop of \<^verbatim>\<open>consoleread\<close>: \<open>n\<close> is what is still to be read of \<open>target\<close>.\<close>

primrec consoleread_loop :: "bool \<Rightarrow> u64 \<Rightarrow> nat \<Rightarrow> nat \<Rightarrow> 'a kcons_scheme \<Rightarrow> (i32, 'a kcons_scheme) outcome" where
  "consoleread_loop user_dst dst target 0 s = bnd (release L_cons s) (\<lambda>_ s. Done (of_nat target) s)"
| "consoleread_loop user_dst dst target (Suc n) s =
     (if cons_r s = cons_w s then
        with_myproc s (\<lambda>p.
          bnd (is_killed p s) (\<lambda>k s.
            if k \<noteq> 0 then bnd (release L_cons s) (\<lambda>_ s. Done (- 1) s)
            else bnd (sleep Ch_cons L_cons s) (\<lambda>_ s. Sleep s)))
      else
        let c = cons_buf s (unat (cons_r s) mod INPUT_BUF_SIZE);
            s = s\<lparr>cons_r := cons_r s + 1\<rparr>;
            finish = (\<lambda>k s. bnd (release L_cons s) (\<lambda>_ s. Done (of_nat (target - k)) s))
        in
        if c = Ctl CHR ''D'' then
          finish (Suc n) (if Suc n < target then s\<lparr>cons_r := cons_r s - 1\<rparr> else s)
        else bnd (either_copyout user_dst dst [c] s) (\<lambda>r s.
          if r = - 1 then finish (Suc n) s
          else if c = 10 then finish n s
          else consoleread_loop user_dst (dst + 1) target n s))"

definition consoleread :: "bool \<Rightarrow> u64 \<Rightarrow> i32 \<Rightarrow> 'a kcons_scheme \<Rightarrow> (i32, 'a kcons_scheme) outcome" where
  "consoleread user_dst dst n s =
     bnd (acquire L_cons s) (\<lambda>_ s. consoleread_loop user_dst dst (nat (sint n)) (nat (sint n)) s)"

definition consoleread_resume :: "bool \<Rightarrow> u64 \<Rightarrow> nat \<Rightarrow> nat \<Rightarrow> 'a kcons_scheme \<Rightarrow> (i32, 'a kcons_scheme) outcome" where
  "consoleread_resume user_dst dst target n s =
     bnd (sleep_resume L_cons s) (\<lambda>_ s. consoleread_loop user_dst dst target n s)"

subsection \<open>Input interrupts\<close>

function kill_line :: "'a kcons_scheme \<Rightarrow> (unit, 'a kcons_scheme) outcome" where
  "kill_line s =
     (if cons_e s \<noteq> cons_w s \<and> cons_buf s (unat (cons_e s - 1) mod INPUT_BUF_SIZE) \<noteq> 10 then
        let s = s\<lparr>cons_e := cons_e s - 1\<rparr> in bnd (consputc BACKSPACE s) (\<lambda>_ s. kill_line s)
      else Done () s)"
  by pat_completeness auto

lemma consputc_Done_eq:
  "consputc c s = (if panicked s \<noteq> 0 then Spin else
     Done () (s\<lparr>uart_out := uart_out s @ (if c = BACKSPACE then [8, 32, 8] else [ucast c])\<rparr>))"
  by (simp add: consputc_def uartputc_sync_def)

termination kill_line
  by (relation "measure (\<lambda>s. unat (cons_e s - cons_w s))")
    (auto simp: consputc_Done_eq unat_diff_pred(2) split: if_splits)

declare kill_line.simps [simp del] consolewrite_loop.simps [simp del]

definition consoleintr :: "u8 \<Rightarrow> 'a kcons_scheme \<Rightarrow> (unit, 'a kcons_scheme) outcome" where
  "consoleintr c s =
     bnd (acquire L_cons s) (\<lambda>_ s.
     bnd (if c = Ctl CHR ''P'' then procdump s
          else if c = Ctl CHR ''U'' then kill_line s
          else if c = Ctl CHR ''H'' \<or> c = 0x7f then
            if cons_e s \<noteq> cons_w s then
              let s = s\<lparr>cons_e := cons_e s - 1\<rparr> in consputc BACKSPACE s
            else Done () s
          else if c \<noteq> 0 \<and> unat (cons_e s - cons_r s) < INPUT_BUF_SIZE then
            let c = (if c = 13 then 10 else c) in
            bnd (consputc (ucast c) s) (\<lambda>_ s.
              let s = s\<lparr>cons_buf := (cons_buf s)(unat (cons_e s) mod INPUT_BUF_SIZE := c)\<rparr>;
                  s = s\<lparr>cons_e := cons_e s + 1\<rparr>
              in
              if c = 10 \<or> c = Ctl CHR ''D'' \<or> unat (cons_e s - cons_r s) = INPUT_BUF_SIZE then
                let s = s\<lparr>cons_w := cons_e s\<rparr> in wakeup Ch_cons s
              else Done () s)
          else Done () s) (\<lambda>_ s. release L_cons s))"

primrec uartintr_loop :: "nat \<Rightarrow> 'a kcons_scheme \<Rightarrow> (unit, 'a kcons_scheme) outcome" where
  "uartintr_loop 0 s = Spin"
| "uartintr_loop (Suc fuel) s =
     (case uartgetc s of
        (None, s) \<Rightarrow> Done () s
      | (Some c, s) \<Rightarrow> bnd (consoleintr c s) (\<lambda>_ s. uartintr_loop fuel s))"

text \<open>The loop takes one waiting byte in each round, so one more round than there are bytes is enough.\<close>

definition uartintr :: "'a kcons_scheme \<Rightarrow> (unit, 'a kcons_scheme) outcome" where
  "uartintr s =
     bnd (acquire L_tx s) (\<lambda>_ s.
     bnd (if tx_idle s then wakeup Ch_tx (s\<lparr>tx_busy := 0\<rparr>) else Done () s) (\<lambda>_ s.
     bnd (release L_tx s) (\<lambda>_ s. uartintr_loop (Suc (length (uart_rx s))) s)))"

definition consoleinit :: "'a kcons_scheme \<Rightarrow> 'a kcons_scheme" where
  "consoleinit s =
     (let s = init_lock L_cons s;
          s = uartinit s;
          s = s\<lparr>devsw_read := (devsw_read s)(CONSOLE := Some Consoleread)\<rparr>
      in s\<lparr>devsw_write := (devsw_write s)(CONSOLE := Some Consolewrite)\<rparr>)"

section \<open>Example states\<close>

definition with_console :: "kpipe \<Rightarrow> kcons" where
  "with_console s = kpipe.extend s (kcons.fields (\<lambda>_. 0) 0 0 0 0 True [] [] (\<lambda>_. None) (\<lambda>_. None))"

lemma with_console_fields [simp]:
  "cons_buf (with_console s) = (\<lambda>_. 0)" "cons_r (with_console s) = 0" "cons_w (with_console s) = 0" "cons_e (with_console s) = 0"
  "held (with_console s) = held s" "cur (with_console s) = cur s" "procs (with_console s) = procs s"
  "panicked (with_console s) = panicked s" "memory (with_console s) = memory s" "pipes (with_console s) = pipes s"
  "tframes (with_console s) = tframes s"
  by (simp_all add: with_console_def kpipe.defs kcons.defs)

section \<open>The console is a line editor\<close>

text \<open>
  What the input side promises: the bytes handed over to readers and the line that is being edited,
  with the effect of each typed character on them.
\<close>

definition edit :: "u8 \<Rightarrow> u8 list \<times> u8 list \<Rightarrow> u8 list \<times> u8 list" where
  "edit c = (\<lambda>(ready, line).
     if c = 16 then (ready, line)
     else if c = 21 then (ready, [])
     else if c = 8 \<or> c = 127 then (ready, butlast line)
     else if c \<noteq> 0 \<and> length ready + length line < 128 then
       let d = (if c = 13 then 10 else c) in
       if d = 10 \<or> d = 4 \<or> length ready + length line = 127 then (ready @ line @ [d], [])
       else (ready, line @ [d])
     else (ready, line))"

definition cons_abs :: "'a kcons_scheme \<Rightarrow> u8 list \<times> u8 list" where
  "cons_abs s = (ring INPUT_BUF_SIZE (cons_buf s) (cons_r s) (cons_w s),
     ring INPUT_BUF_SIZE (cons_buf s) (cons_w s) (cons_e s))"

definition cons_ok :: "'a kcons_scheme \<Rightarrow> bool" where
  "cons_ok s \<longleftrightarrow> unat (cons_w s - cons_r s) \<le> unat (cons_e s - cons_r s)
     \<and> unat (cons_e s - cons_r s) \<le> INPUT_BUF_SIZE \<and> 10 \<notin> set (snd (cons_abs s))"

lemma Ctl_eqs [simp]: "Ctl CHR ''P'' = 16" "Ctl CHR ''U'' = 21" "Ctl CHR ''H'' = 8" "Ctl CHR ''D'' = 4"
  by (simp_all add: Ctl_def chr_def)

lemma cons_upper:
  assumes "upper s t"
  shows "cons_buf t = cons_buf s" "cons_r t = cons_r s" "cons_w t = cons_w s" "cons_e t = cons_e s"
    "cons_abs t = cons_abs s" "cons_ok t = cons_ok s"
proof -
  show *: "cons_buf t = cons_buf s" "cons_r t = cons_r s" "cons_w t = cons_w s" "cons_e t = cons_e s"
    using assms unfolding upper_def by (cases s; cases t; simp)+
  then show "cons_abs t = cons_abs s" "cons_ok t = cons_ok s" by (simp_all add: cons_abs_def cons_ok_def)
qed

lemma cons_lengths:
  assumes "cons_ok s"
  shows "length (fst (cons_abs s)) + length (snd (cons_abs s)) = unat (cons_e s - cons_r s)"
    "fst (cons_abs s) @ snd (cons_abs s) = ring INPUT_BUF_SIZE (cons_buf s) (cons_r s) (cons_e s)"
proof -
  show *: "fst (cons_abs s) @ snd (cons_abs s) = ring INPUT_BUF_SIZE (cons_buf s) (cons_r s) (cons_e s)"
    using ring128.split_at [of "cons_w s" "cons_r s" "cons_e s" "cons_buf s"] assms
    by (simp add: cons_ok_def cons_abs_def INPUT_BUF_SIZE_def)
  show "length (fst (cons_abs s)) + length (snd (cons_abs s)) = unat (cons_e s - cons_r s)"
    using arg_cong [OF *, of length] by simp
qed

lemma cons_backspace:
  assumes "cons_ok s" and "cons_e s \<noteq> cons_w s"
  defines "t \<equiv> s\<lparr>cons_e := cons_e s - 1\<rparr>"
  shows "cons_ok t" and "cons_abs t = (fst (cons_abs s), butlast (snd (cons_abs s)))"
proof -
  have line: "snd (cons_abs s) = snd (cons_abs t) @ [cons_buf s (unat (cons_e s - 1) mod INPUT_BUF_SIZE)]"
    using ring128.unpush [of "cons_w s" "cons_e s" "cons_buf s"] assms(2) by (simp add: t_def cons_abs_def INPUT_BUF_SIZE_def)
  then show a: "cons_abs t = (fst (cons_abs s), butlast (snd (cons_abs s)))" by (simp add: t_def cons_abs_def)
  have "0 < unat (cons_e s - cons_w s)" using assms(2) by (simp add: unat_gt_0)
  then have "unat (cons_w s - cons_r s) < unat (cons_e s - cons_r s)"
    using cons_lengths(1) [OF assms(1)] by (simp add: cons_abs_def)
  moreover from this have "cons_e s \<noteq> cons_r s" by auto
  ultimately show "cons_ok t" using assms(1) a unat_diff_pred(2) [of "cons_e s" "cons_r s"] line
    by (auto simp: cons_ok_def t_def dest: in_set_butlastD)
qed

lemma upper_putc [uppers]: "upper s t \<Longrightarrow> ends (upper s) (consputc c t)"
  by (simp add: consputc_Done_eq)

lemma upper_puts [uppers]: "upper s t \<Longrightarrow> ends (upper s) (consputs cs t)"
  by (induction cs arbitrary: t) (auto intro!: uppers)

lemma upper_printint [uppers]: "upper s t \<Longrightarrow> ends (upper s) (printint x b sg t)" "upper s t \<Longrightarrow> ends (upper s) (printptr x t)"
  by (auto simp: printint_def printptr_def Let_def intro!: uppers)

lemma upper_printf_loop: "upper s t \<Longrightarrow> ends (upper s) (printf_loop f ap t)"
proof (induction "length f" arbitrary: f ap t rule: less_induct)
  case less
  show ?case
  proof (cases f)
    case (Cons cx g)
    have ih: "upper s t \<Longrightarrow> ends (upper s) (printf_loop (drop k g) ap t)" for k ap t
      by (rule less.hyps) (simp_all add: Cons)
    note ih0 = ih [of _ 0, simplified]
    show ?thesis unfolding Cons printf_loop.simps Let_def
      by (rule less.prems upper_if upper_bnd ih ih0 uppers | assumption)+
  qed (simp add: less.prems)
qed

lemma upper_printf [uppers]: "upper s t \<Longrightarrow> ends (upper s) (printf f ap t)"
  unfolding printf_def by (intro uppers upper_printf_loop) (assumption | simp)+

lemma upper_procdump [uppers]: "upper s t \<Longrightarrow> ends (upper s) (procdump t)"
proof -
  have "upper s t \<Longrightarrow> ends (upper s) (procdump_loop ps t)" for ps t
    by (induction ps arbitrary: t) (auto intro!: uppers)
  then show "upper s t \<Longrightarrow> ends (upper s) (procdump t)" unfolding procdump_def by (auto intro!: uppers)
qed

lemma kill_line_clears:
  "cons_ok s \<Longrightarrow> panicked s = 0 \<Longrightarrow> \<exists>out. kill_line s = Done () (s\<lparr>cons_e := cons_w s, uart_out := out\<rparr>)"
proof (induction s rule: kill_line.induct)
  case (1 s)
  show ?case
  proof (cases "cons_e s = cons_w s")
    case True
    then show ?thesis by (intro exI [of _ "uart_out s"]) (simp add: kill_line.simps [of s])
  next
    case False
    let ?t = "s\<lparr>cons_e := cons_e s - 1\<rparr>"
    let ?u = "?t\<lparr>uart_out := uart_out s @ [8, 32, 8]\<rparr>"
    have "cons_buf s (unat (cons_e s - 1) mod INPUT_BUF_SIZE) \<in> set (snd (cons_abs s))"
      using ring128.unpush [of "cons_w s" "cons_e s" "cons_buf s"] False by (simp add: cons_abs_def INPUT_BUF_SIZE_def)
    then have nl: "cons_buf s (unat (cons_e s - 1) mod INPUT_BUF_SIZE) \<noteq> 10" using "1.prems"(1) by (auto simp: cons_ok_def)
    have put: "consputc BACKSPACE ?t = Done () ?u" using "1.prems"(2) by (simp add: consputc_Done_eq)
    have "cons_ok ?u" using cons_backspace(1) [OF "1.prems"(1) False] by (simp add: cons_ok_def cons_abs_def)
    then obtain out where "kill_line ?u = Done () (?u\<lparr>cons_e := cons_w ?u, uart_out := out\<rparr>)"
      using "1.IH" [OF _ refl put] False nl "1.prems"(2) by auto
    then show ?thesis using False nl put by (intro exI [of _ out]) (simp add: kill_line.simps [of s])
  qed
qed

lemma cons_typed:
  fixes d :: u8
  assumes "cons_ok s" and "unat (cons_e s - cons_r s) < INPUT_BUF_SIZE" and "d \<noteq> 10"
  defines "t \<equiv> s\<lparr>cons_buf := (cons_buf s)(unat (cons_e s) mod INPUT_BUF_SIZE := d), cons_e := cons_e s + 1\<rparr>"
  shows "cons_ok t" "cons_abs t = (fst (cons_abs s), snd (cons_abs s) @ [d])"
proof -
  let ?b = "(cons_buf s)(unat (cons_e s) mod 128 := d)"
  have n: "unat (cons_e s - cons_r s) < 128" "unat (cons_w s - cons_r s) \<le> unat (cons_e s - cons_r s)"
    using assms(1,2) by (simp_all add: cons_ok_def INPUT_BUF_SIZE_def)
  have l: "unat (cons_e s + 1 - cons_r s) = Suc (unat (cons_e s - cons_r s))"
    using unat_diff_succ [of "cons_e s" "cons_r s"] n by simp
  have "unat (cons_e s - cons_w s) < 128" using cons_lengths(1) [OF assms(1)] n by (simp add: cons_abs_def)
  then have line: "ring 128 ?b (cons_w s) (cons_e s + 1) = ring 128 (cons_buf s) (cons_w s) (cons_e s) @ [d]"
    by (rule ring128.push)
  have "ring 128 ?b (cons_r s) (cons_w s) @ ring 128 ?b (cons_w s) (cons_e s + 1) = ring 128 ?b (cons_r s) (cons_e s + 1)"
    using ring128.split_at [of "cons_w s" "cons_r s" "cons_e s + 1" ?b] l n(2) by simp
  also have "\<dots> = ring 128 (cons_buf s) (cons_r s) (cons_w s) @ ring 128 (cons_buf s) (cons_w s) (cons_e s) @ [d]"
    using ring128.push [OF n(1), of "cons_buf s" d] ring128.split_at [OF n(2), of "cons_buf s"] by simp
  finally have "ring 128 ?b (cons_r s) (cons_w s) = ring 128 (cons_buf s) (cons_r s) (cons_w s)" by (simp add: line)
  then show a: "cons_abs t = (fst (cons_abs s), snd (cons_abs s) @ [d])"
    using line by (simp add: cons_abs_def t_def INPUT_BUF_SIZE_def)
  show "cons_ok t" using a assms(1,3) n l by (simp add: cons_ok_def) (simp add: t_def INPUT_BUF_SIZE_def)
qed

lemma cons_committed:
  fixes d :: u8
  assumes "cons_ok s" and "unat (cons_e s - cons_r s) < INPUT_BUF_SIZE"
  defines "t \<equiv> s\<lparr>cons_buf := (cons_buf s)(unat (cons_e s) mod INPUT_BUF_SIZE := d), cons_e := cons_e s + 1, cons_w := cons_e s + 1\<rparr>"
  shows "cons_ok t" "cons_abs t = (fst (cons_abs s) @ snd (cons_abs s) @ [d], [])"
proof -
  have l: "unat (cons_e s + 1 - cons_r s) = Suc (unat (cons_e s - cons_r s))"
    using unat_diff_succ [of "cons_e s" "cons_r s"] assms(2) by (simp add: INPUT_BUF_SIZE_def)
  show "cons_ok t" using l assms(2) by (simp add: cons_ok_def cons_abs_def t_def)
  show "cons_abs t = (fst (cons_abs s) @ snd (cons_abs s) @ [d], [])"
    using ring128.push [of "cons_e s" "cons_r s" "cons_buf s" d] assms(2) cons_lengths(2) [OF assms(1)]
    by (simp add: cons_abs_def t_def INPUT_BUF_SIZE_def)
qed

lemma cons_frame [simp]:
  "cons_abs (s\<lparr>held := h\<rparr>) = cons_abs s" "cons_abs (s\<lparr>uart_out := u\<rparr>) = cons_abs s" "cons_abs (s\<lparr>procs := p\<rparr>) = cons_abs s"
  "cons_ok (s\<lparr>held := h\<rparr>) = cons_ok s" "cons_ok (s\<lparr>uart_out := u\<rparr>) = cons_ok s" "cons_ok (s\<lparr>procs := p\<rparr>) = cons_ok s"
  by (simp_all add: cons_abs_def cons_ok_def)

text \<open>The effect of one character, apart from the locking: the case distinction of \<^verbatim>\<open>consoleintr\<close>.\<close>

definition edits :: "u8 \<Rightarrow> 'a kcons_scheme \<Rightarrow> 'a kcons_scheme \<Rightarrow> bool" where
  "edits c s s' \<longleftrightarrow> cons_ok s' \<and> cons_abs s' = edit c (cons_abs s) \<and> held s' = held s"

lemma edits_kill:
  assumes "cons_ok s" and "panicked s = 0"
  shows "\<exists>s'. kill_line s = Done () s' \<and> edits 21 s s'"
  using kill_line_clears [OF assms] assms(1)
  by (auto simp: edits_def edit_def cons_abs_def cons_ok_def)

lemma edits_backspace:
  assumes "cons_ok s" and "panicked s = 0" and "c = 8 \<or> c = 127"
  shows "\<exists>s'. (if cons_e s \<noteq> cons_w s then consputc BACKSPACE (s\<lparr>cons_e := cons_e s - 1\<rparr>) else Done () s) = Done () s' \<and> edits c s s'"
proof (cases "cons_e s = cons_w s")
  case True
  then show ?thesis using assms by (auto simp: edits_def edit_def cons_abs_def split_beta)
next
  case False
  then show ?thesis using assms cons_backspace [OF assms(1) False]
    by (auto simp: consputc_Done_eq edits_def edit_def split_beta)
qed

lemma edits_typed:
  fixes s :: "'a kcons_scheme"
  assumes "cons_ok s" and "no_proc_locks s" and "unat (cons_e s - cons_r s) < INPUT_BUF_SIZE"
    and "c \<notin> {16, 21, 8, 127, 0}" and "d = (if c = 13 then 10 else c)"
  defines "t \<equiv> s\<lparr>cons_buf := (cons_buf s)(unat (cons_e s) mod INPUT_BUF_SIZE := d), cons_e := cons_e s + 1\<rparr>"
  shows "\<exists>s'. (if d = 10 \<or> d = 4 \<or> unat (cons_e t - cons_r t) = INPUT_BUF_SIZE then wakeup Ch_cons (t\<lparr>cons_w := cons_e t\<rparr>)
     else Done () t) = Done () s' \<and> edits c s s'"
proof -
  have len: "length (fst (cons_abs s)) + length (snd (cons_abs s)) = unat (cons_e s - cons_r s)"
    by (rule cons_lengths [OF assms(1)])
  have full: "unat (cons_e s + 1 - cons_r s) = INPUT_BUF_SIZE \<longleftrightarrow> unat (cons_e s - cons_r s) = 127"
    using unat_diff_succ [of "cons_e s" "cons_r s"] assms(3) by (simp add: INPUT_BUF_SIZE_def)
  have ed: "edit c (cons_abs s) = (if d = 10 \<or> d = 4 \<or> unat (cons_e s - cons_r s) = 127
      then (fst (cons_abs s) @ snd (cons_abs s) @ [d], []) else (fst (cons_abs s), snd (cons_abs s) @ [d]))"
    using assms(3-5) len by (simp add: edit_def split_beta Let_def INPUT_BUF_SIZE_def)
  have "no_proc_locks (t\<lparr>cons_w := cons_e t\<rparr>)" using assms(2) by (simp add: no_proc_locks_def t_def)
  then obtain ps where "wakeup Ch_cons (t\<lparr>cons_w := cons_e t\<rparr>) = Done () (t\<lparr>cons_w := cons_e t, procs := ps\<rparr>)"
    using wakeup_eq [of "t\<lparr>cons_w := cons_e t\<rparr>" Ch_cons] by (auto simp: no_proc_locks_def)
  then show ?thesis using cons_committed [OF assms(1,3), of d] cons_typed [OF assms(1,3), of d]
    by (cases "d = 10 \<or> d = 4 \<or> unat (cons_e s - cons_r s) = 127") (auto simp: edits_def ed full t_def)
qed

lemma edits_input:
  assumes "cons_ok u" and "no_proc_locks u" and "unat (cons_e u - cons_r u) < INPUT_BUF_SIZE"
    and "c \<notin> {16, 21, 8, 127, 0}" and "d = (if c = 13 then 10 else c)"
  shows "\<exists>s'. (let u = u\<lparr>cons_buf := (cons_buf u)(unat (cons_e u) mod INPUT_BUF_SIZE := d)\<rparr>; u = u\<lparr>cons_e := cons_e u + 1\<rparr>
          in if d = 10 \<or> d = Ctl CHR ''D'' \<or> unat (cons_e u - cons_r u) = INPUT_BUF_SIZE
             then let u = u\<lparr>cons_w := cons_e u\<rparr> in wakeup Ch_cons u else Done () u) = Done () s' \<and> edits c u s'"
  using edits_typed [OF assms] unfolding Let_def Ctl_eqs by (simp cong: if_cong)

lemma ucast_u8_not_BACKSPACE: "ucast (c :: u8) \<noteq> BACKSPACE"
proof
  assume "ucast c = BACKSPACE"
  then have "unat (ucast c :: i32) = 256" by (simp add: BACKSPACE_def)
  moreover have c: "unat c < 256" using unsigned_less [of c] by simp
  ultimately show False by (simp add: unsigned_ucast_eq take_bit_nat_eq_self)
qed

text \<open>
  C20 (refinement): the input side of the console is a line editor with 128 bytes of room. Every
  character that arrives has exactly the effect the editor gives it (erase, kill the line,
  end of line or of file, text, or nothing when the buffer is full) on the bytes readers may take
  and on the line being edited, across any wrap of the three counters, and the interrupt handler returns; control-P only
  prints.
\<close>

theorem console_line_editor:
  assumes "cons_ok s" and "L_cons \<notin> set (held s)" and "no_proc_locks s" and "panicked s = 0"
  shows "ends (\<lambda>s'. cons_ok s' \<and> cons_abs s' = edit c (cons_abs s)) (consoleintr c s)
    \<and> (c \<noteq> 16 \<longrightarrow> (\<exists>s'. consoleintr c s = Done () s'))"
proof -
  let ?s = "s\<lparr>held := L_cons # held s\<rparr>"
  have s: "cons_ok ?s" "panicked ?s = 0" "no_proc_locks ?s" "cons_abs ?s = cons_abs s"
    using assms by (simp_all add: no_proc_locks_def)
  have fin: "(\<exists>u. bnd (Done () t) (\<lambda>_ t. release L_cons t) = Done () u \<and> cons_ok u \<and> cons_abs u = edit c (cons_abs s))"
    if "edits c ?s t" for t using that by (simp add: edits_def)
  consider "c = 16" | "c = 21" | "c = 8 \<or> c = 127" | "c \<notin> {16, 21, 8, 127}" by auto
  then show ?thesis
  proof cases
    case 1
    have "ends (\<lambda>t. cons_ok t \<and> cons_abs t = cons_abs s) (bnd (procdump ?s) (\<lambda>_ t. release L_cons t))"
      by (rule ends_mono [of "upper ?s"], intro uppers upper_procdump) (use s in \<open>auto simp: cons_upper\<close>)
    then show ?thesis using 1 assms(2) by (simp add: consoleintr_def edit_def split_beta)
  next
    case 2
    then show ?thesis using edits_kill [OF s(1,2)] fin assms(2) by (fastforce simp: consoleintr_def)
  next
    case 3
    then show ?thesis using edits_backspace [OF s(1,2) 3] fin assms(2) by (fastforce simp: consoleintr_def Let_def)
  next
    case 4
    show ?thesis
    proof (cases "c \<noteq> 0 \<and> unat (cons_e s - cons_r s) < INPUT_BUF_SIZE")
      case False
      then have "edit c (cons_abs s) = cons_abs s" using 4 cons_lengths(1) [OF assms(1)]
        by (auto simp: edit_def split_beta INPUT_BUF_SIZE_def)
      then show ?thesis using False 4 assms(1,2) by (auto simp: consoleintr_def)
    next
      case True
      define d where "d = (if c = 13 then 10 else c)"
      let ?u = "?s\<lparr>uart_out := uart_out s @ [ucast (ucast d :: i32)]\<rparr>"
      have put: "consputc (ucast d) ?s = Done () ?u" using assms(4) by (simp add: consputc_Done_eq ucast_u8_not_BACKSPACE)
      have "cons_ok ?u" "no_proc_locks ?u" "unat (cons_e ?u - cons_r ?u) < INPUT_BUF_SIZE" "c \<notin> {16, 21, 8, 127, 0}"
        using s True 4 by (auto simp: no_proc_locks_def)
      from edits_input [OF this d_def] obtain s' where s': "edits c ?u s'"
        "(let u = ?u\<lparr>cons_buf := (cons_buf ?u)(unat (cons_e ?u) mod INPUT_BUF_SIZE := d)\<rparr>; u = u\<lparr>cons_e := cons_e u + 1\<rparr>
          in if d = 10 \<or> d = Ctl CHR ''D'' \<or> unat (cons_e u - cons_r u) = INPUT_BUF_SIZE
             then let u = u\<lparr>cons_w := cons_e u\<rparr> in wakeup Ch_cons u else Done () u) = Done () s'" by blast
      have "consoleintr c s = bnd (Done () s') (\<lambda>_ t. release L_cons t)"
        unfolding consoleintr_def d_def [symmetric] using put s'(2) 4 True assms(2) by (simp add: Let_def [of d])
      moreover have "edits c ?s s'" using s'(1) by (simp add: edits_def)
      ultimately show ?thesis using fin [of s'] by auto
    qed
  qed
qed

theorem console_line_editor_witness:
  "cons_ok (with_console (with_pipes two_procs)) \<and> (\<exists>s'. consoleintr 97 (with_console (with_pipes two_procs)) = Done () s' \<and> cons_abs s' = ([], [97]))"
proof -
  let ?s = "with_console (with_pipes two_procs)"
  have "cons_ok ?s" "L_cons \<notin> set (held ?s)" "no_proc_locks ?s" "panicked ?s = 0" "cons_abs ?s = ([], [])"
    by (simp_all add: cons_ok_def cons_abs_def no_proc_locks_def two_procs_def blank_kstate_def with_pipes_def kstate.defs kpipe.defs)
  with console_line_editor [OF this(1-4), of 97] show ?thesis by (auto simp: edit_def)
qed

section \<open>Reading takes lines from the front\<close>

definition took :: "'a kcons_scheme \<Rightarrow> 'a kcons_scheme \<Rightarrow> bool" where
  "took s s' \<longleftrightarrow> cons_ok s' \<and> (\<exists>k \<le> length (fst (cons_abs s)). cons_abs s' = (drop k (fst (cons_abs s)), snd (cons_abs s))
     \<and> (\<forall>i. Suc i < k \<longrightarrow> fst (cons_abs s) ! i \<noteq> 10))"

lemma took_upper: "cons_ok s \<Longrightarrow> upper s t \<Longrightarrow> took s t"
  unfolding took_def by (auto simp: cons_upper intro!: exI [of _ 0])

lemma cons_next:
  assumes "cons_ok s" and "cons_r s \<noteq> cons_w s"
  defines "t \<equiv> s\<lparr>cons_r := cons_r s + 1\<rparr>"
  shows "cons_ok t" and "fst (cons_abs s) = cons_buf s (unat (cons_r s) mod INPUT_BUF_SIZE) # fst (cons_abs t)"
    and "snd (cons_abs t) = snd (cons_abs s)"
proof -
  show l: "snd (cons_abs t) = snd (cons_abs s)" by (simp add: t_def cons_abs_def)
  show "fst (cons_abs s) = cons_buf s (unat (cons_r s) mod INPUT_BUF_SIZE) # fst (cons_abs t)"
    using ring128.pop [of "cons_r s" "cons_w s" "cons_buf s"] assms(2) by (simp add: t_def cons_abs_def INPUT_BUF_SIZE_def)
  have "0 < unat (cons_w s - cons_r s)" using assms(2) by (simp add: unat_gt_0)
  moreover from this have "cons_e s \<noteq> cons_r s" using assms(1) by (auto simp: cons_ok_def)
  ultimately show "cons_ok t"
    using assms l unat_diff_pred(1) [of "cons_w s" "cons_r s"] unat_diff_pred(1) [of "cons_e s" "cons_r s"]
    by (auto simp: cons_ok_def t_def)
qed

lemma took_step:
  assumes "cons_ok s" and "cons_r s \<noteq> cons_w s" and "upper (s\<lparr>cons_r := cons_r s + 1\<rparr>) t"
    and "took t s'" and "fst (cons_abs s) ! 0 \<noteq> 10"
  shows "took s s'"
proof -
  note n = cons_next [OF assms(1,2)]
  have t: "cons_abs t = cons_abs (s\<lparr>cons_r := cons_r s + 1\<rparr>)" using assms(3) by (rule cons_upper)
  obtain k where k: "k \<le> length (fst (cons_abs t))" "cons_abs s' = (drop k (fst (cons_abs t)), snd (cons_abs t))"
    "\<forall>i. Suc i < k \<longrightarrow> fst (cons_abs t) ! i \<noteq> 10" "cons_ok s'" using assms(4) unfolding took_def by blast
  have "fst (cons_abs s) ! i \<noteq> 10" if "Suc i < Suc k" for i
    using that k(3) assms(5) n(2) t by (cases i) auto
  then show ?thesis unfolding took_def using k n t by (intro conjI exI [of _ "Suc k"]) auto
qed

lemma consoleread_loop_took:
  "cons_ok s \<Longrightarrow> ends (took s) (consoleread_loop u dst target n s)"
proof (induction n arbitrary: s dst)
  case 0
  then show ?case by (auto intro: took_upper intro!: ends_mono [of "upper s"] uppers)
next
  case (Suc n)
  let ?c = "cons_buf s (unat (cons_r s) mod INPUT_BUF_SIZE)" and ?t = "s\<lparr>cons_r := cons_r s + 1\<rparr>"
  show ?case
  proof (cases "cons_r s = cons_w s")
    case True
    have "ends (upper s) (with_myproc s (\<lambda>p. bnd (is_killed p s) (\<lambda>k s.
            if k \<noteq> 0 then bnd (release L_cons s) (\<lambda>_ s. Done (- 1) s)
            else bnd (sleep Ch_cons L_cons s) (\<lambda>_ s. Sleep s))))"
      by (auto intro!: uppers)
    then show ?thesis using True Suc.prems by (auto elim!: ends_mono intro: took_upper)
  next
    case False
    note nx = cons_next [OF Suc.prems False]
    have one: "took s t" if "upper ?t t" for t
      using nx that by (auto simp: took_def cons_upper intro!: exI [of _ 1] prod_eqI)
    have fin: "ends (took s) (bnd (release L_cons t) (\<lambda>_ s. Done v s))" if "upper ?t t" for t and v :: i32
      by (rule ends_mono [of "upper ?t"]) (use that one in \<open>auto intro!: uppers\<close>)
    have undo: "ends (took s) (bnd (release L_cons (?t\<lparr>cons_r := cons_r ?t - 1\<rparr>)) (\<lambda>_ s. Done v s))" for v :: i32
      by (rule ends_mono [of "upper s"]) (use took_upper [OF Suc.prems] in \<open>auto intro!: uppers\<close>)
    have more: "ends (took s) (consoleread_loop u (dst + 1) target n t)" if "upper ?t t" "?c \<noteq> 10" for t
      by (rule ends_mono [OF Suc.IH])
        (use took_step [OF Suc.prems False that(1)] that nx(1,2) in \<open>auto simp: cons_upper\<close>)
    have "ends (took s) (bnd (either_copyout u dst [?c] ?t) (\<lambda>r s.
          if r = - 1 then bnd (release L_cons s) (\<lambda>_ s. Done (of_nat (target - Suc n)) s)
          else if ?c = 10 then bnd (release L_cons s) (\<lambda>_ s. Done (of_nat (target - n)) s)
          else consoleread_loop u (dst + 1) target n s))"
      by (rule ends_bnd [OF upper_either(1) [OF upper_refl]]) (auto intro: one fin more)
    then show ?thesis using False fin [OF upper_refl] undo by (simp add: Let_def)
  qed
qed

text \<open>
  C21 (functional): a read from the console only ever takes bytes from the front of the input that is ready, never past
  the end of the first line, and leaves the line being edited alone, whether it returns, fails, or
  suspends the process to wait for input.
\<close>

theorem consoleread_takes_line:
  assumes "cons_ok s"
  shows "ends (took s) (consoleread u dst n s) \<and> ends (took s) (consoleread_resume u dst target k s)"
proof -
  have r: "ends (took s) (bnd m (\<lambda>_ s. consoleread_loop u dst target k s))" if "ends (upper s) m" for m :: "(unit, _) outcome" and target k
    by (rule ends_bnd [OF that]) (auto intro: took_upper assms ends_mono [OF consoleread_loop_took] simp: cons_upper assms took_def)
  show ?thesis unfolding consoleread_def consoleread_resume_def
    using r [OF upper_locks(1) [OF upper_refl]] r [OF upper_sleep(2) [OF upper_refl]] by blast
qed

theorem consoleread_takes_line_witness:
  "ends (took (with_console (with_pipes two_procs))) (consoleread True 64 5 (with_console (with_pipes two_procs)))"
  using consoleread_takes_line [of "with_console (with_pipes two_procs)" True 64 5] by (simp add: cons_ok_def cons_abs_def)

end
