(* ===== verification/Sleeplock.thy ===== *)
theory Sleeplock
  imports Console
begin

text \<open>
  Sleep locks (\<^verbatim>\<open>kernel/sleeplock.c\<close>). Every buffer and every in-memory inode has one; \<open>slid\<close> names them,
  with the spin lock inside and the sleep channel of each.
\<close>

section \<open>Definitions\<close>

datatype slid = SL_buf nat | SL_inode nat

record sleeplock =
  locked :: u32
  lkpid :: i32

record kslock = kcons +
  slocks :: "slid \<Rightarrow> sleeplock"

primrec sl_lk :: "slid \<Rightarrow> lockid" where
  "sl_lk (SL_buf i) = L_buf i"
| "sl_lk (SL_inode i) = L_inode i"

primrec sl_chan :: "slid \<Rightarrow> chan" where
  "sl_chan (SL_buf i) = Ch_buflock i"
| "sl_chan (SL_inode i) = Ch_inodelock i"

definition set_slock :: "slid \<Rightarrow> u32 \<Rightarrow> i32 \<Rightarrow> 'a kslock_scheme \<Rightarrow> 'a kslock_scheme" where
  "set_slock k l p s = s\<lparr>slocks := (slocks s)(k := \<lparr>locked = l, lkpid = p\<rparr>)\<rparr>"

definition initsleeplock :: "slid \<Rightarrow> 'a kslock_scheme \<Rightarrow> 'a kslock_scheme" where
  "initsleeplock k s = (let s = init_lock (sl_lk k) s in set_slock k 0 0 s)"

text \<open>The loop of \<^verbatim>\<open>acquiresleep\<close> with the spin lock held.\<close>

definition acquiresleep_loop :: "slid \<Rightarrow> 'a kslock_scheme \<Rightarrow> (unit, 'a kslock_scheme) outcome" where
  "acquiresleep_loop k s =
     (if locked (slocks s k) \<noteq> 0 then bnd (sleep (sl_chan k) (sl_lk k) s) (\<lambda>_ s. Sleep s)
      else with_myproc s (\<lambda>p. release (sl_lk k) (set_slock k 1 (pid (procs s p)) s)))"

definition acquiresleep :: "slid \<Rightarrow> 'a kslock_scheme \<Rightarrow> (unit, 'a kslock_scheme) outcome" where
  "acquiresleep k s = bnd (acquire (sl_lk k) s) (\<lambda>_ s. acquiresleep_loop k s)"

definition acquiresleep_resume :: "slid \<Rightarrow> 'a kslock_scheme \<Rightarrow> (unit, 'a kslock_scheme) outcome" where
  "acquiresleep_resume k s = bnd (sleep_resume (sl_lk k) s) (\<lambda>_ s. acquiresleep_loop k s)"

definition releasesleep :: "slid \<Rightarrow> 'a kslock_scheme \<Rightarrow> (unit, 'a kslock_scheme) outcome" where
  "releasesleep k s =
     bnd (acquire (sl_lk k) s) (\<lambda>_ s.
       let s = set_slock k 0 0 s in
       bnd (wakeup (sl_chan k) s) (\<lambda>_ s. release (sl_lk k) s))"

definition holdingsleep :: "slid \<Rightarrow> 'a kslock_scheme \<Rightarrow> (bool, 'a kslock_scheme) outcome" where
  "holdingsleep k s =
     bnd (acquire (sl_lk k) s) (\<lambda>_ s.
     with_myproc s (\<lambda>p.
       let r = locked (slocks s k) \<noteq> 0 \<and> lkpid (slocks s k) = pid (procs s p) in
       bnd (release (sl_lk k) s) (\<lambda>_ s. Done r s)))"

section \<open>Example states\<close>

definition with_slocks :: "kcons \<Rightarrow> kslock" where
  "with_slocks s = kcons.extend s (kslock.fields (\<lambda>_. \<lparr>locked = 0, lkpid = 0\<rparr>))"

lemma with_slocks_fields [simp]:
  "slocks (with_slocks s) = (\<lambda>_. \<lparr>locked = 0, lkpid = 0\<rparr>)"
  "held (with_slocks s) = held s" "cur (with_slocks s) = cur s" "procs (with_slocks s) = procs s"
  "tframes (with_slocks s) = tframes s" "memory (with_slocks s) = memory s" "panicked (with_slocks s) = panicked s"
  by (simp_all add: with_slocks_def kcons.defs kslock.defs)

end
