(* ===== verification/Bio.thy ===== *)
theory Bio
  imports Sleeplock
begin

text \<open>
  The buffer cache (\<^verbatim>\<open>kernel/bio.c\<close>). A buffer is an index below \<open>NBUF\<close>; the index \<open>NBUF\<close> stands for
  \<^verbatim>\<open>bcache.head\<close>, so that the doubly linked list of the code is kept in the fields \<open>bprev\<close> and \<open>bnext\<close>. The
  scans of the list take one step for each buffer and one for the head; a list that has not
  come back to the head by then would be followed forever.

  The disk is a map from block numbers to blocks, and \<open>disk_log\<close> the sequence of the writes to it, which crashes are
  stated over. \<open>disk_rw\<close> is the effect of a completed \<^verbatim>\<open>virtio_disk_rw\<close>: the
  transfer of one block.
\<close>

section \<open>Definitions\<close>

definition NBUF :: nat where "NBUF = 30"

definition BSIZE :: nat where "BSIZE = 1024"

type_synonym block = "u8 list"

record buf =
  valid :: bool
  bdev :: u32
  blockno :: u32
  refcnt :: u32
  bprev :: nat
  bnext :: nat
  bdata :: block

record kbio = kslock +
  bufs :: "nat \<Rightarrow> buf"
  disk :: "u32 \<Rightarrow> block"
  disk_log :: "(u32 \<times> block) list"

definition upd_buf :: "nat \<Rightarrow> (buf \<Rightarrow> buf) \<Rightarrow> 'a kbio_scheme \<Rightarrow> 'a kbio_scheme" where
  "upd_buf i f s = s\<lparr>bufs := (bufs s)(i := f (bufs s i))\<rparr>"

definition disk_rw :: "nat \<Rightarrow> bool \<Rightarrow> 'a kbio_scheme \<Rightarrow> 'a kbio_scheme" where
  "disk_rw b write s =
     (if write then s\<lparr>disk := (disk s)(blockno (bufs s b) := bdata (bufs s b)),
                      disk_log := disk_log s @ [(blockno (bufs s b), bdata (bufs s b))]\<rparr>
      else upd_buf b (\<lambda>q. q\<lparr>bdata := disk s (blockno q)\<rparr>) s)"

primrec binit_loop :: "nat list \<Rightarrow> 'a kbio_scheme \<Rightarrow> 'a kbio_scheme" where
  "binit_loop [] s = s"
| "binit_loop (b # bs) s =
     (let s = upd_buf b (\<lambda>q. q\<lparr>bnext := bnext (bufs s NBUF)\<rparr>) s;
          s = upd_buf b (\<lambda>q. q\<lparr>bprev := NBUF\<rparr>) s;
          s = initsleeplock (SL_buf b) s;
          s = upd_buf (bnext (bufs s NBUF)) (\<lambda>q. q\<lparr>bprev := b\<rparr>) s;
          s = upd_buf NBUF (\<lambda>q. q\<lparr>bnext := b\<rparr>) s
      in binit_loop bs s)"

definition binit :: "'a kbio_scheme \<Rightarrow> 'a kbio_scheme" where
  "binit s =
     (let s = init_lock L_bcache s;
          s = upd_buf NBUF (\<lambda>q. q\<lparr>bprev := NBUF, bnext := NBUF\<rparr>) s
      in binit_loop [0..<NBUF] s)"

text \<open>
  The first buffer with a property on the way from \<open>b\<close> along \<open>step\<close> to the head: \<open>Inl\<close> the buffer, \<open>Inr\<close> whether the
  head was reached.
\<close>

primrec bscan :: "nat \<Rightarrow> (buf \<Rightarrow> bool) \<Rightarrow> (buf \<Rightarrow> nat) \<Rightarrow> nat \<Rightarrow> (nat \<Rightarrow> buf) \<Rightarrow> nat + bool" where
  "bscan 0 P step b bf = Inr False"
| "bscan (Suc fuel) P step b bf =
     (if b = NBUF then Inr True
      else if P (bf b) then Inl b
      else bscan fuel P step (step (bf b)) bf)"

definition bget :: "u32 \<Rightarrow> u32 \<Rightarrow> 'a kbio_scheme \<Rightarrow> (nat, 'a kbio_scheme) outcome" where
  "bget d n s =
     bnd (acquire L_bcache s) (\<lambda>_ s.
       case bscan (Suc NBUF) (\<lambda>q. bdev q = d \<and> blockno q = n) bnext (bnext (bufs s NBUF)) (bufs s) of
         Inr False \<Rightarrow> Spin
       | Inl b \<Rightarrow>
           let s = upd_buf b (\<lambda>q. q\<lparr>refcnt := refcnt q + 1\<rparr>) s in
           bnd (release L_bcache s) (\<lambda>_ s. bnd (acquiresleep (SL_buf b) s) (\<lambda>_ s. Done b s))
       | Inr True \<Rightarrow>
           (case bscan (Suc NBUF) (\<lambda>q. refcnt q = 0) bprev (bprev (bufs s NBUF)) (bufs s) of
              Inr False \<Rightarrow> Spin
            | Inr True \<Rightarrow> Panic ''bget: no buffers''
            | Inl b \<Rightarrow>
                let s = upd_buf b (\<lambda>q. q\<lparr>bdev := d, blockno := n, valid := False, refcnt := 1\<rparr>) s in
                bnd (release L_bcache s) (\<lambda>_ s. bnd (acquiresleep (SL_buf b) s) (\<lambda>_ s. Done b s))))"

text \<open>What \<^verbatim>\<open>bread\<close> does with the locked buffer, also when \<^verbatim>\<open>bget\<close> had to wait for its lock.\<close>

definition bread_fill :: "nat \<Rightarrow> 'a kbio_scheme \<Rightarrow> (nat, 'a kbio_scheme) outcome" where
  "bread_fill b s =
     (if \<not> valid (bufs s b) then
        let s = disk_rw b False s; s = upd_buf b (\<lambda>q. q\<lparr>valid := True\<rparr>) s in Done b s
      else Done b s)"

definition bread :: "u32 \<Rightarrow> u32 \<Rightarrow> 'a kbio_scheme \<Rightarrow> (nat, 'a kbio_scheme) outcome" where
  "bread d n s = bnd (bget d n s) (\<lambda>b s. bread_fill b s)"

definition bread_resume :: "nat \<Rightarrow> 'a kbio_scheme \<Rightarrow> (nat, 'a kbio_scheme) outcome" where
  "bread_resume b s = bnd (acquiresleep_resume (SL_buf b) s) (\<lambda>_ s. bread_fill b s)"

definition bwrite :: "nat \<Rightarrow> 'a kbio_scheme \<Rightarrow> (unit, 'a kbio_scheme) outcome" where
  "bwrite b s =
     bnd (holdingsleep (SL_buf b) s) (\<lambda>h s.
       if \<not> h then Panic ''bwrite'' else Done () (disk_rw b True s))"

definition brelse :: "nat \<Rightarrow> 'a kbio_scheme \<Rightarrow> (unit, 'a kbio_scheme) outcome" where
  "brelse b s =
     bnd (holdingsleep (SL_buf b) s) (\<lambda>h s.
       if \<not> h then Panic ''brelse''
       else
         bnd (releasesleep (SL_buf b) s) (\<lambda>_ s.
         bnd (acquire L_bcache s) (\<lambda>_ s.
           let s = upd_buf b (\<lambda>q. q\<lparr>refcnt := refcnt q - 1\<rparr>) s;
               s = (if refcnt (bufs s b) = 0 then
                      let s = upd_buf (bnext (bufs s b)) (\<lambda>q. q\<lparr>bprev := bprev (bufs s b)\<rparr>) s;
                          s = upd_buf (bprev (bufs s b)) (\<lambda>q. q\<lparr>bnext := bnext (bufs s b)\<rparr>) s;
                          s = upd_buf b (\<lambda>q. q\<lparr>bnext := bnext (bufs s NBUF)\<rparr>) s;
                          s = upd_buf b (\<lambda>q. q\<lparr>bprev := NBUF\<rparr>) s;
                          s = upd_buf (bnext (bufs s NBUF)) (\<lambda>q. q\<lparr>bprev := b\<rparr>) s
                      in upd_buf NBUF (\<lambda>q. q\<lparr>bnext := b\<rparr>) s
                    else s)
           in release L_bcache s)))"

definition bpin :: "nat \<Rightarrow> 'a kbio_scheme \<Rightarrow> (unit, 'a kbio_scheme) outcome" where
  "bpin b s =
     bnd (acquire L_bcache s) (\<lambda>_ s. release L_bcache (upd_buf b (\<lambda>q. q\<lparr>refcnt := refcnt q + 1\<rparr>) s))"

definition bunpin :: "nat \<Rightarrow> 'a kbio_scheme \<Rightarrow> (unit, 'a kbio_scheme) outcome" where
  "bunpin b s =
     bnd (acquire L_bcache s) (\<lambda>_ s. release L_bcache (upd_buf b (\<lambda>q. q\<lparr>refcnt := refcnt q - 1\<rparr>) s))"

section \<open>Example states\<close>

text \<open>A cache that \<^verbatim>\<open>binit\<close> has set up over a disk of zero blocks.\<close>

definition blank_buf :: buf where
  "blank_buf = \<lparr>valid = False, bdev = 0, blockno = 0, refcnt = 0, bprev = 0, bnext = 0, bdata = replicate BSIZE 0\<rparr>"

definition with_cache :: "kslock \<Rightarrow> kbio" where
  "with_cache s = binit (kslock.extend s (kbio.fields (\<lambda>_. blank_buf) (\<lambda>_. replicate BSIZE 0) []))"

lemma upd_buf_fields [simp]:
  "bufs (upd_buf b f s) = (bufs s)(b := f (bufs s b))" "disk (upd_buf b f s) = disk s" "disk_log (upd_buf b f s) = disk_log s"
  "slocks (upd_buf b f s) = slocks s" "held (upd_buf b f s) = held s" "cur (upd_buf b f s) = cur s" "procs (upd_buf b f s) = procs s"
  "tframes (upd_buf b f s) = tframes s" "memory (upd_buf b f s) = memory s" "panicked (upd_buf b f s) = panicked s"
  "kbio.more (upd_buf b f s) = kbio.more s"
  by (simp_all add: upd_buf_def)

lemma initsleeplock_fields [simp]:
  "bufs (initsleeplock k s) = bufs s" "disk (initsleeplock k s) = disk s" "disk_log (initsleeplock k s) = disk_log s"
  "slocks (initsleeplock k s) = (slocks s)(k := \<lparr>locked = 0, lkpid = 0\<rparr>)" "held (initsleeplock k s) = removeAll (sl_lk k) (held s)"
  "cur (initsleeplock k s) = cur s" "procs (initsleeplock k s) = procs s"
  "tframes (initsleeplock k s) = tframes s" "memory (initsleeplock k s) = memory s" "panicked (initsleeplock k s) = panicked s"
  by (simp_all add: initsleeplock_def init_lock_def set_slock_def Let_def)

lemma binit_frame:
  "cur (binit s) = cur s" "procs (binit s) = procs s" "tframes (binit s) = tframes s" "memory (binit s) = memory s"
  "panicked (binit s) = panicked s" "disk (binit s) = disk s" "disk_log (binit s) = disk_log s"
  "held s = [] \<Longrightarrow> held (binit s) = []"
proof -
  have l: "cur (binit_loop bs s) = cur s \<and> procs (binit_loop bs s) = procs s \<and> tframes (binit_loop bs s) = tframes s
      \<and> memory (binit_loop bs s) = memory s \<and> panicked (binit_loop bs s) = panicked s \<and> disk (binit_loop bs s) = disk s
      \<and> disk_log (binit_loop bs s) = disk_log s \<and> (held s = [] \<longrightarrow> held (binit_loop bs s) = [])" for bs and s :: "'a kbio_scheme"
    by (induction bs arbitrary: s) (simp_all add: Let_def)
  show "cur (binit s) = cur s" "procs (binit s) = procs s" "tframes (binit s) = tframes s" "memory (binit s) = memory s"
    "panicked (binit s) = panicked s" "disk (binit s) = disk s" "disk_log (binit s) = disk_log s"
    "held s = [] \<Longrightarrow> held (binit s) = []"
    by (simp_all add: binit_def Let_def l init_lock_def)
qed

lemma with_cache_fields [simp]:
  "cur (with_cache s) = cur s" "procs (with_cache s) = procs s" "tframes (with_cache s) = tframes s" "memory (with_cache s) = memory s"
  "panicked (with_cache s) = panicked s" "disk (with_cache s) = (\<lambda>_. replicate BSIZE 0)" "disk_log (with_cache s) = []"
  "held s = [] \<Longrightarrow> held (with_cache s) = []"
  by (simp_all add: with_cache_def binit_frame kslock.defs kbio.defs)

end
