(* ===== verification/Log.thy ===== *)
theory Log
  imports Bio
begin

text \<open>
  The redo log (\<^verbatim>\<open>kernel/log.c\<close>). The in-memory header is \<open>lh_n\<close> and \<open>lh_block\<close>; the header block on disk
  holds the count in its first four bytes and the block numbers after it, little endian.
\<close>

section \<open>Definitions\<close>

definition MAXOPBLOCKS :: nat where "MAXOPBLOCKS = 10"

definition LOGBLOCKS :: nat where "LOGBLOCKS = 30"

record klog = kbio +
  log_start :: i32
  log_outstanding :: i32
  log_committing :: bool
  log_dev :: u32
  lh_n :: i32
  lh_block :: "nat \<Rightarrow> i32"

text \<open>A 32-bit field of a block.\<close>

definition get32 :: "nat \<Rightarrow> block \<Rightarrow> 32 word" where
  "get32 i b = bytes_to_word (take 4 (drop i b))"

definition put32 :: "nat \<Rightarrow> 32 word \<Rightarrow> block \<Rightarrow> block" where
  "put32 i v b = take i b @ word_to_bytes 4 v @ drop (i + 4) b"

definition set_bdata :: "nat \<Rightarrow> block \<Rightarrow> 'a kbio_scheme \<Rightarrow> 'a kbio_scheme" where
  "set_bdata b x s = upd_buf b (\<lambda>q. q\<lparr>bdata := x\<rparr>) s"

primrec install_trans_loop :: "bool \<Rightarrow> nat list \<Rightarrow> 'a klog_scheme \<Rightarrow> (unit, 'a klog_scheme) outcome" where
  "install_trans_loop recovering [] s = Done () s"
| "install_trans_loop recovering (tail # ts) s =
     bnd (if recovering then
            printf (str ''recovering tail %d dst %d'' @ [10]) [Val (of_nat tail), Val (scast (lh_block s tail))] s
          else Done () s) (\<lambda>_ s.
     bnd (bread (log_dev s) (log_start s + of_nat tail + 1) s) (\<lambda>lbuf s.
     bnd (bread (log_dev s) (lh_block s tail) s) (\<lambda>dbuf s.
       let s = set_bdata dbuf (bdata (bufs s lbuf)) s in
       bnd (bwrite dbuf s) (\<lambda>_ s.
       bnd (if \<not> recovering then bunpin dbuf s else Done () s) (\<lambda>_ s.
       bnd (brelse lbuf s) (\<lambda>_ s.
       bnd (brelse dbuf s) (\<lambda>_ s. install_trans_loop recovering ts s)))))))"

definition install_trans :: "bool \<Rightarrow> 'a klog_scheme \<Rightarrow> (unit, 'a klog_scheme) outcome" where
  "install_trans recovering s = install_trans_loop recovering [0..<nat (sint (lh_n s))] s"

definition read_head :: "'a klog_scheme \<Rightarrow> (unit, 'a klog_scheme) outcome" where
  "read_head s =
     bnd (bread (log_dev s) (log_start s) s) (\<lambda>b s.
       let d = bdata (bufs s b);
           s = s\<lparr>lh_n := get32 0 d\<rparr>;
           s = s\<lparr>lh_block := (\<lambda>i. if int i < sint (lh_n s) then get32 (4 + 4 * i) d else lh_block s i)\<rparr>
       in brelse b s)"

text \<open>The header block \<open>d\<close> with the in-memory header written into it.\<close>

primrec put_blocks :: "nat list \<Rightarrow> (nat \<Rightarrow> i32) \<Rightarrow> block \<Rightarrow> block" where
  "put_blocks [] f d = d"
| "put_blocks (i # is) f d = put_blocks is f (put32 (4 + 4 * i) (f i) d)"

definition write_head :: "'a klog_scheme \<Rightarrow> (unit, 'a klog_scheme) outcome" where
  "write_head s =
     bnd (bread (log_dev s) (log_start s) s) (\<lambda>b s.
       let d = put32 0 (lh_n s) (bdata (bufs s b));
           s = set_bdata b (put_blocks [0..<nat (sint (lh_n s))] (lh_block s) d) s
       in bnd (bwrite b s) (\<lambda>_ s. brelse b s))"

definition recover_from_log :: "'a klog_scheme \<Rightarrow> (unit, 'a klog_scheme) outcome" where
  "recover_from_log s =
     bnd (read_head s) (\<lambda>_ s.
     bnd (install_trans True s) (\<lambda>_ s. write_head (s\<lparr>lh_n := 0\<rparr>)))"

text \<open>
  The size test of \<^verbatim>\<open>initlog\<close> compares two constants, the 124 bytes of a header and the block size.
\<close>

definition initlog :: "u32 \<Rightarrow> i32 \<Rightarrow> 'a klog_scheme \<Rightarrow> (unit, 'a klog_scheme) outcome" where
  "initlog dev logstart s =
     (if 4 + 4 * LOGBLOCKS \<ge> BSIZE then Panic ''initlog: too big logheader''
      else
        let s = init_lock L_log s;
            s = s\<lparr>log_start := logstart\<rparr>;
            s = s\<lparr>log_dev := dev\<rparr>
        in recover_from_log s)"

definition begin_op_loop :: "'a klog_scheme \<Rightarrow> (unit, 'a klog_scheme) outcome" where
  "begin_op_loop s =
     (if log_committing s then bnd (sleep Ch_log L_log s) (\<lambda>_ s. Sleep s)
      else if sint (lh_n s + (log_outstanding s + 1) * of_nat MAXOPBLOCKS) > int LOGBLOCKS then
        bnd (sleep Ch_log L_log s) (\<lambda>_ s. Sleep s)
      else release L_log (s\<lparr>log_outstanding := log_outstanding s + 1\<rparr>))"

definition begin_op :: "'a klog_scheme \<Rightarrow> (unit, 'a klog_scheme) outcome" where
  "begin_op s = bnd (acquire L_log s) (\<lambda>_ s. begin_op_loop s)"

definition begin_op_resume :: "'a klog_scheme \<Rightarrow> (unit, 'a klog_scheme) outcome" where
  "begin_op_resume s = bnd (sleep_resume L_log s) (\<lambda>_ s. begin_op_loop s)"

primrec write_log_loop :: "nat list \<Rightarrow> 'a klog_scheme \<Rightarrow> (unit, 'a klog_scheme) outcome" where
  "write_log_loop [] s = Done () s"
| "write_log_loop (tail # ts) s =
     bnd (bread (log_dev s) (log_start s + of_nat tail + 1) s) (\<lambda>to s.
     bnd (bread (log_dev s) (lh_block s tail) s) (\<lambda>src s.
       let s = set_bdata to (bdata (bufs s src)) s in
       bnd (bwrite to s) (\<lambda>_ s.
       bnd (brelse src s) (\<lambda>_ s.
       bnd (brelse to s) (\<lambda>_ s. write_log_loop ts s)))))"

definition write_log :: "'a klog_scheme \<Rightarrow> (unit, 'a klog_scheme) outcome" where
  "write_log s = write_log_loop [0..<nat (sint (lh_n s))] s"

definition commit :: "'a klog_scheme \<Rightarrow> (unit, 'a klog_scheme) outcome" where
  "commit s =
     (if sint (lh_n s) > 0 then
        bnd (write_log s) (\<lambda>_ s.
        bnd (write_head s) (\<lambda>_ s.
        bnd (install_trans False s) (\<lambda>_ s. write_head (s\<lparr>lh_n := 0\<rparr>))))
      else Done () s)"

definition end_op :: "'a klog_scheme \<Rightarrow> (unit, 'a klog_scheme) outcome" where
  "end_op s =
     bnd (acquire L_log s) (\<lambda>_ s.
       let s = s\<lparr>log_outstanding := log_outstanding s - 1\<rparr> in
       if log_committing s then Panic ''log.committing''
       else
         let do_commit = (log_outstanding s = 0) in
         bnd (if do_commit then Done () (s\<lparr>log_committing := True\<rparr>) else wakeup Ch_log s) (\<lambda>_ s.
         bnd (release L_log s) (\<lambda>_ s.
           if do_commit then
             bnd (commit s) (\<lambda>_ s.
             bnd (acquire L_log s) (\<lambda>_ s.
             bnd (wakeup Ch_log (s\<lparr>log_committing := False\<rparr>)) (\<lambda>_ s. release L_log s)))
           else Done () s)))"

definition log_write :: "nat \<Rightarrow> 'a klog_scheme \<Rightarrow> (unit, 'a klog_scheme) outcome" where
  "log_write b s =
     bnd (acquire L_log s) (\<lambda>_ s.
       if sint (lh_n s) \<ge> int LOGBLOCKS then Panic ''too big a transaction''
       else if sint (log_outstanding s) < 1 then Panic ''log_write outside of trans''
       else
         let n = nat (sint (lh_n s));
             i = length (takeWhile (\<lambda>i. lh_block s i \<noteq> blockno (bufs s b)) [0..<n]);
             s = s\<lparr>lh_block := (lh_block s)(i := blockno (bufs s b))\<rparr>
         in bnd (if i = n then bnd (bpin b s) (\<lambda>_ s. Done () (s\<lparr>lh_n := lh_n s + 1\<rparr>)) else Done () s) (\<lambda>_ s.
              release L_log s))"

section \<open>Example states\<close>

definition with_log :: "kbio \<Rightarrow> klog" where
  "with_log s = kbio.extend s (klog.fields 2 0 False 1 0 (\<lambda>_. 0))"

lemma with_log_fields [simp]:
  "log_start (with_log s) = 2" "log_outstanding (with_log s) = 0" "log_committing (with_log s) = False" "log_dev (with_log s) = 1"
  "lh_n (with_log s) = 0" "lh_block (with_log s) = (\<lambda>_. 0)"
  "held (with_log s) = held s" "cur (with_log s) = cur s" "procs (with_log s) = procs s"
  "tframes (with_log s) = tframes s" "memory (with_log s) = memory s" "panicked (with_log s) = panicked s"
  "slocks (with_log s) = slocks s" "bufs (with_log s) = bufs s" "disk (with_log s) = disk s"
  "disk_log (with_log s) = disk_log s"
  by (simp_all add: with_log_def kbio.defs klog.defs)

end
