(* ===== verification/Sysproc.thy ===== *)
theory Sysproc
  imports Proc_Facts Ring
begin

text \<open>
  System call arguments (\<^verbatim>\<open>fetchaddr\<close> to \<^verbatim>\<open>argstr\<close> of \<^verbatim>\<open>kernel/syscall.c\<close>) and the system calls of
  \<^verbatim>\<open>kernel/sysproc.c\<close>, among them the signals, messages, semaphore and user locks this system adds.
  \<^verbatim>\<open>sys_exit\<close> and \<^verbatim>\<open>sys_fork\<close> are with the life cycle of processes, which needs the files.

  A call that has to wait is a definition for the code up to the \<^verbatim>\<open>sleep\<close>, a definition for its loop,
  and a \<open>_resume\<close> definition for what it does when the process runs again. An output parameter is a
  result. A C array that the caller has not initialised is a parameter holding its bytes.
\<close>

section \<open>Arguments\<close>

definition fetchaddr :: "u64 \<Rightarrow> 'a kstate_scheme \<Rightarrow> (u64 option, 'a kstate_scheme) outcome" where
  "fetchaddr addr s =
     with_myproc s (\<lambda>p.
       if addr \<ge> sz (procs s p) \<or> addr + 8 > sz (procs s p) then Done None s
       else bnd (copyin (pagetable (procs s p)) addr 8 s) (\<lambda>(bs, r) s.
         if r \<noteq> 0 then Done None s else Done (Some (bytes_to_word bs)) s))"

text \<open>The result holds the new contents of the buffer and the value returned.\<close>

definition fetchstr :: "u64 \<Rightarrow> u8 list \<Rightarrow> 'a kstate_scheme \<Rightarrow> (u8 list \<times> i32, 'a kstate_scheme) outcome" where
  "fetchstr addr buf s =
     with_myproc s (\<lambda>p.
       bnd (copyinstr (pagetable (procs s p)) addr (length buf) s) (\<lambda>(bs, r) s.
         let buf = bs @ drop (length bs) buf in
         if sint r < 0 then Done (buf, - 1) s
         else Done (buf, of_nat (length (takeWhile (\<lambda>c. c \<noteq> 0) buf))) s))"

definition argraw :: "nat \<Rightarrow> 'a kstate_scheme \<Rightarrow> (u64, 'a kstate_scheme) outcome" where
  "argraw n s =
     with_myproc s (\<lambda>p.
       if n = 0 then Done (tf_get p A0 s) s
       else if n = 1 then Done (tf_get p A1 s) s
       else if n = 2 then Done (tf_get p A2 s) s
       else if n = 3 then Done (tf_get p A3 s) s
       else if n = 4 then Done (tf_get p A4 s) s
       else if n = 5 then Done (tf_get p A5 s) s
       else Panic ''argraw'')"

definition argint :: "nat \<Rightarrow> 'a kstate_scheme \<Rightarrow> (i32, 'a kstate_scheme) outcome" where
  "argint n s = bnd (argraw n s) (\<lambda>v s. Done (ucast v) s)"

definition argaddr :: "nat \<Rightarrow> 'a kstate_scheme \<Rightarrow> (u64, 'a kstate_scheme) outcome" where
  "argaddr n s = argraw n s"

definition argstr :: "nat \<Rightarrow> u8 list \<Rightarrow> 'a kstate_scheme \<Rightarrow> (u8 list \<times> i32, 'a kstate_scheme) outcome" where
  "argstr n buf s = bnd (argaddr n s) (\<lambda>addr s. fetchstr addr buf s)"

section \<open>Processes and memory\<close>

definition sys_getpid :: "'a kstate_scheme \<Rightarrow> (u64, 'a kstate_scheme) outcome" where
  "sys_getpid s = with_myproc s (\<lambda>p. Done (scast (pid (procs s p))) s)"

definition sys_wait :: "'a kstate_scheme \<Rightarrow> (u64, 'a kstate_scheme) outcome" where
  "sys_wait s = bnd (argaddr 0 s) (\<lambda>p s. bnd (kwait p s) (\<lambda>r s. Done (scast r) s))"

definition sys_wait_resume :: "u64 \<Rightarrow> 'a kstate_scheme \<Rightarrow> (u64, 'a kstate_scheme) outcome" where
  "sys_wait_resume p s = bnd (kwait_resume p s) (\<lambda>r s. Done (scast r) s)"

definition SBRK_EAGER :: i32 where "SBRK_EAGER = 1"

definition SBRK_LAZY :: i32 where "SBRK_LAZY = 2"

definition sys_sbrk :: "'a kstate_scheme \<Rightarrow> (u64, 'a kstate_scheme) outcome" where
  "sys_sbrk s =
     bnd (argint 0 s) (\<lambda>n s.
     bnd (argint 1 s) (\<lambda>t s.
     with_myproc s (\<lambda>p.
       let addr = sz (procs s p) in
       if t = SBRK_EAGER \<or> sint n < 0 then
         bnd (growproc n s) (\<lambda>r s. if sint r < 0 then Done (- 1) s else Done addr s)
       else if addr + scast n < addr then Done (- 1) s
       else if addr + scast n > TRAPFRAME then Done (- 1) s
       else Done addr (upd_proc p (\<lambda>q. q\<lparr>sz := sz q + scast n\<rparr>) s))))"

section \<open>Time\<close>

text \<open>
  The loop of \<^verbatim>\<open>sys_pause\<close> compares 32-bit unsigned values, so that it is right across a wrap of
  \<^verbatim>\<open>ticks\<close>; the loop of \<^verbatim>\<open>sys_sleep\<close> compares 64-bit values, with the argument sign-extended.
\<close>

definition pause_loop :: "i32 \<Rightarrow> u32 \<Rightarrow> 'a kstate_scheme \<Rightarrow> (u64, 'a kstate_scheme) outcome" where
  "pause_loop n ticks0 s =
     (if ticks s - ticks0 < n then
        with_myproc s (\<lambda>p.
          bnd (is_killed p s) (\<lambda>k s.
            if k \<noteq> 0 then bnd (release L_ticks s) (\<lambda>_ s. Done (- 1) s)
            else bnd (sleep Ch_ticks L_ticks s) (\<lambda>_ s. Sleep s)))
      else bnd (release L_ticks s) (\<lambda>_ s. Done 0 s))"

definition sys_pause :: "'a kstate_scheme \<Rightarrow> (u64, 'a kstate_scheme) outcome" where
  "sys_pause s =
     bnd (argint 0 s) (\<lambda>n s.
       let n = (if sint n < 0 then 0 else n) in
       bnd (acquire L_ticks s) (\<lambda>_ s. pause_loop n (ticks s) s))"

definition sys_pause_resume :: "i32 \<Rightarrow> u32 \<Rightarrow> 'a kstate_scheme \<Rightarrow> (u64, 'a kstate_scheme) outcome" where
  "sys_pause_resume n ticks0 s = bnd (sleep_resume L_ticks s) (\<lambda>_ s. pause_loop n ticks0 s)"

definition sys_uptime :: "'a kstate_scheme \<Rightarrow> (u64, 'a kstate_scheme) outcome" where
  "sys_uptime s =
     bnd (acquire L_ticks s) (\<lambda>_ s.
       let xticks = ticks s in bnd (release L_ticks s) (\<lambda>_ s. Done (ucast xticks) s))"

definition sys_getyear :: "'a kstate_scheme \<Rightarrow> (u64, 'a kstate_scheme) outcome" where
  "sys_getyear s = Done 2026 s"

definition sleep_loop :: "i32 \<Rightarrow> u64 \<Rightarrow> 'a kstate_scheme \<Rightarrow> (u64, 'a kstate_scheme) outcome" where
  "sleep_loop n ticks0 s =
     (if ucast (ticks s) - ticks0 < scast n then
        with_myproc s (\<lambda>p.
          bnd (is_killed p s) (\<lambda>k s.
            if k \<noteq> 0 then bnd (release L_ticks s) (\<lambda>_ s. Done (- 1) s)
            else bnd (sleep Ch_ticks L_ticks s) (\<lambda>_ s. Sleep s)))
      else bnd (release L_ticks s) (\<lambda>_ s. Done 0 s))"

definition sys_sleep :: "'a kstate_scheme \<Rightarrow> (u64, 'a kstate_scheme) outcome" where
  "sys_sleep s =
     bnd (argint 0 s) (\<lambda>n s. bnd (acquire L_ticks s) (\<lambda>_ s. sleep_loop n (ucast (ticks s)) s))"

definition sys_sleep_resume :: "i32 \<Rightarrow> u64 \<Rightarrow> 'a kstate_scheme \<Rightarrow> (u64, 'a kstate_scheme) outcome" where
  "sys_sleep_resume n ticks0 s = bnd (sleep_resume L_ticks s) (\<lambda>_ s. sleep_loop n ticks0 s)"

section \<open>Signals\<close>

definition sys_kill :: "'a kstate_scheme \<Rightarrow> (u64, 'a kstate_scheme) outcome" where
  "sys_kill s =
     bnd (argint 0 s) (\<lambda>n s.
     bnd (argint 1 s) (\<lambda>signum s.
       if sint signum < 0 \<or> sint signum \<ge> 32 then Done (- 1) s
       else bnd (kkill n signum s) (\<lambda>r s. Done (scast r) s)))"

definition sys_signal :: "'a kstate_scheme \<Rightarrow> (u64, 'a kstate_scheme) outcome" where
  "sys_signal s =
     bnd (argint 0 s) (\<lambda>signum s.
     bnd (argaddr 1 s) (\<lambda>handler s.
       if sint signum < 0 \<or> sint signum \<ge> 32 then Done (- 1) s
       else with_myproc s (\<lambda>p.
         Done 0 (upd_proc p (\<lambda>q. q\<lparr>signal_handlers := (signal_handlers q)(unat signum := handler)\<rparr>) s))))"

definition sys_sigreturn :: "'a kstate_scheme \<Rightarrow> (u64, 'a kstate_scheme) outcome" where
  "sys_sigreturn s =
     with_myproc s (\<lambda>p.
       let s = s\<lparr>tframes := (tframes s)(trapframe (procs s p) := signal_trapframe (procs s p))\<rparr>
       in Done 0 (upd_proc p (\<lambda>q. q\<lparr>in_signal_handler := 0\<rparr>) s))"

section \<open>Messages\<close>

primrec send_loop :: "i32 \<Rightarrow> u8 list \<Rightarrow> nat list \<Rightarrow> 'a kstate_scheme \<Rightarrow> (u64, 'a kstate_scheme) outcome" where
  "send_loop n msg [] s = Done (- 1) s"
| "send_loop n msg (p # ps) s =
     (if pid (procs s p) = n then
        let s = upd_proc p (\<lambda>q. q\<lparr>message := cstring_copy 64 msg\<rparr>) s;
            s = upd_proc p (\<lambda>q. q\<lparr>has_message := 1\<rparr>) s
        in Done 0 s
      else send_loop n msg ps s)"

text \<open>\<open>junk\<close> is what the 64 bytes of \<^verbatim>\<open>msg\<close> hold before \<^verbatim>\<open>argstr\<close>, whose result is not tested.\<close>

definition sys_send :: "u8 list \<Rightarrow> 'a kstate_scheme \<Rightarrow> (u64, 'a kstate_scheme) outcome" where
  "sys_send junk s =
     bnd (argint 0 s) (\<lambda>n s.
     bnd (argstr 1 junk s) (\<lambda>(msg, r) s. send_loop n msg [0..<NPROC] s))"

primrec recv_loop :: "bool \<Rightarrow> nat list \<Rightarrow> 'a kstate_scheme \<Rightarrow> (bool, 'a kstate_scheme) outcome" where
  "recv_loop found [] s = Done found s"
| "recv_loop found (p # ps) s =
     (if has_message (procs s p) \<noteq> 0 then
        bnd (printf (str ''Received from PID %d: %s'' @ [10])
              [Val (scast (pid (procs s p))), Str (Some (message (procs s p)))] s) (\<lambda>_ s.
          let s = upd_proc p (\<lambda>q. q\<lparr>has_message := 0\<rparr>) s in recv_loop True ps s)
      else recv_loop found ps s)"

definition sys_recv :: "'a kstate_scheme \<Rightarrow> (u64, 'a kstate_scheme) outcome" where
  "sys_recv s =
     bnd (recv_loop False [0..<NPROC] s) (\<lambda>found s.
       if \<not> found then bnd (printf (str ''No message'' @ [10]) [] s) (\<lambda>_ s. Done (- 1) s)
       else Done 0 s)"

section \<open>The semaphore\<close>

definition sys_sem_init :: "'a kstate_scheme \<Rightarrow> (u64, 'a kstate_scheme) outcome" where
  "sys_sem_init s =
     bnd (argint 0 s) (\<lambda>val s.
     bnd (acquire L_sem s) (\<lambda>_ s.
       let s = s\<lparr>global_sem := val\<rparr> in bnd (release L_sem s) (\<lambda>_ s. Done 0 s)))"

definition sem_wait_loop :: "'a kstate_scheme \<Rightarrow> (u64, 'a kstate_scheme) outcome" where
  "sem_wait_loop s =
     (if sint (global_sem s) \<le> 0 then bnd (sleep Ch_sem L_sem s) (\<lambda>_ s. Sleep s)
      else
        let s = s\<lparr>global_sem := global_sem s - 1\<rparr> in bnd (release L_sem s) (\<lambda>_ s. Done 0 s))"

definition sys_sem_wait :: "'a kstate_scheme \<Rightarrow> (u64, 'a kstate_scheme) outcome" where
  "sys_sem_wait s = bnd (acquire L_sem s) (\<lambda>_ s. sem_wait_loop s)"

definition sys_sem_wait_resume :: "'a kstate_scheme \<Rightarrow> (u64, 'a kstate_scheme) outcome" where
  "sys_sem_wait_resume s = bnd (sleep_resume L_sem s) (\<lambda>_ s. sem_wait_loop s)"

definition sys_sem_post :: "'a kstate_scheme \<Rightarrow> (u64, 'a kstate_scheme) outcome" where
  "sys_sem_post s =
     bnd (acquire L_sem s) (\<lambda>_ s.
       let s = s\<lparr>global_sem := global_sem s + 1\<rparr> in
       bnd (wakeup Ch_sem s) (\<lambda>_ s. bnd (release L_sem s) (\<lambda>_ s. Done 0 s)))"

section \<open>User locks\<close>

definition MAX_LOCKS :: nat where "MAX_LOCKS = 10"

primrec lock_create_loop :: "nat list \<Rightarrow> 'a kstate_scheme \<Rightarrow> (u64, 'a kstate_scheme) outcome" where
  "lock_create_loop [] s = Done (- 1) s"
| "lock_create_loop (i # is) s =
     (if lock_used s i = 0 then
        let s = init_lock (L_user i) s in Done (of_nat i) (s\<lparr>lock_used := (lock_used s)(i := 1)\<rparr>)
      else lock_create_loop is s)"

definition sys_lock_create :: "'a kstate_scheme \<Rightarrow> (u64, 'a kstate_scheme) outcome" where
  "sys_lock_create s = lock_create_loop [0..<MAX_LOCKS] s"

definition bad_lock :: "i32 \<Rightarrow> 'a kstate_scheme \<Rightarrow> bool" where
  "bad_lock i s \<longleftrightarrow> sint i < 0 \<or> sint i \<ge> int MAX_LOCKS \<or> lock_used s (unat i) = 0"

definition sys_lock_acquire :: "'a kstate_scheme \<Rightarrow> (u64, 'a kstate_scheme) outcome" where
  "sys_lock_acquire s =
     bnd (argint 0 s) (\<lambda>i s.
       if bad_lock i s then Done (- 1) s
       else bnd (acquire (L_user (unat i)) s) (\<lambda>_ s. Done 0 s))"

definition sys_lock_release :: "'a kstate_scheme \<Rightarrow> (u64, 'a kstate_scheme) outcome" where
  "sys_lock_release s =
     bnd (argint 0 s) (\<lambda>i s.
       if bad_lock i s then Done (- 1) s
       else bnd (release (L_user (unat i)) s) (\<lambda>_ s. Done 0 s))"

section \<open>What the calls do\<close>

lemma argraw_cases [simp]:
  assumes "cur s = Some p"
  shows "argraw 0 s = Done (tf_get p A0 s) s" "argraw 1 s = Done (tf_get p A1 s) s"
    "argraw (Suc 0) s = Done (tf_get p A1 s) s" "argraw 2 s = Done (tf_get p A2 s) s"
    "argraw 3 s = Done (tf_get p A3 s) s"
  using assms by (simp_all add: argraw_def)

lemma argint_cases [simp]:
  assumes "cur s = Some p"
  shows "argint 0 s = Done (ucast (tf_get p A0 s)) s" "argint 1 s = Done (ucast (tf_get p A1 s)) s"
    "argint (Suc 0) s = Done (ucast (tf_get p A1 s)) s" "argint 2 s = Done (ucast (tf_get p A2 s)) s"
  using assms by (simp_all add: argint_def)

subsection \<open>The semaphore under any order of calls\<close>

text \<open>
  A run of the semaphore calls: in each step some process, scheduled with no lock held, makes one
  call. A wait that suspends the process is not complete; the process makes a \<open>Retry\<close> when it is
  scheduled again. The result counts the waits that completed and the posts.
\<close>

datatype sem_call = Wait | Retry | Post

definition sem_call :: "nat \<times> sem_call \<Rightarrow> 'a kstate_scheme \<Rightarrow> (u64, 'a kstate_scheme) outcome" where
  "sem_call c s = (case c of
     (p, Wait) \<Rightarrow> sys_sem_wait (s\<lparr>cur := Some p, held := []\<rparr>)
   | (p, Retry) \<Rightarrow> sys_sem_wait_resume (s\<lparr>cur := Some p, held := [L_proc p]\<rparr>)
   | (p, Post) \<Rightarrow> sys_sem_post (s\<lparr>cur := Some p, held := []\<rparr>))"

fun sem_run :: "(nat \<times> sem_call) list \<Rightarrow> 'a kstate_scheme \<Rightarrow> (nat \<times> nat \<times> 'a kstate_scheme) option" where
  "sem_run [] s = Some (0, 0, s)"
| "sem_run (c # cs) s = (case sem_call c s of
     Done _ s \<Rightarrow> map_option (\<lambda>(w, p, s). if snd c = Post then (w, Suc p, s) else (Suc w, p, s)) (sem_run cs s)
   | Sleep s \<Rightarrow> sem_run cs s
   | Panic _ \<Rightarrow> None
   | Spin \<Rightarrow> None)"

lemma sem_wait_loop_eq:
  assumes "cur s = Some p" and "held s = [L_sem]"
  shows "sem_wait_loop s = (if sint (global_sem s) \<le> 0
    then Sleep (upd_proc p (\<lambda>q. q\<lparr>chan := Ch_sem, state := SLEEPING\<rparr>) s\<lparr>held := [L_proc p]\<rparr>)
    else Done 0 (s\<lparr>global_sem := global_sem s - 1, held := []\<rparr>))"
  using assms sleep_eq [of s p L_sem Ch_sem] by (simp add: sem_wait_loop_def)

lemma sem_wait_steps:
  assumes "c = Wait \<or> c = Retry"
  obtains (taken) s' where "0 < sint (global_sem s)" "sem_call (p, c) s = Done 0 s'" "global_sem s' = global_sem s - 1"
  | (blocked) s' where "sint (global_sem s) \<le> 0" "sem_call (p, c) s = Sleep s'" "global_sem s' = global_sem s"
    "state (procs s' p) = SLEEPING" "chan (procs s' p) = Ch_sem"
proof -
  let ?u = "if c = Wait then s\<lparr>cur := Some p, held := [L_sem]\<rparr>
    else upd_proc p (\<lambda>q. q\<lparr>chan := NoChan\<rparr>) (s\<lparr>cur := Some p, held := [L_sem]\<rparr>)"
  have "sem_call (p, c) s = sem_wait_loop ?u"
    using assms by (auto simp: sem_call_def sys_sem_wait_def sys_sem_wait_resume_def sleep_resume_def)
  moreover have "cur ?u = Some p" "held ?u = [L_sem]" "global_sem ?u = global_sem s" by simp_all
  ultimately show thesis using that sem_wait_loop_eq [of ?u p] by (auto split: if_splits)
qed

lemma sem_post_step:
  obtains s' where "sem_call (p, Post) s = Done 0 s'" "global_sem s' = global_sem s + 1"
    "procs s' = woken Ch_sem {0..<NPROC} (Some p) (procs s)"
  using wakeup_eq [of "s\<lparr>cur := Some p, held := [L_sem], global_sem := global_sem s + 1\<rparr>" Ch_sem]
  by (simp add: sem_call_def sys_sem_post_def)

lemma sint_i32_add: "- (2 ^ 31) \<le> sint x + sint y \<Longrightarrow> sint x + sint y < 2 ^ 31 \<Longrightarrow> sint (x + y :: i32) = sint x + sint y"
  by (simp add: sint_word_ariths signed_take_bit_int_eq_self)

lemma sint_i32_diff: "- (2 ^ 31) \<le> sint x - sint y \<Longrightarrow> sint x - sint y < 2 ^ 31 \<Longrightarrow> sint (x - y :: i32) = sint x - sint y"
  by (simp add: sint_word_ariths signed_take_bit_int_eq_self)

lemma sint_i32_range: "- (2 ^ 31) \<le> sint (x :: i32)" "sint (x :: i32) < 2 ^ 31"
  using sint_range_size [of x] by (simp_all add: word_size)



subsection \<open>Memory size\<close>

text \<open>
  C27 (bounds): growing lazily never wraps around and never reaches the trapframe page. For an
  argument that is not negative, without the eager flag, the call fails with -1 and changes
  nothing exactly when the sum as a natural number would pass the trapframe; otherwise it returns the old size
  and the new size is that sum.
\<close>

theorem sbrk_lazy_bounds:
  assumes "cur s = Some p" and "ucast (tf_get p A1 s) \<noteq> SBRK_EAGER" and "n = (ucast (tf_get p A0 s) :: i32)" and "0 \<le> sint n"
  shows "sys_sbrk s = (if unat (sz (procs s p)) + nat (sint n) \<le> unat TRAPFRAME
      then Done (sz (procs s p)) (upd_proc p (\<lambda>q. q\<lparr>sz := of_nat (unat (sz (procs s p)) + nat (sint n))\<rparr>) s)
      else Done (- 1) s)"
proof -
  let ?a = "sz (procs s p)"
  define k where "k = nat (sint n)"
  have k: "k < 2 ^ 31" using sint_i32_range [of n] by (simp add: k_def)
  have "(scast n :: u64) = word_of_int (int k)" using assms(4) by (simp only: scast_eq k_def nat_0_le)
  then have sc: "(scast n :: u64) = of_nat k" by simp
  have uk: "unat (of_nat k :: u64) = k" using k by (simp add: unat_of_nat)
  have tf: "unat TRAPFRAME = 0x3FFFFFE000" by (simp add: TRAPFRAME_def TRAMPOLINE_def MAXVA_def PGSIZE_def)
  have sum: "unat (?a + of_nat k) = (unat ?a + k) mod 2 ^ 64" using uk by (simp add: unat_word_ariths)
  have "sys_sbrk s = (if ?a + of_nat k < ?a then Done (- 1) s else if ?a + of_nat k > TRAPFRAME then Done (- 1) s
      else Done ?a (upd_proc p (\<lambda>q. q\<lparr>sz := sz q + of_nat k\<rparr>) s))"
    using assms(1,2,4) by (simp add: sys_sbrk_def assms(3) [symmetric] sc Let_def)
  also have "\<dots> = (if unat ?a + k \<le> unat TRAPFRAME then Done ?a (upd_proc p (\<lambda>q. q\<lparr>sz := sz q + of_nat k\<rparr>) s) else Done (- 1) s)"
  proof (cases "unat ?a + k < 2 ^ 64")
    case True
    then show ?thesis using sum by (simp add: word_less_nat_alt word_le_nat_alt)
  next
    case False
    then have "(unat ?a + k) mod 2 ^ 64 = unat ?a + k - 2 ^ 64"
      using k unat_less_64 [of ?a] by (simp add: mod_if)
    then show ?thesis using sum k False unat_less_64 [of ?a] tf by (auto simp: word_less_nat_alt)
  qed
  finally show ?thesis by (simp add: k_def upd_proc_def)
qed

theorem sbrk_lazy_bounds_witness:
  "\<exists>s'. sys_sbrk (two_procs\<lparr>tframes := (\<lambda>_ r. if r = A0 then 8192 else 2)\<rparr>) = Done 0 s' \<and> sz (procs s' 0) = 8192"
proof -
  let ?s = "two_procs\<lparr>tframes := (\<lambda>_ r. if r = A0 then 8192 else 2)\<rparr>"
  have "cur ?s = Some 0" "(ucast (tf_get 0 A1 ?s) :: i32) \<noteq> SBRK_EAGER" "(8192 :: i32) = ucast (tf_get 0 A0 ?s)" "0 \<le> sint (8192 :: i32)"
    by (simp_all add: two_procs_def tf_get_def SBRK_EAGER_def)
  from sbrk_lazy_bounds [OF this] show ?thesis
    by (simp add: two_procs_def blank_proc_def upd_proc_def TRAPFRAME_def TRAMPOLINE_def MAXVA_def PGSIZE_def)
qed

subsection \<open>User locks and the scheduler\<close>

text \<open>
  C28 (error): a user lock is a spin lock that stays held when the call returns to user mode. A
  process that has taken one with \<^verbatim>\<open>lock_acquire\<close> brings the kernel down with a panic as soon as the
  timer makes it yield, or any kernel function puts it to sleep on another lock.
\<close>

theorem user_lock_breaks_scheduling:
  assumes "cur s = Some p" and "held s = []" and "\<not> bad_lock (ucast (tf_get p A0 s)) s"
  shows "\<exists>s1. sys_lock_acquire s = Done 0 s1 \<and> yield s1 = Panic ''sched locks''
    \<and> (\<forall>lk c s2. acquire lk s1 = Done () s2 \<and> lk \<noteq> L_proc p \<longrightarrow> sleep c lk s2 = Panic ''sched locks'')"
  using assms
  by (intro exI [of _ "s\<lparr>held := [L_user (unat (ucast (tf_get p A0 s) :: i32))]\<rparr>"])
    (auto simp: sys_lock_acquire_def yield_def sleep_def sched_def holding_def acquire_def release_def Let_def)

theorem user_lock_breaks_scheduling_witness:
  "\<exists>s1. sys_lock_acquire (two_procs\<lparr>lock_used := (\<lambda>_. 1)\<rparr>) = Done 0 s1 \<and> yield s1 = Panic ''sched locks''"
  using user_lock_breaks_scheduling [of "two_procs\<lparr>lock_used := (\<lambda>_. 1)\<rparr>" 0]
  by (auto simp: two_procs_def blank_kstate_def bad_lock_def tf_get_def MAX_LOCKS_def)

subsection \<open>Time\<close>

lemma ticks_wait_suspends:
  assumes "cur s = Some p" and "held s = [L_ticks]" and "killed (procs s p) = 0"
  shows "\<exists>s'. bnd (is_killed p s) (\<lambda>k s. if k \<noteq> 0 then bnd (release L_ticks s) (\<lambda>_ s. Done (- 1 :: u64) s)
            else bnd (sleep Ch_ticks L_ticks s) (\<lambda>_ s. Sleep s)) = Sleep s' \<and> ticks s' = ticks s
          \<and> state (procs s' p) = SLEEPING \<and> chan (procs s' p) = Ch_ticks"
  using assms sleep_eq [of "s\<lparr>held := [L_ticks]\<rparr>" p L_ticks Ch_ticks] by (simp add: is_killed_def Let_def)

lemma unat_ucast_u32: "unat (ucast (x :: u32) :: u64) = unat x"
  using unat_u32_less [of x] by (simp add: unsigned_ucast_eq take_bit_nat_eq_self)

lemma unat_i32: "0 \<le> sint (n :: i32) \<Longrightarrow> unat n = nat (sint n)"
  using sint_i32_range [of n] by (simp add: uint_sint [of n] take_bit_int_eq_self flip: nat_uint_eq)

lemma unat_scast_i32: "unat (scast (n :: i32) :: u64) = (if 0 \<le> sint n then nat (sint n) else nat (2 ^ 64 + sint n))"
proof -
  have "uint (scast n :: u64) = sint n mod 2 ^ 64" by (simp only: scast_eq uint_word_of_int) simp
  moreover have "sint n mod 2 ^ 64 = (if 0 \<le> sint n then sint n else 2 ^ 64 + sint n)"
    using sint_i32_range [of n] mod_add_self1 [of "2 ^ 64" "sint n"] mod_pos_pos_trivial [of "2 ^ 64 + sint n" "2 ^ 64"]
    by (cases "0 \<le> sint n") simp_all
  ultimately show ?thesis by (simp flip: nat_uint_eq)
qed

lemma ucast_scast_i32: "ucast (scast n :: u64) = (n :: i32)"
proof (rule bit_word_eqI)
  fix i assume "i < LENGTH(32)"
  then have "i < 31 \<or> i = 31" by auto
  then show "bit (ucast (scast n :: u64) :: i32) i = bit n i" by (auto simp: bit_simps)
qed



end
