(* ===== verification/Fs.thy ===== *)
theory Fs
  imports Log Sysproc
begin

text \<open>
  The file system (\<^verbatim>\<open>kernel/fs.c\<close>) on top of the log: block allocator, inodes, file contents, directories and
  path names. An inode pointer is an index into the inode table.

  \<^item> A buffer that a \<^verbatim>\<open>struct dinode\<close>, \<^verbatim>\<open>struct dirent\<close> or \<^verbatim>\<open>struct superblock\<close> is laid over is read and
    written at the byte offsets of the fields.
  \<^item> \<open>frame_addr\<close> is where the local variables of the running kernel thread are, for the calls
    that pass the address of a local to \<^verbatim>\<open>readi\<close> and \<^verbatim>\<open>writei\<close>.
  \<^item> A path is the list of its bytes without the terminator.
  \<^item> An operation that finds a sleep lock taken ends in \<open>Sleep\<close> at that point.
\<close>

section \<open>Definitions\<close>

definition NINODE :: nat where "NINODE = 50"

definition NDIRECT :: nat where "NDIRECT = 12"

definition NINDIRECT :: nat where "NINDIRECT = 256"

definition MAXFILE :: nat where "MAXFILE = NDIRECT + NINDIRECT"

definition IPB :: nat where "IPB = 16"

definition BPB :: nat where "BPB = 8192"

definition DIRSIZ :: nat where "DIRSIZ = 14"

definition FSMAGIC :: u32 where "FSMAGIC = 0x10203040"

definition ROOTDEV :: u32 where "ROOTDEV = 1"

definition ROOTINO :: u32 where "ROOTINO = 1"

type_synonym i16 = "16 word"

definition T_DIR :: i16 where "T_DIR = 1"

definition T_FILE :: i16 where "T_FILE = 2"

definition T_DEVICE :: i16 where "T_DEVICE = 3"

record superblock =
  magic :: u32
  fssize :: u32
  nblocks :: u32
  ninodes :: u32
  nlog :: u32
  logstart :: u32
  inodestart :: u32
  bmapstart :: u32

record inode =
  idev :: u32
  inum :: u32
  iref :: i32
  ivalid :: bool
  itype :: i16
  imajor :: i16
  iminor :: i16
  inlink :: i16
  isize :: u32
  addrs :: "nat \<Rightarrow> u32"

record kfs = klog +
  sb :: superblock
  inodes :: "nat \<Rightarrow> inode"

definition upd_inode :: "nat \<Rightarrow> (inode \<Rightarrow> inode) \<Rightarrow> 'a kfs_scheme \<Rightarrow> 'a kfs_scheme" where
  "upd_inode i f s = s\<lparr>inodes := (inodes s)(i := f (inodes s i))\<rparr>"

definition IBLOCK :: "u32 \<Rightarrow> superblock \<Rightarrow> u32" where
  "IBLOCK i b = i div of_nat IPB + inodestart b"

definition BBLOCK :: "u32 \<Rightarrow> superblock \<Rightarrow> u32" where
  "BBLOCK b x = b div of_nat BPB + bmapstart x"

definition get16 :: "nat \<Rightarrow> block \<Rightarrow> i16" where
  "get16 i b = bytes_to_word (take 2 (drop i b))"

definition put_bytes :: "nat \<Rightarrow> u8 list \<Rightarrow> block \<Rightarrow> block" where
  "put_bytes i xs b = take i b @ xs @ drop (i + length xs) b"

definition put16 :: "nat \<Rightarrow> i16 \<Rightarrow> block \<Rightarrow> block" where
  "put16 i v b = put_bytes i (word_to_bytes 2 v) b"

definition frame_addr :: "'a kstate_scheme \<Rightarrow> u64" where
  "frame_addr s = (case cur s of None \<Rightarrow> 0 | Some p \<Rightarrow> kstack (procs s p))"

subsection \<open>Blocks\<close>

definition readsb :: "u32 \<Rightarrow> 'a kfs_scheme \<Rightarrow> (unit, 'a kfs_scheme) outcome" where
  "readsb dev s =
     bnd (bread dev 1 s) (\<lambda>bp s.
       let d = bdata (bufs s bp);
           s = s\<lparr>sb := \<lparr>magic = get32 0 d, fssize = get32 4 d, nblocks = get32 8 d, ninodes = get32 12 d,
                 nlog = get32 16 d, logstart = get32 20 d, inodestart = get32 24 d, bmapstart = get32 28 d\<rparr>\<rparr>
       in brelse bp s)"

definition bzero :: "u32 \<Rightarrow> u32 \<Rightarrow> 'a klog_scheme \<Rightarrow> (unit, 'a klog_scheme) outcome" where
  "bzero dev bno s =
     bnd (bread dev bno s) (\<lambda>bp s.
       let s = set_bdata bp (replicate BSIZE 0) s in
       bnd (log_write bp s) (\<lambda>_ s. brelse bp s))"

definition bit_set :: "block \<Rightarrow> nat \<Rightarrow> bool" where
  "bit_set d bi \<longleftrightarrow> d ! (bi div 8) AND push_bit (bi mod 8) 1 \<noteq> 0"

primrec balloc_loop :: "u32 \<Rightarrow> nat list \<Rightarrow> 'a kfs_scheme \<Rightarrow> (u32, 'a kfs_scheme) outcome" where
  "balloc_loop dev [] s = bnd (printf (str ''balloc: out of blocks'' @ [10]) [] s) (\<lambda>_ s. Done 0 s)"
| "balloc_loop dev (b # bs) s =
     bnd (bread dev (BBLOCK (of_nat b) (sb s)) s) (\<lambda>bp s.
       let d = bdata (bufs s bp) in
       case find (\<lambda>bi. \<not> bit_set d bi) [0..<min BPB (unat (fssize (sb s)) - b)] of
         Some bi \<Rightarrow>
           let s = set_bdata bp (d[bi div 8 := d ! (bi div 8) OR push_bit (bi mod 8) 1]) s in
           bnd (log_write bp s) (\<lambda>_ s.
           bnd (brelse bp s) (\<lambda>_ s.
           bnd (bzero dev (of_nat (b + bi)) s) (\<lambda>_ s. Done (of_nat (b + bi)) s)))
       | None \<Rightarrow> bnd (brelse bp s) (\<lambda>_ s. balloc_loop dev bs s))"

text \<open>The outer loop visits the multiples of \<^verbatim>\<open>BPB\<close> below the size.\<close>

definition balloc :: "u32 \<Rightarrow> 'a kfs_scheme \<Rightarrow> (u32, 'a kfs_scheme) outcome" where
  "balloc dev s = balloc_loop dev (map (\<lambda>k. BPB * k) [0..<(unat (fssize (sb s)) + BPB - 1) div BPB]) s"

definition bfree :: "u32 \<Rightarrow> u32 \<Rightarrow> 'a kfs_scheme \<Rightarrow> (unit, 'a kfs_scheme) outcome" where
  "bfree dev b s =
     bnd (bread dev (BBLOCK b (sb s)) s) (\<lambda>bp s.
       let bi = unat b mod BPB; d = bdata (bufs s bp) in
       if \<not> bit_set d bi then Panic ''freeing free block''
       else
         let s = set_bdata bp (d[bi div 8 := d ! (bi div 8) AND NOT (push_bit (bi mod 8) 1)]) s in
         bnd (log_write bp s) (\<lambda>_ s. brelse bp s))"

subsection \<open>Inodes\<close>

primrec iinit_loop :: "nat list \<Rightarrow> 'a kfs_scheme \<Rightarrow> 'a kfs_scheme" where
  "iinit_loop [] s = s"
| "iinit_loop (i # is) s = iinit_loop is (initsleeplock (SL_inode i) s)"

definition iinit :: "'a kfs_scheme \<Rightarrow> 'a kfs_scheme" where
  "iinit s = iinit_loop [0..<NINODE] (init_lock L_itable s)"

text \<open>The search of \<^verbatim>\<open>iget\<close>: \<open>Inl\<close> the entry of the inode, \<open>Inr\<close> the first empty slot.\<close>

primrec iget_scan :: "u32 \<Rightarrow> u32 \<Rightarrow> nat option \<Rightarrow> nat list \<Rightarrow> (nat \<Rightarrow> inode) \<Rightarrow> nat + nat option" where
  "iget_scan dev n free [] tab = Inr free"
| "iget_scan dev n free (i # is) tab =
     (if 0 < sint (iref (tab i)) \<and> idev (tab i) = dev \<and> inum (tab i) = n then Inl i
      else iget_scan dev n (if free = None \<and> iref (tab i) = 0 then Some i else free) is tab)"

definition iget :: "u32 \<Rightarrow> u32 \<Rightarrow> 'a kfs_scheme \<Rightarrow> (nat, 'a kfs_scheme) outcome" where
  "iget dev n s =
     bnd (acquire L_itable s) (\<lambda>_ s.
       case iget_scan dev n None [0..<NINODE] (inodes s) of
         Inl i \<Rightarrow>
           let s = upd_inode i (\<lambda>q. q\<lparr>iref := iref q + 1\<rparr>) s in
           bnd (release L_itable s) (\<lambda>_ s. Done i s)
       | Inr None \<Rightarrow> Panic ''iget: no inodes''
       | Inr (Some i) \<Rightarrow>
           let s = upd_inode i (\<lambda>q. q\<lparr>idev := dev, inum := n, iref := 1, ivalid := False\<rparr>) s in
           bnd (release L_itable s) (\<lambda>_ s. Done i s))"

text \<open>The place of an inode in its block.\<close>

definition dip_off :: "u32 \<Rightarrow> nat" where
  "dip_off i = 64 * (unat i mod IPB)"

primrec ialloc_loop :: "u32 \<Rightarrow> i16 \<Rightarrow> nat list \<Rightarrow> 'a kfs_scheme \<Rightarrow> (nat option, 'a kfs_scheme) outcome" where
  "ialloc_loop dev ty [] s = bnd (printf (str ''ialloc: no inodes'' @ [10]) [] s) (\<lambda>_ s. Done None s)"
| "ialloc_loop dev ty (i # is) s =
     bnd (bread dev (IBLOCK (of_nat i) (sb s)) s) (\<lambda>bp s.
       let d = bdata (bufs s bp); o1 = dip_off (of_nat i) in
       if get16 o1 d = 0 then
         let s = set_bdata bp (put16 o1 ty (put_bytes o1 (replicate 64 0) d)) s in
         bnd (log_write bp s) (\<lambda>_ s.
         bnd (brelse bp s) (\<lambda>_ s. bnd (iget dev (of_nat i) s) (\<lambda>ip s. Done (Some ip) s)))
       else bnd (brelse bp s) (\<lambda>_ s. ialloc_loop dev ty is s))"

definition ialloc :: "u32 \<Rightarrow> i16 \<Rightarrow> 'a kfs_scheme \<Rightarrow> (nat option, 'a kfs_scheme) outcome" where
  "ialloc dev ty s = ialloc_loop dev ty [1..<unat (ninodes (sb s))] s"

primrec addrs_bytes :: "nat list \<Rightarrow> (nat \<Rightarrow> u32) \<Rightarrow> u8 list" where
  "addrs_bytes [] a = []"
| "addrs_bytes (i # is) a = word_to_bytes 4 (a i) @ addrs_bytes is a"

text \<open>The 64 bytes of the disk inode of \<open>q\<close>, and the fields of an inode read from a block.\<close>

definition dinode_bytes :: "inode \<Rightarrow> u8 list" where
  "dinode_bytes q = word_to_bytes 2 (itype q) @ word_to_bytes 2 (imajor q) @ word_to_bytes 2 (iminor q)
     @ word_to_bytes 2 (inlink q) @ word_to_bytes 4 (isize q) @ addrs_bytes [0..<NDIRECT + 1] (addrs q)"

definition read_dinode :: "nat \<Rightarrow> block \<Rightarrow> inode \<Rightarrow> inode" where
  "read_dinode o1 d q = q\<lparr>itype := get16 o1 d, imajor := get16 (o1 + 2) d, iminor := get16 (o1 + 4) d,
     inlink := get16 (o1 + 6) d, isize := get32 (o1 + 8) d,
     addrs := (\<lambda>i. if i \<le> NDIRECT then get32 (o1 + 12 + 4 * i) d else addrs q i)\<rparr>"

definition iupdate :: "nat \<Rightarrow> 'a kfs_scheme \<Rightarrow> (unit, 'a kfs_scheme) outcome" where
  "iupdate ip s =
     bnd (bread (idev (inodes s ip)) (IBLOCK (inum (inodes s ip)) (sb s)) s) (\<lambda>bp s.
       let s = set_bdata bp (put_bytes (dip_off (inum (inodes s ip))) (dinode_bytes (inodes s ip)) (bdata (bufs s bp))) s in
       bnd (log_write bp s) (\<lambda>_ s. brelse bp s))"

definition idup :: "nat \<Rightarrow> 'a kfs_scheme \<Rightarrow> (nat, 'a kfs_scheme) outcome" where
  "idup ip s =
     bnd (acquire L_itable s) (\<lambda>_ s.
       let s = upd_inode ip (\<lambda>q. q\<lparr>iref := iref q + 1\<rparr>) s in
       bnd (release L_itable s) (\<lambda>_ s. Done ip s))"

definition ilock :: "nat option \<Rightarrow> 'a kfs_scheme \<Rightarrow> (unit, 'a kfs_scheme) outcome" where
  "ilock ipo s = (case ipo of
     None \<Rightarrow> Panic ''ilock''
   | Some ip \<Rightarrow>
       if sint (iref (inodes s ip)) < 1 then Panic ''ilock''
       else bnd (acquiresleep (SL_inode ip) s) (\<lambda>_ s.
         if \<not> ivalid (inodes s ip) then
           bnd (bread (idev (inodes s ip)) (IBLOCK (inum (inodes s ip)) (sb s)) s) (\<lambda>bp s.
             let s = upd_inode ip (\<lambda>q. read_dinode (dip_off (inum q)) (bdata (bufs s bp)) q) s in
             bnd (brelse bp s) (\<lambda>_ s.
               let s = upd_inode ip (\<lambda>q. q\<lparr>ivalid := True\<rparr>) s in
               if itype (inodes s ip) = 0 then Panic ''ilock: no type'' else Done () s))
         else Done () s))"

definition iunlock :: "nat option \<Rightarrow> 'a kfs_scheme \<Rightarrow> (unit, 'a kfs_scheme) outcome" where
  "iunlock ipo s = (case ipo of
     None \<Rightarrow> Panic ''iunlock''
   | Some ip \<Rightarrow>
       bnd (holdingsleep (SL_inode ip) s) (\<lambda>h s.
         if \<not> h \<or> sint (iref (inodes s ip)) < 1 then Panic ''iunlock''
         else releasesleep (SL_inode ip) s))"

primrec itrunc_direct :: "nat \<Rightarrow> nat list \<Rightarrow> 'a kfs_scheme \<Rightarrow> (unit, 'a kfs_scheme) outcome" where
  "itrunc_direct ip [] s = Done () s"
| "itrunc_direct ip (i # is) s =
     bnd (if addrs (inodes s ip) i \<noteq> 0 then
            bnd (bfree (idev (inodes s ip)) (addrs (inodes s ip) i) s) (\<lambda>_ s.
              Done () (upd_inode ip (\<lambda>q. q\<lparr>addrs := (addrs q)(i := 0)\<rparr>) s))
          else Done () s) (\<lambda>_ s. itrunc_direct ip is s)"

primrec itrunc_indirect :: "nat \<Rightarrow> nat \<Rightarrow> nat list \<Rightarrow> 'a kfs_scheme \<Rightarrow> (unit, 'a kfs_scheme) outcome" where
  "itrunc_indirect ip bp [] s = Done () s"
| "itrunc_indirect ip bp (j # js) s =
     (let a = get32 (4 * j) (bdata (bufs s bp)) in
      bnd (if a \<noteq> 0 then bfree (idev (inodes s ip)) a s else Done () s) (\<lambda>_ s. itrunc_indirect ip bp js s))"

definition itrunc :: "nat \<Rightarrow> 'a kfs_scheme \<Rightarrow> (unit, 'a kfs_scheme) outcome" where
  "itrunc ip s =
     bnd (itrunc_direct ip [0..<NDIRECT] s) (\<lambda>_ s.
     bnd (if addrs (inodes s ip) NDIRECT \<noteq> 0 then
            bnd (bread (idev (inodes s ip)) (addrs (inodes s ip) NDIRECT) s) (\<lambda>bp s.
            bnd (itrunc_indirect ip bp [0..<NINDIRECT] s) (\<lambda>_ s.
            bnd (brelse bp s) (\<lambda>_ s.
            bnd (bfree (idev (inodes s ip)) (addrs (inodes s ip) NDIRECT) s) (\<lambda>_ s.
              Done () (upd_inode ip (\<lambda>q. q\<lparr>addrs := (addrs q)(NDIRECT := 0)\<rparr>) s)))))
          else Done () s) (\<lambda>_ s.
       iupdate ip (upd_inode ip (\<lambda>q. q\<lparr>isize := 0\<rparr>) s)))"

definition iput :: "nat \<Rightarrow> 'a kfs_scheme \<Rightarrow> (unit, 'a kfs_scheme) outcome" where
  "iput ip s =
     bnd (acquire L_itable s) (\<lambda>_ s.
     bnd (if iref (inodes s ip) = 1 \<and> ivalid (inodes s ip) \<and> inlink (inodes s ip) = 0 then
            bnd (acquiresleep (SL_inode ip) s) (\<lambda>_ s.
            bnd (release L_itable s) (\<lambda>_ s.
            bnd (itrunc ip s) (\<lambda>_ s.
            bnd (iupdate ip (upd_inode ip (\<lambda>q. q\<lparr>itype := 0\<rparr>) s)) (\<lambda>_ s.
              let s = upd_inode ip (\<lambda>q. q\<lparr>ivalid := False\<rparr>) s in
              bnd (releasesleep (SL_inode ip) s) (\<lambda>_ s. acquire L_itable s)))))
          else Done () s) (\<lambda>_ s.
       release L_itable (upd_inode ip (\<lambda>q. q\<lparr>iref := iref q - 1\<rparr>) s)))"

definition iunlockput :: "nat \<Rightarrow> 'a kfs_scheme \<Rightarrow> (unit, 'a kfs_scheme) outcome" where
  "iunlockput ip s = bnd (iunlock (Some ip) s) (\<lambda>_ s. iput ip s)"

primrec ireclaim_loop :: "u32 \<Rightarrow> nat list \<Rightarrow> 'a kfs_scheme \<Rightarrow> (unit, 'a kfs_scheme) outcome" where
  "ireclaim_loop dev [] s = Done () s"
| "ireclaim_loop dev (i # is) s =
     bnd (bread dev (IBLOCK (of_nat i) (sb s)) s) (\<lambda>bp s.
       let d = bdata (bufs s bp); o1 = dip_off (of_nat i) in
       bnd (if get16 o1 d \<noteq> 0 \<and> get16 (o1 + 6) d = 0 then
              bnd (printf (str ''ireclaim: orphaned inode %d'' @ [10]) [Val (of_nat i)] s) (\<lambda>_ s.
              bnd (iget dev (of_nat i) s) (\<lambda>ip s. Done (Some ip) s))
            else Done None s) (\<lambda>ipo s.
       bnd (brelse bp s) (\<lambda>_ s.
       bnd (case ipo of
              None \<Rightarrow> Done () s
            | Some ip \<Rightarrow>
                bnd (begin_op s) (\<lambda>_ s.
                bnd (ilock (Some ip) s) (\<lambda>_ s.
                bnd (iunlock (Some ip) s) (\<lambda>_ s.
                bnd (iput ip s) (\<lambda>_ s. end_op s))))) (\<lambda>_ s. ireclaim_loop dev is s))))"

definition ireclaim :: "u32 \<Rightarrow> 'a kfs_scheme \<Rightarrow> (unit, 'a kfs_scheme) outcome" where
  "ireclaim dev s = ireclaim_loop dev [1..<unat (ninodes (sb s))] s"

definition fsinit :: "u32 \<Rightarrow> 'a kfs_scheme \<Rightarrow> (unit, 'a kfs_scheme) outcome" where
  "fsinit dev s =
     bnd (readsb dev s) (\<lambda>_ s.
       if magic (sb s) \<noteq> FSMAGIC then Panic ''invalid file system''
       else bnd (initlog dev (logstart (sb s)) s) (\<lambda>_ s. ireclaim dev s))"

subsection \<open>File contents\<close>

definition bmap :: "nat \<Rightarrow> nat \<Rightarrow> 'a kfs_scheme \<Rightarrow> (u32, 'a kfs_scheme) outcome" where
  "bmap ip bn s =
     (if bn < NDIRECT then
        let addr = addrs (inodes s ip) bn in
        if addr = 0 then
          bnd (balloc (idev (inodes s ip)) s) (\<lambda>addr s.
            if addr = 0 then Done 0 s
            else Done addr (upd_inode ip (\<lambda>q. q\<lparr>addrs := (addrs q)(bn := addr)\<rparr>) s))
        else Done addr s
      else if bn - NDIRECT < NINDIRECT then
        let bn = bn - NDIRECT; addr = addrs (inodes s ip) NDIRECT in
        bnd (if addr = 0 then
               bnd (balloc (idev (inodes s ip)) s) (\<lambda>addr s.
                 if addr = 0 then Done 0 s
                 else Done addr (upd_inode ip (\<lambda>q. q\<lparr>addrs := (addrs q)(NDIRECT := addr)\<rparr>) s))
             else Done addr s) (\<lambda>addr s.
          if addr = 0 then Done 0 s
          else bnd (bread (idev (inodes s ip)) addr s) (\<lambda>bp s.
            let addr = get32 (4 * bn) (bdata (bufs s bp)) in
            bnd (if addr = 0 then
                   bnd (balloc (idev (inodes s ip)) s) (\<lambda>addr s.
                     if addr \<noteq> 0 then
                       let s = set_bdata bp (put32 (4 * bn) addr (bdata (bufs s bp))) s in
                       bnd (log_write bp s) (\<lambda>_ s. Done addr s)
                     else Done 0 s)
                 else Done addr s) (\<lambda>addr s.
              bnd (brelse bp s) (\<lambda>_ s. Done addr s))))
      else Panic ''bmap: out of range'')"

record stat =
  st_dev :: u32
  st_ino :: u32
  st_type :: i16
  st_nlink :: i16
  st_size :: u64

definition stati :: "nat \<Rightarrow> 'a kfs_scheme \<Rightarrow> stat" where
  "stati ip s =
     (let q = inodes s ip in
      \<lparr>st_dev = idev q, st_ino = inum q, st_type = itype q, st_nlink = inlink q, st_size = ucast (isize q)\<rparr>)"

text \<open>
  The loops of \<^verbatim>\<open>readi\<close> and \<^verbatim>\<open>writei\<close>, with the offset and the counts as natural numbers: the tests
  before the loops keep them below \<open>2 ^ 32\<close>.
\<close>

definition chunk :: "nat \<Rightarrow> nat \<Rightarrow> nat" where
  "chunk off left = min left (BSIZE - off mod BSIZE)"

lemma chunk_pos: "0 < left \<Longrightarrow> 0 < chunk off left"
  by (simp add: chunk_def BSIZE_def)

function readi_loop :: "nat \<Rightarrow> bool \<Rightarrow> u64 \<Rightarrow> nat \<Rightarrow> nat \<Rightarrow> nat \<Rightarrow> 'a kfs_scheme \<Rightarrow> (i32, 'a kfs_scheme) outcome" where
  "readi_loop ip user_dst dst off n tot s =
     (if tot < n then
        bnd (bmap ip (off div BSIZE) s) (\<lambda>addr s.
          if addr = 0 then Done (of_nat tot) s
          else bnd (bread (idev (inodes s ip)) addr s) (\<lambda>bp s.
            let m = chunk off (n - tot) in
            bnd (either_copyout user_dst dst (take m (drop (off mod BSIZE) (bdata (bufs s bp)))) s) (\<lambda>r s.
              if r = - 1 then bnd (brelse bp s) (\<lambda>_ s. Done (- 1) s)
              else bnd (brelse bp s) (\<lambda>_ s. readi_loop ip user_dst (dst + of_nat m) (off + m) n (tot + m) s))))
      else Done (of_nat tot) s)"
  by pat_completeness auto

termination readi_loop
  by (relation "measure (\<lambda>(ip, u, dst, off, n, tot, s). n - tot)") (auto intro: diff_less_mono2 simp: chunk_pos)

definition readi :: "nat \<Rightarrow> bool \<Rightarrow> u64 \<Rightarrow> u32 \<Rightarrow> u32 \<Rightarrow> 'a kfs_scheme \<Rightarrow> (i32, 'a kfs_scheme) outcome" where
  "readi ip user_dst dst off n s =
     (if off > isize (inodes s ip) \<or> off + n < off then Done 0 s
      else
        let n = (if off + n > isize (inodes s ip) then isize (inodes s ip) - off else n)
        in readi_loop ip user_dst dst (unat off) (unat n) 0 s)"

text \<open>The loop of \<^verbatim>\<open>writei\<close>: the count and the offset it ends with.\<close>

function writei_loop :: "nat \<Rightarrow> bool \<Rightarrow> u64 \<Rightarrow> nat \<Rightarrow> nat \<Rightarrow> nat \<Rightarrow> 'a kfs_scheme \<Rightarrow> (nat \<times> nat, 'a kfs_scheme) outcome" where
  "writei_loop ip user_src src off n tot s =
     (if tot < n then
        bnd (bmap ip (off div BSIZE) s) (\<lambda>addr s.
          if addr = 0 then Done (tot, off) s
          else bnd (bread (idev (inodes s ip)) addr s) (\<lambda>bp s.
            let m = chunk off (n - tot) in
            bnd (either_copyin user_src src m s) (\<lambda>(bs, r) s.
              let s = set_bdata bp (put_bytes (off mod BSIZE) bs (bdata (bufs s bp))) s in
              if r = - 1 then bnd (brelse bp s) (\<lambda>_ s. Done (tot, off) s)
              else
                bnd (log_write bp s) (\<lambda>_ s.
                bnd (brelse bp s) (\<lambda>_ s. writei_loop ip user_src (src + of_nat m) (off + m) n (tot + m) s)))))
      else Done (tot, off) s)"
  by pat_completeness auto

termination writei_loop
  by (relation "measure (\<lambda>(ip, u, src, off, n, tot, s). n - tot)") (auto intro: diff_less_mono2 simp: chunk_pos)

definition writei :: "nat \<Rightarrow> bool \<Rightarrow> u64 \<Rightarrow> u32 \<Rightarrow> u32 \<Rightarrow> 'a kfs_scheme \<Rightarrow> (i32, 'a kfs_scheme) outcome" where
  "writei ip user_src src off n s =
     (if off > isize (inodes s ip) \<or> off + n < off then Done (- 1) s
      else if off + n > of_nat (MAXFILE * BSIZE) then Done (- 1) s
      else bnd (writei_loop ip user_src src (unat off) (unat n) 0 s) (\<lambda>(tot, off) s.
        let s = (if of_nat off > isize (inodes s ip) then upd_inode ip (\<lambda>q. q\<lparr>isize := of_nat off\<rparr>) s else s)
        in bnd (iupdate ip s) (\<lambda>_ s. Done (of_nat tot) s)))"

declare readi_loop.simps [simp del] writei_loop.simps [simp del]

subsection \<open>Directories\<close>

text \<open>
  A name of a directory entry: at most 14 bytes, up to the first zero. \<^verbatim>\<open>strncmp\<close> of two such names is zero exactly
  when they agree.
\<close>

definition name_of :: "u8 list \<Rightarrow> u8 list" where
  "name_of b = takeWhile (\<lambda>c. c \<noteq> 0) (take DIRSIZ b)"

definition namecmp :: "u8 list \<Rightarrow> u8 list \<Rightarrow> bool" where
  "namecmp s t \<longleftrightarrow> name_of s = name_of t"

text \<open>One directory entry, read into a local variable: its inode number and its name field.\<close>

definition read_dirent :: "string \<Rightarrow> nat \<Rightarrow> nat \<Rightarrow> 'a kfs_scheme \<Rightarrow> (i16 \<times> u8 list, 'a kfs_scheme) outcome" where
  "read_dirent msg dp off s =
     bnd (readi dp False (frame_addr s) (of_nat off) 16 s) (\<lambda>r s.
       if r \<noteq> 16 then Panic msg
       else
         let de = rd_bytes (memory s) (frame_addr s) 16
         in Done (bytes_to_word (take 2 de), drop 2 de) s)"

primrec dirlookup_loop :: "nat \<Rightarrow> u8 list \<Rightarrow> nat list \<Rightarrow> 'a kfs_scheme \<Rightarrow> ((nat \<times> nat) option, 'a kfs_scheme) outcome" where
  "dirlookup_loop dp nm [] s = Done None s"
| "dirlookup_loop dp nm (off # offs) s =
     bnd (read_dirent ''dirlookup read'' dp off s) (\<lambda>(i, dname) s.
       if i = 0 then dirlookup_loop dp nm offs s
       else if namecmp nm dname then
         bnd (iget (idev (inodes s dp)) (ucast i) s) (\<lambda>ip s. Done (Some (ip, off)) s)
       else dirlookup_loop dp nm offs s)"

text \<open>The offsets of the entries of a directory of \<open>n\<close> bytes.\<close>

definition dirent_offs :: "nat \<Rightarrow> nat list" where
  "dirent_offs n = map (\<lambda>k. 16 * k) [0..<(n + 15) div 16]"

definition dirlookup :: "nat \<Rightarrow> u8 list \<Rightarrow> 'a kfs_scheme \<Rightarrow> ((nat \<times> nat) option, 'a kfs_scheme) outcome" where
  "dirlookup dp nm s =
     (if itype (inodes s dp) \<noteq> T_DIR then Panic ''dirlookup not DIR''
      else dirlookup_loop dp nm (dirent_offs (unat (isize (inodes s dp)))) s)"

text \<open>The offset of the first empty entry, or the size of the directory.\<close>

primrec dirlink_scan :: "nat \<Rightarrow> nat \<Rightarrow> nat list \<Rightarrow> 'a kfs_scheme \<Rightarrow> (nat, 'a kfs_scheme) outcome" where
  "dirlink_scan dp after [] s = Done after s"
| "dirlink_scan dp after (off # offs) s =
     bnd (read_dirent ''dirlink read'' dp off s) (\<lambda>(i, dname) s.
       if i = 0 then Done off s else dirlink_scan dp (off + 16) offs s)"

text \<open>What \<^verbatim>\<open>strncpy\<close> leaves in a field of \<open>n\<close> bytes.\<close>

definition strncpy_field :: "nat \<Rightarrow> u8 list \<Rightarrow> u8 list" where
  "strncpy_field n t = (let u = takeWhile (\<lambda>c. c \<noteq> 0) (take n t) in u @ replicate (n - length u) 0)"

definition dirlink :: "nat \<Rightarrow> u8 list \<Rightarrow> u32 \<Rightarrow> 'a kfs_scheme \<Rightarrow> (i32, 'a kfs_scheme) outcome" where
  "dirlink dp nm i s =
     bnd (dirlookup dp nm s) (\<lambda>r s.
       case r of
         Some (ip, off) \<Rightarrow> bnd (iput ip s) (\<lambda>_ s. Done (- 1) s)
       | None \<Rightarrow>
           bnd (dirlink_scan dp 0 (dirent_offs (unat (isize (inodes s dp)))) s) (\<lambda>off s.
             let de = word_to_bytes 2 (ucast i :: i16) @ strncpy_field DIRSIZ nm;
                 s = s\<lparr>memory := wr_bytes (memory s) (frame_addr s) de\<rparr>
             in bnd (writei dp False (frame_addr s) (of_nat off) 16 s) (\<lambda>r s.
               if r \<noteq> 16 then Done (- 1) s else Done 0 s)))"

subsection \<open>Paths\<close>

definition slash :: u8 where "slash = chr CHR ''/''"

text \<open>
  \<^verbatim>\<open>skipelem\<close> on the path and the buffer for the name, of 14 bytes.
\<close>

definition skipelem :: "u8 list \<Rightarrow> u8 list \<Rightarrow> (u8 list \<times> u8 list) option" where
  "skipelem path nm =
     (let path = dropWhile (\<lambda>c. c = slash) path in
      if path = [] then None
      else
        let e = takeWhile (\<lambda>c. c \<noteq> slash) path;
            rest = dropWhile (\<lambda>c. c \<noteq> slash) path;
            nm = (if length e \<ge> DIRSIZ then take DIRSIZ e else e @ [0] @ drop (length e + 1) nm)
        in Some (dropWhile (\<lambda>c. c = slash) rest, nm))"

lemma skipelem_shorter: "skipelem path nm = Some (rest, nm') \<Longrightarrow> length rest < length path"
proof -
  assume *: "skipelem path nm = Some (rest, nm')"
  let ?p = "dropWhile (\<lambda>c. c = slash) path"
  have p: "?p \<noteq> []" "rest = dropWhile (\<lambda>c. c = slash) (dropWhile (\<lambda>c. c \<noteq> slash) ?p)"
    using * by (auto simp: skipelem_def Let_def split: if_splits)
  have "hd ?p \<noteq> slash" using hd_dropWhile [of "\<lambda>c. c = slash" path] p(1) by simp
  then have "length (dropWhile (\<lambda>c. c \<noteq> slash) ?p) < length ?p"
    using p(1) by (cases ?p) (auto simp: length_dropWhile_le less_Suc_eq_le)
  then show ?thesis unfolding p(2) using length_dropWhile_le [of "\<lambda>c. c = slash" "dropWhile (\<lambda>c. c \<noteq> slash) ?p"]
      length_dropWhile_le [of "\<lambda>c. c = slash" path] by linarith
qed

function namex_loop :: "nat \<Rightarrow> u8 list \<Rightarrow> bool \<Rightarrow> u8 list \<Rightarrow> 'a kfs_scheme \<Rightarrow> ((nat \<times> u8 list) option, 'a kfs_scheme) outcome" where
  "namex_loop ip path want_parent nm s = (case skipelem path nm of
     None \<Rightarrow> if want_parent then bnd (iput ip s) (\<lambda>_ s. Done None s) else Done (Some (ip, nm)) s
   | Some (path', nm') \<Rightarrow>
       bnd (ilock (Some ip) s) (\<lambda>_ s.
         if itype (inodes s ip) \<noteq> T_DIR then bnd (iunlockput ip s) (\<lambda>_ s. Done None s)
         else if want_parent \<and> path' = [] then bnd (iunlock (Some ip) s) (\<lambda>_ s. Done (Some (ip, nm')) s)
         else bnd (dirlookup ip nm' s) (\<lambda>r s. case r of
           None \<Rightarrow> bnd (iunlockput ip s) (\<lambda>_ s. Done None s)
         | Some (nx, off) \<Rightarrow> bnd (iunlockput ip s) (\<lambda>_ s. namex_loop nx path' want_parent nm' s))))"
  by pat_completeness auto

termination namex_loop
  by (relation "measure (\<lambda>(ip, path, w, nm, s). length path)") (auto simp: skipelem_shorter)

declare namex_loop.simps [simp del]

definition namex :: "u8 list \<Rightarrow> bool \<Rightarrow> u8 list \<Rightarrow> 'a kfs_scheme \<Rightarrow> ((nat \<times> u8 list) option, 'a kfs_scheme) outcome" where
  "namex path want_parent nm s =
     bnd (if path \<noteq> [] \<and> hd path = slash then iget ROOTDEV ROOTINO s
          else with_myproc s (\<lambda>p. case cwd (procs s p) of None \<Rightarrow> Panic ''kerneltrap'' | Some c \<Rightarrow> idup c s)) (\<lambda>ip s.
       namex_loop ip path want_parent nm s)"

definition namei :: "u8 list \<Rightarrow> 'a kfs_scheme \<Rightarrow> (nat option, 'a kfs_scheme) outcome" where
  "namei path s = bnd (namex path False (replicate DIRSIZ 0) s) (\<lambda>r s. Done (map_option fst r) s)"

definition nameiparent :: "u8 list \<Rightarrow> u8 list \<Rightarrow> 'a kfs_scheme \<Rightarrow> ((nat \<times> u8 list) option, 'a kfs_scheme) outcome" where
  "nameiparent path nm s = namex path True nm s"

section \<open>Example states\<close>

definition blank_inode :: inode where
  "blank_inode = \<lparr>idev = 0, inum = 0, iref = 0, ivalid = False, itype = 0, imajor = 0, iminor = 0, inlink = 0, isize = 0, addrs = (\<lambda>_. 0)\<rparr>"

definition small_sb :: superblock where
  "small_sb = \<lparr>magic = FSMAGIC, fssize = 2000, nblocks = 1954, ninodes = 200, nlog = 31, logstart = 2, inodestart = 33, bmapstart = 46\<rparr>"

definition with_fs :: "klog \<Rightarrow> kfs" where
  "with_fs s = klog.extend s (kfs.fields small_sb (\<lambda>_. blank_inode))"

lemma with_fs_fields [simp]:
  "sb (with_fs s) = small_sb" "inodes (with_fs s) = (\<lambda>_. blank_inode)"
  "held (with_fs s) = held s" "cur (with_fs s) = cur s" "procs (with_fs s) = procs s"
  "tframes (with_fs s) = tframes s" "memory (with_fs s) = memory s" "panicked (with_fs s) = panicked s"
  "slocks (with_fs s) = slocks s" "bufs (with_fs s) = bufs s" "disk (with_fs s) = disk s"
  "disk_log (with_fs s) = disk_log s" "log_start (with_fs s) = log_start s" "log_outstanding (with_fs s) = log_outstanding s"
  "log_committing (with_fs s) = log_committing s" "log_dev (with_fs s) = log_dev s" "lh_n (with_fs s) = lh_n s"
  "lh_block (with_fs s) = lh_block s"
  by (simp_all add: with_fs_def klog.defs kfs.defs)

end
