(* ===== verification/File.thy ===== *)
theory File
  imports Fs
begin

text \<open>
  Open files (\<^verbatim>\<open>kernel/file.c\<close>) and \<^verbatim>\<open>pipealloc\<close> of \<^verbatim>\<open>kernel/pipe.c\<close>. A file pointer is an index into the
  file table, \<open>None\<close> the null pointer.
\<close>

section \<open>Definitions\<close>

definition NDEV :: nat where "NDEV = 10"

datatype fdtype = FD_NONE | FD_PIPE | FD_INODE | FD_DEVICE

record file_s =
  ftype :: fdtype
  fref :: i32
  readable :: bool
  writable :: bool
  fpipe :: u64
  fip :: "nat option"
  foff :: u32
  fmajor :: i16

record kfile = kfs +
  files :: "nat \<Rightarrow> file_s"

definition upd_file :: "nat \<Rightarrow> (file_s \<Rightarrow> file_s) \<Rightarrow> 'a kfile_scheme \<Rightarrow> 'a kfile_scheme" where
  "upd_file i f s = s\<lparr>files := (files s)(i := f (files s i))\<rparr>"

definition fileinit :: "'a kfile_scheme \<Rightarrow> 'a kfile_scheme" where
  "fileinit s = init_lock L_ftable s"

definition filealloc :: "'a kfile_scheme \<Rightarrow> (nat option, 'a kfile_scheme) outcome" where
  "filealloc s =
     bnd (acquire L_ftable s) (\<lambda>_ s.
       case find (\<lambda>f. fref (files s f) = 0) [0..<NFILE] of
         Some f \<Rightarrow>
           let s = upd_file f (\<lambda>q. q\<lparr>fref := 1\<rparr>) s in
           bnd (release L_ftable s) (\<lambda>_ s. Done (Some f) s)
       | None \<Rightarrow> bnd (release L_ftable s) (\<lambda>_ s. Done None s))"

definition filedup :: "nat \<Rightarrow> 'a kfile_scheme \<Rightarrow> (nat, 'a kfile_scheme) outcome" where
  "filedup f s =
     bnd (acquire L_ftable s) (\<lambda>_ s.
       if sint (fref (files s f)) < 1 then Panic ''filedup''
       else
         let s = upd_file f (\<lambda>q. q\<lparr>fref := fref q + 1\<rparr>) s in
         bnd (release L_ftable s) (\<lambda>_ s. Done f s))"

definition with_ip :: "nat option \<Rightarrow> (nat \<Rightarrow> ('b, 's) outcome) \<Rightarrow> ('b, 's) outcome" where
  "with_ip ipo f = (case ipo of None \<Rightarrow> Panic ''kerneltrap'' | Some ip \<Rightarrow> f ip)"

definition fileclose :: "nat \<Rightarrow> 'a kfile_scheme \<Rightarrow> (unit, 'a kfile_scheme) outcome" where
  "fileclose f s =
     bnd (acquire L_ftable s) (\<lambda>_ s.
       if sint (fref (files s f)) < 1 then Panic ''fileclose''
       else
         let s = upd_file f (\<lambda>q. q\<lparr>fref := fref q - 1\<rparr>) s in
         if 0 < sint (fref (files s f)) then release L_ftable s
         else
           let ff = files s f;
               s = upd_file f (\<lambda>q. q\<lparr>fref := 0\<rparr>) s;
               s = upd_file f (\<lambda>q. q\<lparr>ftype := FD_NONE\<rparr>) s
           in bnd (release L_ftable s) (\<lambda>_ s.
             if ftype ff = FD_PIPE then pipeclose (fpipe ff) (writable ff) s
             else if ftype ff = FD_INODE \<or> ftype ff = FD_DEVICE then
               bnd (begin_op s) (\<lambda>_ s.
               bnd (with_ip (fip ff) (\<lambda>ip. iput ip s)) (\<lambda>_ s. end_op s))
             else Done () s))"

text \<open>The 24 bytes of a \<^verbatim>\<open>struct stat\<close>, with the 4 bytes of padding before the size zero.\<close>

definition stat_bytes :: "stat \<Rightarrow> u8 list" where
  "stat_bytes st = word_to_bytes 4 (st_dev st) @ word_to_bytes 4 (st_ino st) @ word_to_bytes 2 (st_type st)
     @ word_to_bytes 2 (st_nlink st) @ replicate 4 0 @ word_to_bytes 8 (st_size st)"

definition filestat :: "nat \<Rightarrow> u64 \<Rightarrow> 'a kfile_scheme \<Rightarrow> (i32, 'a kfile_scheme) outcome" where
  "filestat f addr s =
     with_myproc s (\<lambda>p.
       if ftype (files s f) = FD_INODE \<or> ftype (files s f) = FD_DEVICE then
         bnd (ilock (fip (files s f)) s) (\<lambda>_ s.
         with_ip (fip (files s f)) (\<lambda>ip.
           let st = stati ip s in
           bnd (iunlock (Some ip) s) (\<lambda>_ s.
           bnd (copyout (pagetable (procs s p)) addr (stat_bytes st) s) (\<lambda>r s.
             if sint r < 0 then Done (- 1) s else Done 0 s))))
       else Done (- 1) s)"

text \<open>A call through the device table.\<close>

definition dev_call :: "devfn \<Rightarrow> u64 \<Rightarrow> i32 \<Rightarrow> 'a kcons_scheme \<Rightarrow> (i32, 'a kcons_scheme) outcome" where
  "dev_call fn addr n s = (case fn of
     Consoleread \<Rightarrow> consoleread True addr n s | Consolewrite \<Rightarrow> consolewrite True addr n s)"

definition bad_major :: "i16 \<Rightarrow> bool" where
  "bad_major m \<longleftrightarrow> sint m < 0 \<or> sint m \<ge> int NDEV"

definition fileread :: "nat \<Rightarrow> u64 \<Rightarrow> i32 \<Rightarrow> 'a kfile_scheme \<Rightarrow> (i32, 'a kfile_scheme) outcome" where
  "fileread f addr n s =
     (if \<not> readable (files s f) then Done (- 1) s
      else case ftype (files s f) of
        FD_PIPE \<Rightarrow> piperead (fpipe (files s f)) addr n s
      | FD_DEVICE \<Rightarrow>
          if bad_major (fmajor (files s f)) then Done (- 1) s
          else (case devsw_read s (unat (fmajor (files s f))) of
            None \<Rightarrow> Done (- 1) s
          | Some fn \<Rightarrow> dev_call fn addr n s)
      | FD_INODE \<Rightarrow>
          bnd (ilock (fip (files s f)) s) (\<lambda>_ s.
          with_ip (fip (files s f)) (\<lambda>ip.
            bnd (readi ip True addr (foff (files s f)) n s) (\<lambda>r s.
              let s = (if 0 < sint r then upd_file f (\<lambda>q. q\<lparr>foff := foff q + r\<rparr>) s else s)
              in bnd (iunlock (Some ip) s) (\<lambda>_ s. Done r s))))
      | FD_NONE \<Rightarrow> Panic ''fileread'')"

text \<open>What one transaction may write: three blocks.\<close>

definition write_max :: nat where
  "write_max = ((MAXOPBLOCKS - 1 - 1 - 2) div 2) * BSIZE"

function filewrite_loop :: "nat \<Rightarrow> nat \<Rightarrow> u64 \<Rightarrow> nat \<Rightarrow> nat \<Rightarrow> 'a kfile_scheme \<Rightarrow> (nat, 'a kfile_scheme) outcome" where
  "filewrite_loop f ip addr n i s =
     (if i < n then
        let n1 = min (n - i) write_max in
        bnd (begin_op s) (\<lambda>_ s.
        bnd (ilock (Some ip) s) (\<lambda>_ s.
        bnd (writei ip True (addr + of_nat i) (foff (files s f)) (of_nat n1) s) (\<lambda>r s.
          let s = (if 0 < sint r then upd_file f (\<lambda>q. q\<lparr>foff := foff q + r\<rparr>) s else s) in
          bnd (iunlock (Some ip) s) (\<lambda>_ s.
          bnd (end_op s) (\<lambda>_ s.
            if r \<noteq> of_nat n1 then Done i s
            else filewrite_loop f ip addr n (i + n1) s)))))
      else Done i s)"
  by pat_completeness auto

termination filewrite_loop
  by (relation "measure (\<lambda>(f, ip, addr, n, i, s). n - i)") (auto simp: write_max_def MAXOPBLOCKS_def BSIZE_def)

declare filewrite_loop.simps [simp del]

definition filewrite :: "nat \<Rightarrow> u64 \<Rightarrow> i32 \<Rightarrow> 'a kfile_scheme \<Rightarrow> (i32, 'a kfile_scheme) outcome" where
  "filewrite f addr n s =
     (if \<not> writable (files s f) then Done (- 1) s
      else case ftype (files s f) of
        FD_PIPE \<Rightarrow> pipewrite (fpipe (files s f)) addr n s
      | FD_DEVICE \<Rightarrow>
          if bad_major (fmajor (files s f)) then Done (- 1) s
          else (case devsw_write s (unat (fmajor (files s f))) of
            None \<Rightarrow> Done (- 1) s
          | Some fn \<Rightarrow> dev_call fn addr n s)
      | FD_INODE \<Rightarrow>
          with_ip (fip (files s f)) (\<lambda>ip.
            bnd (filewrite_loop f ip addr (nat (sint n)) 0 s) (\<lambda>i s.
              Done (if int i = sint n then n else - 1) s))
      | FD_NONE \<Rightarrow> Panic ''filewrite'')"

text \<open>The error exit of \<^verbatim>\<open>pipealloc\<close>: close what was allocated. No page has been allocated then.\<close>

definition pipealloc_bad :: "nat option \<Rightarrow> nat option \<Rightarrow> 'a kfile_scheme \<Rightarrow> ((nat \<times> nat) option, 'a kfile_scheme) outcome" where
  "pipealloc_bad f0 f1 s =
     bnd (case f0 of Some f \<Rightarrow> fileclose f s | None \<Rightarrow> Done () s) (\<lambda>_ s.
     bnd (case f1 of Some f \<Rightarrow> fileclose f s | None \<Rightarrow> Done () s) (\<lambda>_ s. Done None s))"

definition pipealloc :: "'a kfile_scheme \<Rightarrow> ((nat \<times> nat) option, 'a kfile_scheme) outcome" where
  "pipealloc s =
     bnd (filealloc s) (\<lambda>f0 s.
       case f0 of None \<Rightarrow> pipealloc_bad None None s
     | Some r \<Rightarrow>
         bnd (filealloc s) (\<lambda>f1 s.
           case f1 of None \<Rightarrow> pipealloc_bad f0 None s
         | Some w \<Rightarrow>
             bnd (kalloc s) (\<lambda>pi s.
               if pi = 0 then pipealloc_bad f0 f1 s
               else
                 let s = upd_pipe pi (\<lambda>q. q\<lparr>readopen := 1, writeopen := 1, nwrite := 0, nread := 0\<rparr>) s;
                     s = init_lock (L_pipe pi) s;
                     s = upd_file r (\<lambda>q. q\<lparr>ftype := FD_PIPE, readable := True, writable := False, fpipe := pi\<rparr>) s;
                     s = upd_file w (\<lambda>q. q\<lparr>ftype := FD_PIPE, readable := False, writable := True, fpipe := pi\<rparr>) s
                 in Done (Some (r, w)) s)))"

section \<open>Example states\<close>

definition blank_file :: file_s where
  "blank_file = \<lparr>ftype = FD_NONE, fref = 0, readable = False, writable = False, fpipe = 0, fip = None, foff = 0, fmajor = 0\<rparr>"

definition with_files :: "kfs \<Rightarrow> kfile" where
  "with_files s = kfs.extend s (kfile.fields (\<lambda>_. blank_file))"

lemma with_files_fields [simp]:
  "files (with_files s) = (\<lambda>_. blank_file)"
  "held (with_files s) = held s" "cur (with_files s) = cur s" "procs (with_files s) = procs s"
  "tframes (with_files s) = tframes s" "memory (with_files s) = memory s" "panicked (with_files s) = panicked s"
  "slocks (with_files s) = slocks s" "bufs (with_files s) = bufs s" "disk (with_files s) = disk s"
  "disk_log (with_files s) = disk_log s" "log_start (with_files s) = log_start s" "log_outstanding (with_files s) = log_outstanding s"
  "log_committing (with_files s) = log_committing s" "log_dev (with_files s) = log_dev s" "lh_n (with_files s) = lh_n s"
  "lh_block (with_files s) = lh_block s" "sb (with_files s) = sb s" "inodes (with_files s) = inodes s"
  by (simp_all add: with_files_def kfs.defs kfile.defs)

end
