(* ===== verification/Exec.thy ===== *)
theory Exec
  imports File
begin

text \<open>
  Loading a program (\<^verbatim>\<open>kernel/exec.c\<close>). The ELF and program headers are read into local variables, the first 64 and the
  56 bytes after them at \<open>frame_addr\<close>; the argument strings are lists of bytes without their terminator.
\<close>

section \<open>Definitions\<close>

definition ELF_MAGIC :: u32 where "ELF_MAGIC = 0x464C457F"

definition ELF_PROG_LOAD :: u32 where "ELF_PROG_LOAD = 1"

definition USERSTACK :: u64 where "USERSTACK = 1"

definition flags2perm :: "u32 \<Rightarrow> u64" where
  "flags2perm flags =
     (let perm = (if flags AND 1 \<noteq> 0 then PTE_X else 0)
      in if flags AND 2 \<noteq> 0 then perm OR PTE_W else perm)"

function loadseg_loop :: "u64 \<Rightarrow> u64 \<Rightarrow> nat \<Rightarrow> u32 \<Rightarrow> nat \<Rightarrow> nat \<Rightarrow> 'a kfs_scheme \<Rightarrow> (i32, 'a kfs_scheme) outcome" where
  "loadseg_loop pt va ip offset n i s =
     (if i < n then
        bnd (walkaddr pt (va + of_nat i) s) (\<lambda>pa s.
          if pa = 0 then Panic ''loadseg: address should exist''
          else
            let k = (if n - i < 4096 then n - i else 4096) in
            bnd (readi ip False pa (offset + of_nat i) (of_nat k) s) (\<lambda>r s.
              if r \<noteq> of_nat k then Done (- 1) s
              else loadseg_loop pt va ip offset n (i + 4096) s))
      else Done 0 s)"
  by pat_completeness auto

termination loadseg_loop
  by (relation "measure (\<lambda>(pt, va, ip, offset, n, i, s). n - i)") auto

definition loadseg :: "u64 \<Rightarrow> u64 \<Rightarrow> nat \<Rightarrow> u32 \<Rightarrow> u32 \<Rightarrow> 'a kfs_scheme \<Rightarrow> (i32, 'a kfs_scheme) outcome" where
  "loadseg pt va ip offset n s = loadseg_loop pt va ip offset (unat n) 0 s"

text \<open>Fields of a header.\<close>

definition fld16 :: "nat \<Rightarrow> u8 list \<Rightarrow> 16 word" where "fld16 i b = bytes_to_word (take 2 (drop i b))"

definition fld32 :: "nat \<Rightarrow> u8 list \<Rightarrow> u32" where "fld32 i b = bytes_to_word (take 4 (drop i b))"

definition fld64 :: "nat \<Rightarrow> u8 list \<Rightarrow> u64" where "fld64 i b = bytes_to_word (take 8 (drop i b))"

text \<open>The error exit of \<^verbatim>\<open>kexec\<close>.\<close>

definition kexec_bad :: "u64 \<Rightarrow> u64 \<Rightarrow> nat option \<Rightarrow> 'a kfs_scheme \<Rightarrow> (i32, 'a kfs_scheme) outcome" where
  "kexec_bad pt n ipo s =
     bnd (if pt \<noteq> 0 then proc_freepagetable pt n s else Done () s) (\<lambda>_ s.
     bnd (case ipo of Some ip \<Rightarrow> bnd (iunlockput ip s) (\<lambda>_ s. end_op s) | None \<Rightarrow> Done () s) (\<lambda>_ s. Done (- 1) s))"

text \<open>The loop over the program headers: \<open>Inl n\<close> is a jump to the error exit with the size \<open>n\<close>, \<open>Inr n\<close> its end.\<close>

primrec load_segments :: "u64 \<Rightarrow> nat \<Rightarrow> nat \<Rightarrow> u32 \<Rightarrow> u64 \<Rightarrow> 'a kfs_scheme \<Rightarrow> (u64 + u64, 'a kfs_scheme) outcome" where
  "load_segments pt ip 0 off n s = Done (Inr n) s"
| "load_segments pt ip (Suc k) off n s =
     bnd (readi ip False (frame_addr s + 64) off 56 s) (\<lambda>r s.
       let ph = rd_bytes (memory s) (frame_addr s + 64) 56;
           vaddr = fld64 16 ph; filesz = fld64 32 ph; memsz = fld64 40 ph
       in
       if r \<noteq> 56 then Done (Inl n) s
       else if fld32 0 ph \<noteq> ELF_PROG_LOAD then load_segments pt ip k (off + 56) n s
       else if memsz < filesz then Done (Inl n) s
       else if vaddr + memsz < vaddr then Done (Inl n) s
       else if vaddr mod PGSIZE \<noteq> 0 then Done (Inl n) s
       else bnd (uvmalloc pt n (vaddr + memsz) (flags2perm (fld32 4 ph)) s) (\<lambda>sz1 s.
         if sz1 = 0 then Done (Inl n) s
         else bnd (loadseg pt vaddr ip (ucast (fld64 8 ph)) (ucast filesz) s) (\<lambda>r s.
           if sint r < 0 then Done (Inl sz1) s
           else load_segments pt ip k (off + 56) sz1 s)))"

text \<open>Push the argument strings: the new stack pointer and the addresses of the strings, \<open>None\<close> on failure.\<close>

primrec push_args :: "u64 \<Rightarrow> u64 \<Rightarrow> nat \<Rightarrow> u8 list list \<Rightarrow> u64 \<Rightarrow> 'a kstate_scheme \<Rightarrow> ((u64 \<times> u64 list) option, 'a kstate_scheme) outcome" where
  "push_args pt stackbase argc [] sp s = Done (Some (sp, [])) s"
| "push_args pt stackbase argc (a # as) sp s =
     (if argc \<ge> MAXARG then Done None s
      else
        let sp = sp - (of_nat (length a) + 1); sp = sp - sp mod 16 in
        if sp < stackbase then Done None s
        else bnd (copyout pt sp (a @ [0]) s) (\<lambda>r s.
          if sint r < 0 then Done None s
          else bnd (push_args pt stackbase (Suc argc) as sp s) (\<lambda>x s.
            Done (map_option (\<lambda>(sp', us). (sp', sp # us)) x) s)))"

text \<open>The part of a path after its last slash.\<close>

definition last_elem :: "u8 list \<Rightarrow> u8 list" where
  "last_elem path = rev (takeWhile (\<lambda>c. c \<noteq> slash) (rev path))"

text \<open>The second half of \<^verbatim>\<open>kexec\<close>: the user stack, and the switch to the new image.\<close>

definition kexec_finish :: "nat \<Rightarrow> u8 list \<Rightarrow> u8 list list \<Rightarrow> u64 \<Rightarrow> u64 \<Rightarrow> u64 \<Rightarrow> 'a kfs_scheme \<Rightarrow> (i32, 'a kfs_scheme) outcome" where
  "kexec_finish p path argv pt epc0 n s =
     (let oldsz = sz (procs s p); n = PGROUNDUP n in
      bnd (uvmalloc pt n (n + (USERSTACK + 1) * PGSIZE) PTE_W s) (\<lambda>sz1 s.
        if sz1 = 0 then kexec_bad pt n None s
        else
          let n = sz1 in
          bnd (uvmclear pt (n - (USERSTACK + 1) * PGSIZE) s) (\<lambda>_ s.
            let stackbase = n - USERSTACK * PGSIZE in
            bnd (push_args pt stackbase 0 argv n s) (\<lambda>pushed s.
              case pushed of None \<Rightarrow> kexec_bad pt n None s
            | Some (sp, ustack) \<Rightarrow>
                let sp = sp - (of_nat (length argv) + 1) * 8; sp = sp - sp mod 16 in
                if sp < stackbase then kexec_bad pt n None s
                else bnd (copyout pt sp (concat (map (word_to_bytes 8) (ustack @ [0]))) s) (\<lambda>r s.
                  if sint r < 0 then kexec_bad pt n None s
                  else
                    let s = tf_set p A1 sp s;
                        s = upd_proc p (\<lambda>q. q\<lparr>pname := cstring_copy 16 (last_elem path)\<rparr>) s;
                        oldpagetable = pagetable (procs s p);
                        s = upd_proc p (\<lambda>q. q\<lparr>pagetable := pt\<rparr>) s;
                        s = upd_proc p (\<lambda>q. q\<lparr>sz := n\<rparr>) s;
                        s = tf_set p Epc epc0 s;
                        s = tf_set p Sp sp s
                    in bnd (proc_freepagetable oldpagetable oldsz s) (\<lambda>_ s. Done (of_nat (length argv)) s))))))"

definition kexec :: "u8 list \<Rightarrow> u8 list list \<Rightarrow> 'a kfs_scheme \<Rightarrow> (i32, 'a kfs_scheme) outcome" where
  "kexec path argv s =
     with_myproc s (\<lambda>p.
       bnd (begin_op s) (\<lambda>_ s.
       bnd (namei path s) (\<lambda>ipo s.
         case ipo of None \<Rightarrow> bnd (end_op s) (\<lambda>_ s. Done (- 1) s)
       | Some ip \<Rightarrow>
           bnd (ilock (Some ip) s) (\<lambda>_ s.
           bnd (readi ip False (frame_addr s) 0 64 s) (\<lambda>r s.
             let elf = rd_bytes (memory s) (frame_addr s) 64 in
             if r \<noteq> 64 then kexec_bad 0 0 (Some ip) s
             else if fld32 0 elf \<noteq> ELF_MAGIC then kexec_bad 0 0 (Some ip) s
             else bnd (proc_pagetable p s) (\<lambda>pt s.
               if pt = 0 then kexec_bad 0 0 (Some ip) s
               else bnd (load_segments pt ip (unat (fld16 56 elf)) (ucast (fld64 32 elf)) 0 s) (\<lambda>x s.
                 case x of Inl n \<Rightarrow> kexec_bad pt n (Some ip) s
               | Inr n \<Rightarrow>
                   bnd (iunlockput ip s) (\<lambda>_ s.
                   bnd (end_op s) (\<lambda>_ s. kexec_finish p path argv pt (fld64 24 elf) n s)))))))))"

end
