(* ===== verification/Life.thy ===== *)
theory Life
  imports Exec
begin

text \<open>
  The life cycle of processes, which needs the files: \<^verbatim>\<open>userinit\<close>, \<^verbatim>\<open>kfork\<close>, \<^verbatim>\<open>kexit\<close> and \<^verbatim>\<open>forkret\<close> of \<^verbatim>\<open>kernel/proc.c\<close>,
  their system calls, and \<^verbatim>\<open>prepare_return\<close> of \<^verbatim>\<open>kernel/trap.c\<close>. The state gains the trap registers of the hart, its
  number, the pending interrupt of the PLIC and the static variable of \<^verbatim>\<open>forkret\<close>.
\<close>

section \<open>Definitions\<close>

record ktrap = kfile +
  sepc :: u64
  scause :: u64
  stval :: u64
  stvec :: u64
  sstatus :: u64
  hartid :: u64
  stimecmp :: u64
  rtime :: u64
  plic_irq :: i32
  plic_done :: "i32 list"
  first_run :: bool

definition SSTATUS_SPP :: u64 where "SSTATUS_SPP = push_bit 8 1"

definition SSTATUS_SPIE :: u64 where "SSTATUS_SPIE = push_bit 5 1"

definition prepare_return :: "'a ktrap_scheme \<Rightarrow> (unit, 'a ktrap_scheme) outcome" where
  "prepare_return s =
     with_myproc s (\<lambda>p.
       let s = s\<lparr>intr := False\<rparr>;
           s = s\<lparr>stvec := TRAMPOLINE + (uservec (syms s) - trampoline (syms s))\<rparr>;
           s = tf_set p Kernel_satp (satp s) s;
           s = tf_set p Kernel_sp (kstack (procs s p) + PGSIZE) s;
           s = tf_set p Kernel_trap (usertrap_pc (syms s)) s;
           s = tf_set p Kernel_hartid (hartid s) s;
           x = sstatus s;
           x = x AND NOT SSTATUS_SPP;
           x = x OR SSTATUS_SPIE;
           s = s\<lparr>sstatus := x\<rparr>
       in Done () (s\<lparr>sepc := tf_get p Epc s\<rparr>))"

definition userinit :: "'a kfs_scheme \<Rightarrow> (unit, 'a kfs_scheme) outcome" where
  "userinit s =
     bnd (allocproc s) (\<lambda>po s.
       let s = s\<lparr>initproc := po\<rparr> in
       bnd (namei (str ''/'') s) (\<lambda>ip s.
         case po of None \<Rightarrow> Panic ''kerneltrap''
       | Some p \<Rightarrow>
           let s = upd_proc p (\<lambda>q. q\<lparr>cwd := ip\<rparr>) s;
               s = upd_proc p (\<lambda>q. q\<lparr>state := RUNNABLE\<rparr>) s
           in release (L_proc p) s))"

primrec dup_files :: "nat \<Rightarrow> nat \<Rightarrow> nat list \<Rightarrow> 'a kfile_scheme \<Rightarrow> (unit, 'a kfile_scheme) outcome" where
  "dup_files p np [] s = Done () s"
| "dup_files p np (i # is) s =
     bnd (case ofile (procs s p) i of
            None \<Rightarrow> Done () s
          | Some f \<Rightarrow> bnd (filedup f s) (\<lambda>g s. Done () (upd_proc np (\<lambda>q. q\<lparr>ofile := (ofile q)(i := Some g)\<rparr>) s))) (\<lambda>_ s.
       dup_files p np is s)"

definition kfork :: "'a kfile_scheme \<Rightarrow> (i32, 'a kfile_scheme) outcome" where
  "kfork s =
     with_myproc s (\<lambda>p.
       bnd (allocproc s) (\<lambda>npo s.
         case npo of None \<Rightarrow> Done (- 1) s
       | Some np \<Rightarrow>
           bnd (uvmcopy (pagetable (procs s p)) (pagetable (procs s np)) (sz (procs s p)) s) (\<lambda>r s.
             if sint r < 0 then
               bnd (freeproc np s) (\<lambda>_ s. bnd (release (L_proc np) s) (\<lambda>_ s. Done (- 1) s))
             else
               let s = upd_proc np (\<lambda>q. q\<lparr>sz := sz (procs s p)\<rparr>) s;
                   s = s\<lparr>tframes := (tframes s)(trapframe (procs s np) := tframes s (trapframe (procs s p)))\<rparr>;
                   s = tf_set np A0 0 s
               in bnd (dup_files p np [0..<NOFILE] s) (\<lambda>_ s.
                  bnd (with_ip (cwd (procs s p)) (\<lambda>c. idup c s)) (\<lambda>c s.
                    let s = upd_proc np (\<lambda>q. q\<lparr>cwd := Some c\<rparr>) s;
                        s = upd_proc np (\<lambda>q. q\<lparr>pname := cstring_copy 16 (pname (procs s p))\<rparr>) s
                    in bnd (release (L_proc np) s) (\<lambda>_ s.
                       bnd (acquire L_wait s) (\<lambda>_ s.
                         let s = upd_proc np (\<lambda>q. q\<lparr>parent := Some p\<rparr>) s in
                         bnd (release L_wait s) (\<lambda>_ s.
                         bnd (acquire (L_proc np) s) (\<lambda>_ s.
                           let s = upd_proc np (\<lambda>q. q\<lparr>state := RUNNABLE\<rparr>) s;
                               n = pid (procs s np)
                           in bnd (printf ([10] @ str ''[Kernel] Process Created: Parent PID %d -> Child PID %d'' @ [10])
                                    [Val (scast (pid (procs s p))), Val (scast n)] s) (\<lambda>_ s.
                              bnd (release (L_proc np) s) (\<lambda>_ s. Done n s)))))))))))"

primrec close_files :: "nat \<Rightarrow> nat list \<Rightarrow> 'a kfile_scheme \<Rightarrow> (unit, 'a kfile_scheme) outcome" where
  "close_files p [] s = Done () s"
| "close_files p (fd # fds) s =
     bnd (case ofile (procs s p) fd of
            None \<Rightarrow> Done () s
          | Some f \<Rightarrow> bnd (fileclose f s) (\<lambda>_ s. Done () (upd_proc p (\<lambda>q. q\<lparr>ofile := (ofile q)(fd := None)\<rparr>) s))) (\<lambda>_ s.
       close_files p fds s)"

text \<open>The last part of \<^verbatim>\<open>kexit\<close>, once the process has nothing open any more.\<close>

definition kexit_end :: "nat \<Rightarrow> i32 \<Rightarrow> 'a kstate_scheme \<Rightarrow> (unit, 'a kstate_scheme) outcome" where
  "kexit_end p status s =
     bnd (acquire L_wait s) (\<lambda>_ s.
     bnd (reparent p s) (\<lambda>_ s.
     bnd (wakeup (proc_chan (parent (procs s p))) s) (\<lambda>_ s.
     bnd (acquire (L_proc p) s) (\<lambda>_ s.
       let s = upd_proc p (\<lambda>q. q\<lparr>xstate := status\<rparr>) s;
           s = upd_proc p (\<lambda>q. q\<lparr>state := ZOMBIE\<rparr>) s
       in bnd (release L_wait s) (\<lambda>_ s.
          bnd (sched s) (\<lambda>_ s. Panic ''zombie exit''))))))"

definition kexit :: "i32 \<Rightarrow> 'a kfile_scheme \<Rightarrow> (unit, 'a kfile_scheme) outcome" where
  "kexit status s =
     with_myproc s (\<lambda>p.
       if Some p = initproc s then Panic ''init exiting''
       else
         bnd (close_files p [0..<NOFILE] s) (\<lambda>_ s.
         bnd (begin_op s) (\<lambda>_ s.
         bnd (with_ip (cwd (procs s p)) (\<lambda>c. iput c s)) (\<lambda>_ s.
         bnd (end_op s) (\<lambda>_ s.
           kexit_end p status (upd_proc p (\<lambda>q. q\<lparr>cwd := None\<rparr>) s))))))"

text \<open>
  \<^verbatim>\<open>forkret\<close> ends with a jump to the trampoline, which is given the page table to switch to; that value is the result.
\<close>

definition forkret :: "'a ktrap_scheme \<Rightarrow> (u64, 'a ktrap_scheme) outcome" where
  "forkret s =
     with_myproc s (\<lambda>p.
       bnd (release (L_proc p) s) (\<lambda>_ s.
       bnd (if first_run s then
              bnd (fsinit ROOTDEV s) (\<lambda>_ s.
                let s = s\<lparr>first_run := False\<rparr> in
                bnd (kexec (str ''/init'') [str ''/init''] s) (\<lambda>r s.
                  let s = tf_set p A0 (scast r) s in
                  if tf_get p A0 s = - 1 then Panic ''exec'' else Done () s))
            else Done () s) (\<lambda>_ s.
       bnd (prepare_return s) (\<lambda>_ s. Done (MAKE_SATP (pagetable (procs s p))) s))))"

definition sys_exit :: "'a kfile_scheme \<Rightarrow> (u64, 'a kfile_scheme) outcome" where
  "sys_exit s = bnd (argint 0 s) (\<lambda>n s. bnd (kexit n s) (\<lambda>_ s. Done 0 s))"

definition sys_fork :: "'a kfile_scheme \<Rightarrow> (u64, 'a kfile_scheme) outcome" where
  "sys_fork s = bnd (kfork s) (\<lambda>r s. Done (scast r) s)"

section \<open>Example states\<close>

definition with_trap :: "kfile \<Rightarrow> ktrap" where
  "with_trap s = kfile.extend s (ktrap.fields 0 0 0 0 0 0 0 0 0 [] True)"

lemma with_trap_fields [simp]:
  "held (with_trap s) = held s" "cur (with_trap s) = cur s" "procs (with_trap s) = procs s"
  "tframes (with_trap s) = tframes s" "memory (with_trap s) = memory s" "panicked (with_trap s) = panicked s"
  "slocks (with_trap s) = slocks s" "bufs (with_trap s) = bufs s" "disk (with_trap s) = disk s"
  "disk_log (with_trap s) = disk_log s" "log_start (with_trap s) = log_start s" "log_outstanding (with_trap s) = log_outstanding s"
  "log_committing (with_trap s) = log_committing s" "log_dev (with_trap s) = log_dev s" "lh_n (with_trap s) = lh_n s"
  "lh_block (with_trap s) = lh_block s" "sb (with_trap s) = sb s" "inodes (with_trap s) = inodes s"
  "files (with_trap s) = files s"
  by (simp_all add: with_trap_def kfile.defs ktrap.defs)

text \<open>A whole kernel around a state of the process layer: the buffer cache set up, no file open, no inode in use.\<close>

definition whole_kernel :: "kstate \<Rightarrow> ktrap" where
  "whole_kernel s = with_trap (with_files (with_fs (with_log (with_cache (with_slocks (with_console (with_pipes s)))))))"

end
