(* ===== verification/Sysfile.thy ===== *)
theory Sysfile
  imports Life
begin

text \<open>
  The system calls on files (\<^verbatim>\<open>kernel/sysfile.c\<close>). The character arrays that \<^verbatim>\<open>argstr\<close> fills start out as zeros: what
  they held before cannot be seen once it succeeds.
\<close>

section \<open>Definitions\<close>

definition MAXPATH :: nat where "MAXPATH = 128"

definition O_RDONLY :: i32 where "O_RDONLY = 0x000"

definition O_WRONLY :: i32 where "O_WRONLY = 0x001"

definition O_RDWR :: i32 where "O_RDWR = 0x002"

definition O_CREATE :: i32 where "O_CREATE = 0x200"

definition O_TRUNC :: i32 where "O_TRUNC = 0x400"

definition argpath :: "nat \<Rightarrow> 'a kstate_scheme \<Rightarrow> (u8 list option, 'a kstate_scheme) outcome" where
  "argpath n s =
     bnd (argstr n (replicate MAXPATH 0) s) (\<lambda>(buf, r) s.
       Done (if sint r < 0 then None else Some (takeWhile (\<lambda>c. c \<noteq> 0) buf)) s)"

definition argfd :: "nat \<Rightarrow> 'a kstate_scheme \<Rightarrow> ((nat \<times> nat) option, 'a kstate_scheme) outcome" where
  "argfd n s =
     bnd (argint n s) (\<lambda>fd s.
     with_myproc s (\<lambda>p.
       if sint fd < 0 \<or> sint fd \<ge> int NOFILE then Done None s
       else case ofile (procs s p) (unat fd) of
         None \<Rightarrow> Done None s
       | Some f \<Rightarrow> Done (Some (unat fd, f)) s))"

definition fdalloc :: "nat \<Rightarrow> 'a kstate_scheme \<Rightarrow> (nat option, 'a kstate_scheme) outcome" where
  "fdalloc f s =
     with_myproc s (\<lambda>p.
       case find (\<lambda>fd. ofile (procs s p) fd = None) [0..<NOFILE] of
         Some fd \<Rightarrow> Done (Some fd) (upd_proc p (\<lambda>q. q\<lparr>ofile := (ofile q)(fd := Some f)\<rparr>) s)
       | None \<Rightarrow> Done None s)"

definition sys_dup :: "'a kfile_scheme \<Rightarrow> (u64, 'a kfile_scheme) outcome" where
  "sys_dup s =
     bnd (argfd 0 s) (\<lambda>a s. case a of None \<Rightarrow> Done (- 1) s
     | Some (_, f) \<Rightarrow>
         bnd (fdalloc f s) (\<lambda>fd s. case fd of None \<Rightarrow> Done (- 1) s
         | Some fd \<Rightarrow> bnd (filedup f s) (\<lambda>_ s. Done (of_nat fd) s)))"

definition sys_read :: "'a kfile_scheme \<Rightarrow> (u64, 'a kfile_scheme) outcome" where
  "sys_read s =
     bnd (argaddr 1 s) (\<lambda>p s.
     bnd (argint 2 s) (\<lambda>n s.
     bnd (argfd 0 s) (\<lambda>a s. case a of None \<Rightarrow> Done (- 1) s
     | Some (_, f) \<Rightarrow> bnd (fileread f p n s) (\<lambda>r s. Done (scast r) s))))"

definition sys_write :: "'a kfile_scheme \<Rightarrow> (u64, 'a kfile_scheme) outcome" where
  "sys_write s =
     bnd (argaddr 1 s) (\<lambda>p s.
     bnd (argint 2 s) (\<lambda>n s.
     bnd (argfd 0 s) (\<lambda>a s. case a of None \<Rightarrow> Done (- 1) s
     | Some (_, f) \<Rightarrow> bnd (filewrite f p n s) (\<lambda>r s. Done (scast r) s))))"

definition sys_close :: "'a kfile_scheme \<Rightarrow> (u64, 'a kfile_scheme) outcome" where
  "sys_close s =
     bnd (argfd 0 s) (\<lambda>a s. case a of None \<Rightarrow> Done (- 1) s
     | Some (fd, f) \<Rightarrow>
         with_myproc s (\<lambda>p.
           let s = upd_proc p (\<lambda>q. q\<lparr>ofile := (ofile q)(fd := None)\<rparr>) s in
           bnd (fileclose f s) (\<lambda>_ s. Done 0 s)))"

definition sys_fstat :: "'a kfile_scheme \<Rightarrow> (u64, 'a kfile_scheme) outcome" where
  "sys_fstat s =
     bnd (argaddr 1 s) (\<lambda>st s.
     bnd (argfd 0 s) (\<lambda>a s. case a of None \<Rightarrow> Done (- 1) s
     | Some (_, f) \<Rightarrow> bnd (filestat f st s) (\<lambda>r s. Done (scast r) s)))"

text \<open>The end of a call that fails inside a transaction.\<close>

definition fail_op :: "'a klog_scheme \<Rightarrow> (u64, 'a klog_scheme) outcome" where
  "fail_op s = bnd (end_op s) (\<lambda>_ s. Done (- 1) s)"

definition link_bad :: "nat \<Rightarrow> 'a kfs_scheme \<Rightarrow> (u64, 'a kfs_scheme) outcome" where
  "link_bad ip s =
     bnd (ilock (Some ip) s) (\<lambda>_ s.
     bnd (iupdate ip (upd_inode ip (\<lambda>q. q\<lparr>inlink := inlink q - 1\<rparr>) s)) (\<lambda>_ s.
     bnd (iunlockput ip s) (\<lambda>_ s. fail_op s)))"

definition sys_link :: "'a kfs_scheme \<Rightarrow> (u64, 'a kfs_scheme) outcome" where
  "sys_link s =
     bnd (argpath 0 s) (\<lambda>old s. case old of None \<Rightarrow> Done (- 1) s | Some old \<Rightarrow>
     bnd (argpath 1 s) (\<lambda>new s. case new of None \<Rightarrow> Done (- 1) s | Some new \<Rightarrow>
     bnd (begin_op s) (\<lambda>_ s.
     bnd (namei old s) (\<lambda>ipo s. case ipo of None \<Rightarrow> fail_op s | Some ip \<Rightarrow>
     bnd (ilock (Some ip) s) (\<lambda>_ s.
       if itype (inodes s ip) = T_DIR then bnd (iunlockput ip s) (\<lambda>_ s. fail_op s)
       else
         bnd (iupdate ip (upd_inode ip (\<lambda>q. q\<lparr>inlink := inlink q + 1\<rparr>) s)) (\<lambda>_ s.
         bnd (iunlock (Some ip) s) (\<lambda>_ s.
         bnd (nameiparent new (replicate DIRSIZ 0) s) (\<lambda>dpo s. case dpo of None \<Rightarrow> link_bad ip s
         | Some (dp, nm) \<Rightarrow>
             bnd (ilock (Some dp) s) (\<lambda>_ s.
             bnd (if idev (inodes s dp) \<noteq> idev (inodes s ip) then Done True s
                  else bnd (dirlink dp nm (inum (inodes s ip)) s) (\<lambda>r s. Done (sint r < 0) s)) (\<lambda>failed s.
               if failed then bnd (iunlockput dp s) (\<lambda>_ s. link_bad ip s)
               else
                 bnd (iunlockput dp s) (\<lambda>_ s.
                 bnd (iput ip s) (\<lambda>_ s.
                 bnd (end_op s) (\<lambda>_ s. Done 0 s)))))))))))))"

primrec isdirempty_loop :: "nat \<Rightarrow> nat list \<Rightarrow> 'a kfs_scheme \<Rightarrow> (bool, 'a kfs_scheme) outcome" where
  "isdirempty_loop dp [] s = Done True s"
| "isdirempty_loop dp (off # offs) s =
     bnd (read_dirent ''isdirempty: readi'' dp off s) (\<lambda>(i, _) s.
       if i \<noteq> 0 then Done False s else isdirempty_loop dp offs s)"

definition isdirempty :: "nat \<Rightarrow> 'a kfs_scheme \<Rightarrow> (bool, 'a kfs_scheme) outcome" where
  "isdirempty dp s = isdirempty_loop dp (drop 2 (dirent_offs (unat (isize (inodes s dp))))) s"

definition unlink_bad :: "nat \<Rightarrow> 'a kfs_scheme \<Rightarrow> (u64, 'a kfs_scheme) outcome" where
  "unlink_bad dp s = bnd (iunlockput dp s) (\<lambda>_ s. fail_op s)"

text \<open>The part of \<^verbatim>\<open>sys_unlink\<close> that removes the entry at \<open>off\<close> of \<open>dp\<close>, which names \<open>ip\<close>; both are locked.\<close>

definition unlink_entry :: "nat \<Rightarrow> nat \<Rightarrow> nat \<Rightarrow> 'a kfs_scheme \<Rightarrow> (u64, 'a kfs_scheme) outcome" where
  "unlink_entry dp ip off s =
     (let s = s\<lparr>memory := wr_bytes (memory s) (frame_addr s) (replicate 16 0)\<rparr> in
      bnd (writei dp False (frame_addr s) (of_nat off) 16 s) (\<lambda>r s.
        if r \<noteq> 16 then Panic ''unlink: writei''
        else
          bnd (if itype (inodes s ip) = T_DIR
               then iupdate dp (upd_inode dp (\<lambda>q. q\<lparr>inlink := inlink q - 1\<rparr>) s) else Done () s) (\<lambda>_ s.
          bnd (iunlockput dp s) (\<lambda>_ s.
          bnd (iupdate ip (upd_inode ip (\<lambda>q. q\<lparr>inlink := inlink q - 1\<rparr>) s)) (\<lambda>_ s.
          bnd (iunlockput ip s) (\<lambda>_ s.
          bnd (end_op s) (\<lambda>_ s. Done 0 s)))))))"

definition sys_unlink :: "'a kfs_scheme \<Rightarrow> (u64, 'a kfs_scheme) outcome" where
  "sys_unlink s =
     bnd (argpath 0 s) (\<lambda>path s. case path of None \<Rightarrow> Done (- 1) s | Some path \<Rightarrow>
     bnd (begin_op s) (\<lambda>_ s.
     bnd (nameiparent path (replicate DIRSIZ 0) s) (\<lambda>dpo s. case dpo of None \<Rightarrow> fail_op s | Some (dp, nm) \<Rightarrow>
     bnd (ilock (Some dp) s) (\<lambda>_ s.
       if namecmp nm (str ''.'') \<or> namecmp nm (str ''..'') then unlink_bad dp s
       else bnd (dirlookup dp nm s) (\<lambda>x s. case x of None \<Rightarrow> unlink_bad dp s | Some (ip, off) \<Rightarrow>
         bnd (ilock (Some ip) s) (\<lambda>_ s.
           if sint (inlink (inodes s ip)) < 1 then Panic ''unlink: nlink < 1''
           else
             bnd (if itype (inodes s ip) = T_DIR then isdirempty ip s else Done True s) (\<lambda>ok s.
               if \<not> ok then bnd (iunlockput ip s) (\<lambda>_ s. unlink_bad dp s)
               else unlink_entry dp ip off s)))))))"

definition create_fail :: "nat \<Rightarrow> nat \<Rightarrow> 'a kfs_scheme \<Rightarrow> (nat option, 'a kfs_scheme) outcome" where
  "create_fail dp ip s =
     bnd (iupdate ip (upd_inode ip (\<lambda>q. q\<lparr>inlink := 0\<rparr>) s)) (\<lambda>_ s.
     bnd (iunlockput ip s) (\<lambda>_ s.
     bnd (iunlockput dp s) (\<lambda>_ s. Done None s)))"

text \<open>The two entries of a new directory; whether one of them failed.\<close>

definition dot_entries :: "nat \<Rightarrow> nat \<Rightarrow> 'a kfs_scheme \<Rightarrow> (bool, 'a kfs_scheme) outcome" where
  "dot_entries dp ip s =
     bnd (dirlink ip (str ''.'') (inum (inodes s ip)) s) (\<lambda>r s.
       if sint r < 0 then Done True s
       else bnd (dirlink ip (str ''..'') (inum (inodes s dp)) s) (\<lambda>r s. Done (sint r < 0) s))"

definition create :: "u8 list \<Rightarrow> i16 \<Rightarrow> i16 \<Rightarrow> i16 \<Rightarrow> 'a kfs_scheme \<Rightarrow> (nat option, 'a kfs_scheme) outcome" where
  "create path ty major minor s =
     bnd (nameiparent path (replicate DIRSIZ 0) s) (\<lambda>dpo s. case dpo of None \<Rightarrow> Done None s | Some (dp, nm) \<Rightarrow>
     bnd (ilock (Some dp) s) (\<lambda>_ s.
     bnd (dirlookup dp nm s) (\<lambda>x s. case x of
       Some (ip, _) \<Rightarrow>
         bnd (iunlockput dp s) (\<lambda>_ s.
         bnd (ilock (Some ip) s) (\<lambda>_ s.
           if ty = T_FILE \<and> (itype (inodes s ip) = T_FILE \<or> itype (inodes s ip) = T_DEVICE) then Done (Some ip) s
           else bnd (iunlockput ip s) (\<lambda>_ s. Done None s)))
     | None \<Rightarrow>
         bnd (ialloc (idev (inodes s dp)) ty s) (\<lambda>ipo s. case ipo of
           None \<Rightarrow> bnd (iunlockput dp s) (\<lambda>_ s. Done None s)
         | Some ip \<Rightarrow>
             bnd (ilock (Some ip) s) (\<lambda>_ s.
             bnd (iupdate ip (upd_inode ip (\<lambda>q. q\<lparr>imajor := major, iminor := minor, inlink := 1\<rparr>) s)) (\<lambda>_ s.
             bnd (if ty = T_DIR then dot_entries dp ip s else Done False s) (\<lambda>failed s.
               if failed then create_fail dp ip s
               else bnd (dirlink dp nm (inum (inodes s ip)) s) (\<lambda>r s.
                 if sint r < 0 then create_fail dp ip s
                 else
                   bnd (if ty = T_DIR then iupdate dp (upd_inode dp (\<lambda>q. q\<lparr>inlink := inlink q + 1\<rparr>) s)
                        else Done () s) (\<lambda>_ s.
                   bnd (iunlockput dp s) (\<lambda>_ s. Done (Some ip) s))))))))))"

text \<open>The part of \<^verbatim>\<open>sys_open\<close> from the locked inode on.\<close>

definition open_inode :: "i32 \<Rightarrow> nat \<Rightarrow> 'a kfile_scheme \<Rightarrow> (u64, 'a kfile_scheme) outcome" where
  "open_inode omode ip s =
     (if itype (inodes s ip) = T_DEVICE \<and> bad_major (imajor (inodes s ip)) then
        bnd (iunlockput ip s) (\<lambda>_ s. fail_op s)
      else
        bnd (filealloc s) (\<lambda>fo s. case fo of
          None \<Rightarrow> bnd (iunlockput ip s) (\<lambda>_ s. fail_op s)
        | Some f \<Rightarrow>
            bnd (fdalloc f s) (\<lambda>fdo s. case fdo of
              None \<Rightarrow> bnd (fileclose f s) (\<lambda>_ s. bnd (iunlockput ip s) (\<lambda>_ s. fail_op s))
            | Some fd \<Rightarrow>
                let s = (if itype (inodes s ip) = T_DEVICE
                         then upd_file f (\<lambda>q. q\<lparr>ftype := FD_DEVICE, fmajor := imajor (inodes s ip)\<rparr>) s
                         else upd_file f (\<lambda>q. q\<lparr>ftype := FD_INODE, foff := 0\<rparr>) s);
                    s = upd_file f (\<lambda>q. q\<lparr>fip := Some ip\<rparr>) s;
                    s = upd_file f (\<lambda>q. q\<lparr>readable := (omode AND O_WRONLY = 0)\<rparr>) s;
                    s = upd_file f (\<lambda>q. q\<lparr>writable := (omode AND O_WRONLY \<noteq> 0 \<or> omode AND O_RDWR \<noteq> 0)\<rparr>) s
                in bnd (if omode AND O_TRUNC \<noteq> 0 \<and> itype (inodes s ip) = T_FILE then itrunc ip s else Done () s) (\<lambda>_ s.
                   bnd (iunlock (Some ip) s) (\<lambda>_ s.
                   bnd (end_op s) (\<lambda>_ s. Done (of_nat fd) s))))))"

definition sys_open :: "'a kfile_scheme \<Rightarrow> (u64, 'a kfile_scheme) outcome" where
  "sys_open s =
     bnd (argint 1 s) (\<lambda>omode s.
     bnd (argpath 0 s) (\<lambda>path s. case path of None \<Rightarrow> Done (- 1) s | Some path \<Rightarrow>
     bnd (begin_op s) (\<lambda>_ s.
       if omode AND O_CREATE \<noteq> 0 then
         bnd (create path T_FILE 0 0 s) (\<lambda>ipo s. case ipo of None \<Rightarrow> fail_op s | Some ip \<Rightarrow> open_inode omode ip s)
       else
         bnd (namei path s) (\<lambda>ipo s. case ipo of None \<Rightarrow> fail_op s | Some ip \<Rightarrow>
         bnd (ilock (Some ip) s) (\<lambda>_ s.
           if itype (inodes s ip) = T_DIR \<and> omode \<noteq> O_RDONLY then bnd (iunlockput ip s) (\<lambda>_ s. fail_op s)
           else open_inode omode ip s)))))"

definition sys_mkdir :: "'a kfs_scheme \<Rightarrow> (u64, 'a kfs_scheme) outcome" where
  "sys_mkdir s =
     bnd (begin_op s) (\<lambda>_ s.
     bnd (argpath 0 s) (\<lambda>path s. case path of None \<Rightarrow> fail_op s | Some path \<Rightarrow>
     bnd (create path T_DIR 0 0 s) (\<lambda>ipo s. case ipo of None \<Rightarrow> fail_op s | Some ip \<Rightarrow>
     bnd (iunlockput ip s) (\<lambda>_ s. bnd (end_op s) (\<lambda>_ s. Done 0 s)))))"

definition sys_mknod :: "'a kfs_scheme \<Rightarrow> (u64, 'a kfs_scheme) outcome" where
  "sys_mknod s =
     bnd (begin_op s) (\<lambda>_ s.
     bnd (argint 1 s) (\<lambda>major s.
     bnd (argint 2 s) (\<lambda>minor s.
     bnd (argpath 0 s) (\<lambda>path s. case path of None \<Rightarrow> fail_op s | Some path \<Rightarrow>
     bnd (create path T_DEVICE (ucast major) (ucast minor) s) (\<lambda>ipo s. case ipo of None \<Rightarrow> fail_op s | Some ip \<Rightarrow>
     bnd (iunlockput ip s) (\<lambda>_ s. bnd (end_op s) (\<lambda>_ s. Done 0 s)))))))"

definition sys_chdir :: "'a kfs_scheme \<Rightarrow> (u64, 'a kfs_scheme) outcome" where
  "sys_chdir s =
     with_myproc s (\<lambda>p.
     bnd (begin_op s) (\<lambda>_ s.
     bnd (argpath 0 s) (\<lambda>path s. case path of None \<Rightarrow> fail_op s | Some path \<Rightarrow>
     bnd (namei path s) (\<lambda>ipo s. case ipo of None \<Rightarrow> fail_op s | Some ip \<Rightarrow>
     bnd (ilock (Some ip) s) (\<lambda>_ s.
       if itype (inodes s ip) \<noteq> T_DIR then bnd (iunlockput ip s) (\<lambda>_ s. fail_op s)
       else
         bnd (iunlock (Some ip) s) (\<lambda>_ s.
         bnd (with_ip (cwd (procs s p)) (\<lambda>c. iput c s)) (\<lambda>_ s.
         bnd (end_op s) (\<lambda>_ s. Done 0 (upd_proc p (\<lambda>q. q\<lparr>cwd := Some ip\<rparr>) s)))))))))"

text \<open>
  The argument loop of \<^verbatim>\<open>sys_exec\<close>: the pages of the argument strings and whether it ended at a null
  pointer.
\<close>

primrec exec_args :: "u64 \<Rightarrow> nat list \<Rightarrow> u64 list \<Rightarrow> 'a kstate_scheme \<Rightarrow> (u64 list \<times> bool, 'a kstate_scheme) outcome" where
  "exec_args uargv [] argv s = Done (argv, False) s"
| "exec_args uargv (i # is) argv s =
     bnd (fetchaddr (uargv + 8 * of_nat i) s) (\<lambda>a s. case a of
       None \<Rightarrow> Done (argv, False) s
     | Some uarg \<Rightarrow>
         if uarg = 0 then Done (argv, True) s
         else bnd (kalloc s) (\<lambda>pg s.
           if pg = 0 then Done (argv, False) s
           else bnd (fetchstr uarg (rd_bytes (memory s) pg 4096) s) (\<lambda>(buf, r) s.
             let s = s\<lparr>memory := wr_bytes (memory s) pg buf\<rparr> in
             if sint r < 0 then Done (argv @ [pg], False) s
             else exec_args uargv is (argv @ [pg]) s)))"

primrec free_args :: "u64 list \<Rightarrow> 'a kmem_scheme \<Rightarrow> (unit, 'a kmem_scheme) outcome" where
  "free_args [] s = Done () s"
| "free_args (pg # pgs) s = bnd (kfree pg s) (\<lambda>_ s. free_args pgs s)"

definition sys_exec :: "'a kfs_scheme \<Rightarrow> (u64, 'a kfs_scheme) outcome" where
  "sys_exec s =
     bnd (argaddr 1 s) (\<lambda>uargv s.
     bnd (argpath 0 s) (\<lambda>path s. case path of None \<Rightarrow> Done (- 1) s | Some path \<Rightarrow>
     bnd (exec_args uargv [0..<MAXARG] [] s) (\<lambda>(argv, ok) s.
       if \<not> ok then bnd (free_args argv s) (\<lambda>_ s. Done (- 1) s)
       else
         let strs = map (\<lambda>pg. takeWhile (\<lambda>c. c \<noteq> 0) (rd_bytes (memory s) pg 4096)) argv in
         bnd (kexec path strs s) (\<lambda>ret s.
         bnd (free_args argv s) (\<lambda>_ s. Done (scast ret) s)))))"

definition close_both :: "nat \<Rightarrow> nat \<Rightarrow> 'a kfile_scheme \<Rightarrow> (u64, 'a kfile_scheme) outcome" where
  "close_both rfile wfile s = bnd (fileclose rfile s) (\<lambda>_ s. bnd (fileclose wfile s) (\<lambda>_ s. Done (- 1) s))"

definition sys_pipe :: "'a kfile_scheme \<Rightarrow> (u64, 'a kfile_scheme) outcome" where
  "sys_pipe s =
     with_myproc s (\<lambda>p.
     bnd (argaddr 0 s) (\<lambda>fdarray s.
     bnd (pipealloc s) (\<lambda>x s. case x of None \<Rightarrow> Done (- 1) s | Some (rfile, wfile) \<Rightarrow>
     bnd (fdalloc rfile s) (\<lambda>fd0 s. case fd0 of None \<Rightarrow> close_both rfile wfile s | Some fd0 \<Rightarrow>
     bnd (fdalloc wfile s) (\<lambda>fd1 s. case fd1 of
       None \<Rightarrow> close_both rfile wfile (upd_proc p (\<lambda>q. q\<lparr>ofile := (ofile q)(fd0 := None)\<rparr>) s)
     | Some fd1 \<Rightarrow>
         let undo = (\<lambda>s. close_both rfile wfile (upd_proc p (\<lambda>q. q\<lparr>ofile := (ofile q)(fd0 := None, fd1 := None)\<rparr>) s)) in
         bnd (copyout (pagetable (procs s p)) fdarray (word_to_bytes 4 (of_nat fd0 :: i32)) s) (\<lambda>r s.
           if sint r < 0 then undo s
           else bnd (copyout (pagetable (procs s p)) (fdarray + 4) (word_to_bytes 4 (of_nat fd1 :: i32)) s) (\<lambda>r s.
             if sint r < 0 then undo s else Done 0 s)))))))"

end
