(* ===== verification/Trap.thy ===== *)
theory Trap
  imports Sysfile
begin

text \<open>
  The system call table and its dispatcher (\<^verbatim>\<open>kernel/syscall.c\<close>), signal delivery and the trap handlers
  (\<^verbatim>\<open>kernel/trap.c\<close>), and the two operations of \<^verbatim>\<open>kernel/plic.c\<close> they use. \<open>disk_intr\<close> stands for the
  interrupt handler of the disk driver, and \<open>junk\<close> for the bytes of an uninitialised array of \<^verbatim>\<open>sys_send\<close>.
\<close>

section \<open>System calls\<close>

type_synonym 'a handler = "'a ktrap_scheme \<Rightarrow> (u64, 'a ktrap_scheme) outcome"

definition syscalls :: "u8 list \<Rightarrow> nat \<Rightarrow> 'a handler option" where
  "syscalls junk n =
     (if n = 1 then Some sys_fork else if n = 2 then Some sys_exit else if n = 3 then Some sys_wait
      else if n = 4 then Some sys_pipe else if n = 5 then Some sys_read else if n = 6 then Some sys_kill
      else if n = 7 then Some sys_exec else if n = 8 then Some sys_fstat else if n = 9 then Some sys_chdir
      else if n = 10 then Some sys_dup else if n = 11 then Some sys_getpid else if n = 12 then Some sys_sbrk
      else if n = 13 then Some sys_pause else if n = 14 then Some sys_uptime else if n = 15 then Some sys_open
      else if n = 16 then Some sys_write else if n = 17 then Some sys_mknod else if n = 18 then Some sys_unlink
      else if n = 19 then Some sys_link else if n = 20 then Some sys_mkdir else if n = 21 then Some sys_close
      else if n = 22 then Some sys_getyear else if n = 23 then Some sys_signal else if n = 24 then Some sys_sigreturn
      else if n = 25 then Some sys_sleep else if n = 26 then Some sys_sem_init else if n = 27 then Some sys_sem_wait
      else if n = 28 then Some sys_sem_post else if n = 29 then Some sys_lock_create
      else if n = 30 then Some sys_lock_acquire else if n = 31 then Some sys_lock_release
      else if n = 32 then Some (sys_send junk) else if n = 33 then Some sys_recv else None)"

definition syscall :: "u8 list \<Rightarrow> 'a ktrap_scheme \<Rightarrow> (unit, 'a ktrap_scheme) outcome" where
  "syscall junk s =
     with_myproc s (\<lambda>p.
       let num = (ucast (tf_get p A7 s) :: i32) in
       case (if 0 < sint num then syscalls junk (unat num) else None) of
         Some f \<Rightarrow> bnd (f s) (\<lambda>r s. Done () (tf_set p A0 r s))
       | None \<Rightarrow>
           bnd (printf (str ''%d %s: unknown sys call %d'' @ [10])
                  [Val (scast (pid (procs s p))), Str (Some (pname (procs s p))), Val (scast num)] s) (\<lambda>_ s.
             Done () (tf_set p A0 (- 1) s)))"

section \<open>Signals\<close>

text \<open>The signal with number \<open>sig\<close> is pending.\<close>

definition pending :: "proc \<Rightarrow> nat \<Rightarrow> bool" where
  "pending q sig \<longleftrightarrow> pending_signals q AND push_bit sig 1 \<noteq> 0"

primrec deliver_loop :: "nat \<Rightarrow> nat list \<Rightarrow> 'a kstate_scheme \<Rightarrow> 'a kstate_scheme" where
  "deliver_loop p [] s = s"
| "deliver_loop p (sig # sigs) s =
     (if pending (procs s p) sig then
        if signal_handlers (procs s p) sig \<noteq> 0 then
          let s = upd_proc p (\<lambda>q. q\<lparr>pending_signals := pending_signals q AND NOT (push_bit sig 1)\<rparr>) s;
              s = upd_proc p (\<lambda>q. q\<lparr>signal_trapframe := tframes s (trapframe q)\<rparr>) s;
              s = upd_proc p (\<lambda>q. q\<lparr>in_signal_handler := 1\<rparr>) s;
              s = tf_set p A0 (of_nat sig) s
          in tf_set p Epc (signal_handlers (procs s p) sig) s
        else
          let s = upd_proc p (\<lambda>q. q\<lparr>pending_signals := pending_signals q AND NOT (push_bit sig 1)\<rparr>) s;
              s = upd_proc p (\<lambda>q. q\<lparr>killed := 1\<rparr>) s
          in deliver_loop p sigs s
      else deliver_loop p sigs s)"

definition deliver_signals :: "'a kstate_scheme \<Rightarrow> (unit, 'a kstate_scheme) outcome" where
  "deliver_signals s =
     with_myproc s (\<lambda>p.
       if in_signal_handler (procs s p) \<noteq> 0 then Done () s
       else Done () (deliver_loop p [0..<32] s))"

section \<open>Traps\<close>

definition UART0_IRQ :: i32 where "UART0_IRQ = 10"

definition VIRTIO0_IRQ :: i32 where "VIRTIO0_IRQ = 1"

definition trapinit :: "'a ktrap_scheme \<Rightarrow> 'a ktrap_scheme" where
  "trapinit s = init_lock L_ticks s"

definition trapinithart :: "'a ktrap_scheme \<Rightarrow> 'a ktrap_scheme" where
  "trapinithart s = s\<lparr>stvec := kernelvec (syms s)\<rparr>"

definition clockintr :: "'a ktrap_scheme \<Rightarrow> (unit, 'a ktrap_scheme) outcome" where
  "clockintr s =
     bnd (if hartid s = 0 then
            bnd (acquire L_ticks s) (\<lambda>_ s.
              let s = s\<lparr>ticks := ticks s + 1\<rparr> in
              bnd (wakeup Ch_ticks s) (\<lambda>_ s. release L_ticks s))
          else Done () s) (\<lambda>_ s. Done () (s\<lparr>stimecmp := rtime s + 1000000\<rparr>))"

definition plic_claim :: "'a ktrap_scheme \<Rightarrow> i32" where
  "plic_claim s = plic_irq s"

definition plic_complete :: "i32 \<Rightarrow> 'a ktrap_scheme \<Rightarrow> 'a ktrap_scheme" where
  "plic_complete irq s = s\<lparr>plic_done := plic_done s @ [irq]\<rparr>"

definition devintr :: "('a ktrap_scheme \<Rightarrow> (unit, 'a ktrap_scheme) outcome) \<Rightarrow> 'a ktrap_scheme \<Rightarrow> (nat, 'a ktrap_scheme) outcome" where
  "devintr disk_intr s =
     (if scause s = 0x8000000000000009 then
        let irq = plic_claim s in
        bnd (if irq = UART0_IRQ then uartintr s
             else if irq = VIRTIO0_IRQ then disk_intr s
             else if irq \<noteq> 0 then printf (str ''unexpected interrupt irq=%d'' @ [10]) [Val (scast irq)] s
             else Done () s) (\<lambda>_ s. Done 1 (if irq \<noteq> 0 then plic_complete irq s else s))
      else if scause s = 0x8000000000000005 then bnd (clockintr s) (\<lambda>_ s. Done 2 s)
      else Done 0 s)"

text \<open>
  The end of \<^verbatim>\<open>usertrap\<close>, from the second test of the killed flag on. A process that yields here is
  suspended; \<open>usertrap_resume\<close> goes on when the scheduler has switched back to it.
\<close>

definition usertrap_return :: "'a ktrap_scheme \<Rightarrow> (u64, 'a ktrap_scheme) outcome" where
  "usertrap_return s =
     with_myproc s (\<lambda>p.
       bnd (deliver_signals s) (\<lambda>_ s.
       bnd (prepare_return s) (\<lambda>_ s. Done (MAKE_SATP (pagetable (procs s p))) s)))"

definition usertrap_resume :: "'a ktrap_scheme \<Rightarrow> (u64, 'a ktrap_scheme) outcome" where
  "usertrap_resume s = with_myproc s (\<lambda>p. bnd (release (L_proc p) s) (\<lambda>_ s. usertrap_return s))"

definition usertrap :: "u8 list \<Rightarrow> ('a ktrap_scheme \<Rightarrow> (unit, 'a ktrap_scheme) outcome) \<Rightarrow> 'a ktrap_scheme \<Rightarrow>
    (u64, 'a ktrap_scheme) outcome" where
  "usertrap junk disk_intr s =
     (if sstatus s AND SSTATUS_SPP \<noteq> 0 then Panic ''usertrap: not from user mode''
      else
        let s = s\<lparr>stvec := kernelvec (syms s)\<rparr> in
        with_myproc s (\<lambda>p.
          let s = tf_set p Epc (sepc s) s in
          bnd (if scause s = 8 then
                 bnd (is_killed p s) (\<lambda>k s.
                 bnd (if k \<noteq> 0 then kexit (- 1) s else Done () s) (\<lambda>_ s.
                   let s = tf_set p Epc (tf_get p Epc s + 4) s;
                       s = s\<lparr>intr := True\<rparr>
                   in bnd (syscall junk s) (\<lambda>_ s. Done 0 s)))
               else bnd (devintr disk_intr s) (\<lambda>which_dev s.
                 if which_dev \<noteq> 0 then Done which_dev s
                 else
                   bnd (if scause s = 15 \<or> scause s = 13 then vmfault (pagetable (procs s p)) (stval s) s
                        else Done 0 s) (\<lambda>pa s.
                     if pa \<noteq> 0 then Done 0 s
                     else
                       bnd (printf (str ''usertrap(): unexpected scause 0x%lx pid=%d'' @ [10])
                              [Val (scause s), Val (scast (pid (procs s p)))] s) (\<lambda>_ s.
                       bnd (printf (str ''            sepc=0x%lx stval=0x%lx'' @ [10]) [Val (sepc s), Val (stval s)] s) (\<lambda>_ s.
                       bnd (setkilled p s) (\<lambda>_ s. Done 0 s)))))) (\<lambda>which_dev s.
          bnd (is_killed p s) (\<lambda>k s.
          bnd (if k \<noteq> 0 then kexit (- 1) s else Done () s) (\<lambda>_ s.
            if which_dev = 2 then bnd (yield s) (\<lambda>_ s. Sleep s)
            else usertrap_return s)))))"

text \<open>\<^verbatim>\<open>kerneltrap\<close>, and the restoring of the trap registers after a \<^verbatim>\<open>yield\<close>.\<close>

definition kerneltrap :: "('a ktrap_scheme \<Rightarrow> (unit, 'a ktrap_scheme) outcome) \<Rightarrow> 'a ktrap_scheme \<Rightarrow> (unit, 'a ktrap_scheme) outcome" where
  "kerneltrap disk_intr s =
     (let sepc0 = sepc s; sstatus0 = sstatus s; scause0 = scause s in
      if sstatus0 AND SSTATUS_SPP = 0 then Panic ''kerneltrap: not from supervisor mode''
      else if intr_enabled s then Panic ''kerneltrap: interrupts enabled''
      else bnd (devintr disk_intr s) (\<lambda>which_dev s.
        if which_dev = 0 then
          bnd (printf (str ''scause=0x%lx sepc=0x%lx stval=0x%lx'' @ [10]) [Val scause0, Val (sepc s), Val (stval s)] s) (\<lambda>_ s.
            Panic ''kerneltrap'')
        else if which_dev = 2 \<and> cur s \<noteq> None then bnd (yield s) (\<lambda>_ s. Sleep s)
        else Done () (s\<lparr>sepc := sepc0, sstatus := sstatus0\<rparr>)))"

definition kerneltrap_resume :: "u64 \<Rightarrow> u64 \<Rightarrow> 'a ktrap_scheme \<Rightarrow> (unit, 'a ktrap_scheme) outcome" where
  "kerneltrap_resume sepc0 sstatus0 s =
     with_myproc s (\<lambda>p. bnd (release (L_proc p) s) (\<lambda>_ s. Done () (s\<lparr>sepc := sepc0, sstatus := sstatus0\<rparr>)))"

end
