(* ===== verification/Signals.thy ===== *)
theory Signals
  imports Trap
begin

text \<open>
  Properties of signals: what delivery does to the process, and what a handler that returns with
  \<^verbatim>\<open>sigreturn\<close> comes back to.
\<close>

section \<open>Pending signals\<close>

lemma pending_bit: "pending q sig \<longleftrightarrow> bit (pending_signals q) sig"
  by (simp add: pending_def bit_iff_and_push_bit_not_eq_0)

lemma pending_less: "pending q sig \<Longrightarrow> sig < 32"
  using bit_imp_le_length [of "pending_signals q" sig] by (simp add: pending_bit)

lemma pending_clear:
  assumes "sig < 32" and "pending_signals q' = pending_signals q AND NOT (push_bit sig 1)"
  shows "pending q' j \<longleftrightarrow> pending q j \<and> j \<noteq> sig"
  using assms pending_less [of q j] by (auto simp: pending_bit bit_simps)

text \<open>The state after delivery, seen from the process: \<open>h\<close> is the signal whose handler runs, \<open>fatal\<close> the ones without.\<close>

definition handled :: "proc \<Rightarrow> nat list \<Rightarrow> nat option" where
  "handled q sigs = find (\<lambda>sig. pending q sig \<and> signal_handlers q sig \<noteq> 0) sigs"

definition fatal :: "proc \<Rightarrow> nat list \<Rightarrow> nat list" where
  "fatal q sigs = filter (pending q) (takeWhile (\<lambda>sig. \<not> (pending q sig \<and> signal_handlers q sig \<noteq> 0)) sigs)"

definition delivered :: "nat \<Rightarrow> nat list \<Rightarrow> 'a kstate_scheme \<Rightarrow> 'a kstate_scheme \<Rightarrow> bool" where
  "delivered p sigs s s' \<longleftrightarrow>
     (let q = procs s p; q' = procs s' p; h = handled q sigs; ks = fatal q sigs in
      cur s' = cur s \<and> killed q' = (if ks = [] then killed q else 1)
      \<and> (\<forall>j. pending q' j \<longleftrightarrow> pending q j \<and> j \<notin> set ks \<and> h \<noteq> Some j)
      \<and> signal_handlers q' = signal_handlers q \<and> trapframe q' = trapframe q
      \<and> (case h of
           None \<Rightarrow> tframes s' = tframes s \<and> in_signal_handler q' = in_signal_handler q
         | Some sig \<Rightarrow> in_signal_handler q' = 1 \<and> signal_trapframe q' = tframes s (trapframe q)
             \<and> tframes s' (trapframe q) = (tframes s (trapframe q))(A0 := of_nat sig, Epc := signal_handlers q sig)))"

lemma handled_cong:
  assumes "\<forall>j\<in>set sigs. pending q' j = pending q j" and "signal_handlers q' = signal_handlers q"
  shows "handled q' sigs = handled q sigs" "fatal q' sigs = fatal q sigs"
proof -
  show "handled q' sigs = handled q sigs"
    unfolding handled_def using assms by (intro find_cong) simp_all
  have "takeWhile (\<lambda>sig. \<not> (pending q' sig \<and> signal_handlers q' sig \<noteq> 0)) sigs
      = takeWhile (\<lambda>sig. \<not> (pending q sig \<and> signal_handlers q sig \<noteq> 0)) sigs"
    using assms by (intro takeWhile_cong) simp_all
  then show "fatal q' sigs = fatal q sigs"
    unfolding fatal_def using assms(1) by (auto intro!: filter_cong dest: set_takeWhileD)
qed

lemma deliver_loop_delivered:
  assumes "distinct sigs" and "\<forall>sig\<in>set sigs. sig < 32"
  shows "delivered p sigs s (deliver_loop p sigs s)"
  using assms
proof (induction sigs arbitrary: s)
  case Nil
  then show ?case by (simp add: delivered_def handled_def fatal_def)
next
  case (Cons sig sigs)
  consider (skip) "\<not> pending (procs s p) sig" | (run) "pending (procs s p) sig" "signal_handlers (procs s p) sig \<noteq> 0"
    | (die) "pending (procs s p) sig" "signal_handlers (procs s p) sig = 0" by blast
  then show ?case
  proof cases
    case skip
    then have "handled (procs s p) (sig # sigs) = handled (procs s p) sigs" "fatal (procs s p) (sig # sigs) = fatal (procs s p) sigs"
      by (simp_all add: handled_def fatal_def)
    moreover have "deliver_loop p (sig # sigs) s = deliver_loop p sigs s" using skip by simp
    ultimately have "delivered p (sig # sigs) s (deliver_loop p (sig # sigs) s) = delivered p sigs s (deliver_loop p sigs s)"
      unfolding delivered_def Let_def by (simp only:)
    then show ?thesis using Cons.IH [of s] Cons.prems by (simp del: deliver_loop.simps)
  next
    case run
    let ?r = "deliver_loop p (sig # sigs) s"
    have r: "procs ?r p = (procs s p)\<lparr>pending_signals := pending_signals (procs s p) AND NOT (push_bit sig 1),
        signal_trapframe := tframes s (trapframe (procs s p)), in_signal_handler := 1\<rparr>"
      "tframes ?r (trapframe (procs s p)) = (tframes s (trapframe (procs s p)))(A0 := of_nat sig, Epc := signal_handlers (procs s p) sig)"
      using run by (simp_all add: tf_set_def Let_def)
    have "pending (procs ?r p) j = (pending (procs s p) j \<and> j \<noteq> sig)" for j
      using Cons.prems(2) by (intro pending_clear) (simp, subst r(1), simp)
    then show ?thesis using run r by (auto simp: delivered_def handled_def fatal_def Let_def)
  next
    case die
    let ?t = "upd_proc p (\<lambda>q. q\<lparr>pending_signals := pending_signals q AND NOT (push_bit sig 1), killed := 1\<rparr>) s"
    have ih: "delivered p sigs ?t (deliver_loop p sigs ?t)" using Cons by simp
    have pe: "pending (procs ?t p) j = (pending (procs s p) j \<and> j \<noteq> sig)" for j
      using Cons.prems(2) by (intro pending_clear) simp_all
    then have "handled (procs ?t p) sigs = handled (procs s p) sigs" "fatal (procs ?t p) sigs = fatal (procs s p) sigs"
      using Cons.prems(1) by (intro handled_cong; auto)+
    moreover have "deliver_loop p (sig # sigs) s = deliver_loop p sigs ?t" using die by (simp add: upd_proc_def)
    moreover have "handled (procs s p) (sig # sigs) = handled (procs s p) sigs" "fatal (procs s p) (sig # sigs) = sig # fatal (procs s p) sigs"
      using die by (simp_all add: handled_def fatal_def)
    moreover have "handled (procs s p) sigs \<noteq> Some sig" using die(2) by (auto simp: handled_def find_Some_iff)
    ultimately show ?thesis using ih pe unfolding delivered_def Let_def by (auto split: option.splits)
  qed
qed

text \<open>
  C19 (functional): signal delivery, for a process that is not in a handler. The pending signals are
  taken in order of their numbers up to the first that has a handler; each one before it is
  cleared and sets the killed flag, that one is cleared, the user registers are saved, and the
  process will enter the handler with the signal number as argument. Later signals stay pending, and nothing else of the registers
  changes.
\<close>

theorem deliver_signals_exact:
  assumes "cur s = Some p" and "in_signal_handler (procs s p) = 0"
  shows "\<exists>s'. deliver_signals s = Done () s' \<and> delivered p [0..<32] s s'"
  using assms deliver_loop_delivered [of "[0..<32]" p s] by (simp add: deliver_signals_def)

definition signalled :: kstate where
  "signalled = two_procs\<lparr>procs := (procs two_procs)(0 := (procs two_procs 0)\<lparr>pending_signals := 6,
     signal_handlers := (\<lambda>sig. if sig = 2 then 0x1000 else 0)\<rparr>)\<rparr>"

theorem deliver_signals_exact_witness:
  "\<exists>s'. deliver_signals signalled = Done () s' \<and> delivered 0 [0..<32] signalled s'"
  by (rule deliver_signals_exact) (simp_all add: signalled_def two_procs_def blank_proc_def)

section \<open>Returning from a handler\<close>

text \<open>
  C18 (roundtrip): a handler that returns through the \<^verbatim>\<open>sigreturn\<close> system call comes back to the interrupted code with
  every register as it was, whatever the handler did with them, except a0: the
  dispatcher overwrites it with the 0 that the call returns. The process can take signals again.
\<close>

theorem signal_return_registers:
  fixes s :: "'a ktrap_scheme"
  assumes "cur s = Some p" and "in_signal_handler (procs s p) = 0" and "handled (procs s p) [0..<32] = Some sig"
  shows "\<exists>s1. deliver_signals s = Done () s1 \<and> cur s1 = Some p \<and> tf_get p Epc s1 = signal_handlers (procs s p) sig \<and> tf_get p A0 s1 = of_nat sig
    \<and> (\<forall>(s2 :: 'a ktrap_scheme) junk. cur s2 = Some p \<and> procs s2 p = procs s1 p \<and> ucast (tf_get p A7 s2) = (24 :: i32) \<longrightarrow>
        (\<exists>s3. syscall junk s2 = Done () s3 \<and> in_signal_handler (procs s3 p) = 0
          \<and> (\<forall>r. tf_get p r s3 = (if r = A0 then 0 else tf_get p r s))))"
proof -
  obtain s1 where s1: "deliver_signals s = Done () s1" "delivered p [0..<32] s s1"
    using deliver_loop_delivered [of "[0..<32]" p s] assms(1,2) by (simp add: deliver_signals_def)
  then have q: "cur s1 = Some p" "signal_trapframe (procs s1 p) = tframes s (trapframe (procs s p))" "trapframe (procs s1 p) = trapframe (procs s p)"
    "tframes s1 (trapframe (procs s p)) = (tframes s (trapframe (procs s p)))(A0 := of_nat sig, Epc := signal_handlers (procs s p) sig)"
    using assms(1,3) by (simp_all add: delivered_def Let_def)
  have "\<exists>s3. syscall junk s2 = Done () s3 \<and> in_signal_handler (procs s3 p) = 0 \<and> (\<forall>r. tf_get p r s3 = (if r = A0 then 0 else tf_get p r s))"
    if "cur s2 = Some p" "procs s2 p = procs s1 p" "ucast (tf_get p A7 s2) = (24 :: i32)" for s2 :: "'a ktrap_scheme" and junk
    using that q by (simp add: syscall_def syscalls_def sys_sigreturn_def Let_def tf_get_def tf_set_def)
  moreover have "tf_get p Epc s1 = signal_handlers (procs s p) sig" "tf_get p A0 s1 = of_nat sig"
    using q by (simp_all add: tf_get_def)
  ultimately show ?thesis using s1(1) q(1) by blast
qed

theorem signal_return_registers_witness:
  "\<exists>s1. deliver_signals (whole_kernel signalled) = Done () s1 \<and> tf_get 0 A0 s1 = 2
    \<and> (\<exists>s3. syscall [] (tf_set 0 A7 24 s1) = Done () s3 \<and> in_signal_handler (procs s3 0) = 0
      \<and> tf_get 0 A0 s3 = 0 \<and> tf_get 0 Epc s3 = tf_get 0 Epc (whole_kernel signalled))"
proof -
  have k: "cur (whole_kernel signalled) = Some 0" "procs (whole_kernel signalled) = procs signalled"
    by (simp_all add: whole_kernel_def signalled_def two_procs_def)
  have h: "handled (procs signalled 0) [0..<32] = Some 2"
    by (simp add: handled_def signalled_def two_procs_def blank_proc_def pending_def upt_rec)
  obtain s1 where s1: "deliver_signals (whole_kernel signalled) = Done () s1" "tf_get 0 A0 s1 = 2" "cur s1 = Some 0"
    and ret: "\<forall>(s2 :: ktrap) junk. cur s2 = Some 0 \<and> procs s2 0 = procs s1 0 \<and> ucast (tf_get 0 A7 s2) = (24 :: i32) \<longrightarrow>
        (\<exists>s3. syscall junk s2 = Done () s3 \<and> in_signal_handler (procs s3 0) = 0
          \<and> (\<forall>r. tf_get 0 r s3 = (if r = A0 then 0 else tf_get 0 r (whole_kernel signalled))))"
    using signal_return_registers [of "whole_kernel signalled" 0 2] k h by (auto simp: signalled_def two_procs_def blank_proc_def)
  from s1(3) have "cur (tf_set 0 A7 24 s1) = Some 0 \<and> procs (tf_set 0 A7 24 s1) 0 = procs s1 0 \<and> ucast (tf_get 0 A7 (tf_set 0 A7 24 s1)) = (24 :: i32)"
    by simp
  with ret have "\<exists>s3. syscall [] (tf_set 0 A7 24 s1) = Done () s3 \<and> in_signal_handler (procs s3 0) = 0
      \<and> tf_get 0 A0 s3 = 0 \<and> tf_get 0 Epc s3 = tf_get 0 Epc (whole_kernel signalled)" by fastforce
  with s1(1,2) show ?thesis by blast
qed

end
