(* ===== verification/Sleeplock_Facts.thy ===== *)
theory Sleeplock_Facts
  imports Sleeplock
begin

text \<open>
  Sleep locks exclude. The operations are characterised in one equation each; the system of all processes that use one lock
  is a step relation over them.
\<close>

section \<open>What the operations do\<close>

lemma set_slock_fields [simp]:
  "slocks (set_slock k l i s) = (slocks s)(k := \<lparr>locked = l, lkpid = i\<rparr>)"
  "held (set_slock k l i s) = held s" "cur (set_slock k l i s) = cur s" "procs (set_slock k l i s) = procs s"
  "kslock.more (set_slock k l i s) = kslock.more s"
  by (simp_all add: set_slock_def)

lemma sl_lk_proc [simp]: "sl_lk k \<noteq> L_proc p" "L_proc p \<noteq> sl_lk k"
  by (cases k; simp)+

lemma set_slock_held [simp]: "set_slock k l i (s\<lparr>held := h\<rparr>) = set_slock k l i s\<lparr>held := h\<rparr>"
  by (simp add: set_slock_def)

lemma acquiresleep_free:
  assumes "cur s = Some p" and "sl_lk k \<notin> set (held s)" and "locked (slocks s k) = 0"
  shows "acquiresleep k s = Done () (set_slock k 1 (pid (procs s p)) s)"
  using assms by (simp add: acquiresleep_def acquiresleep_loop_def release_def holding_def set_slock_def)

lemma acquiresleep_busy:
  assumes "cur s = Some p" and "held s = []" and "locked (slocks s k) \<noteq> 0"
  shows "acquiresleep k s = Sleep (upd_proc p (\<lambda>q. q\<lparr>chan := sl_chan k, state := SLEEPING\<rparr>) s\<lparr>held := [L_proc p]\<rparr>)"
  using assms sleep_eq [of "s\<lparr>held := [sl_lk k]\<rparr>" p "sl_lk k" "sl_chan k"]
  by (simp add: acquiresleep_def acquiresleep_loop_def upd_proc_def)

lemma acquiresleep_resume_eq:
  assumes "cur s = Some p" and "held s = [L_proc p]"
  shows "acquiresleep_resume k s = acquiresleep k (upd_proc p (\<lambda>q. q\<lparr>chan := NoChan\<rparr>) s\<lparr>held := []\<rparr>)"
  using assms by (simp add: acquiresleep_resume_def acquiresleep_def sleep_resume_def Let_def)

lemma releasesleep_eq:
  assumes "no_proc_locks s" and "sl_lk k \<notin> set (held s)"
  shows "releasesleep k s = Done () (set_slock k 0 0 (s\<lparr>procs := woken (sl_chan k) {0..<NPROC} (cur s) (procs s)\<rparr>))"
  using assms wakeup_eq [of "set_slock k 0 0 (s\<lparr>held := sl_lk k # held s\<rparr>)" "sl_chan k"]
  by (simp add: releasesleep_def no_proc_locks_def set_slock_def)

lemma holdingsleep_eq:
  assumes "cur s = Some p" and "sl_lk k \<notin> set (held s)"
  shows "holdingsleep k s = Done (locked (slocks s k) \<noteq> 0 \<and> lkpid (slocks s k) = pid (procs s p)) s"
  using assms by (simp add: holdingsleep_def Let_def)

section \<open>Exclusion\<close>

text \<open>
  The processes that use lock \<open>k\<close>: outside, asleep in \<^verbatim>\<open>acquiresleep\<close>, or holding the lock. A process runs an operation
  with no spin lock held, and comes back from sleep with its own lock held. The last rule is anything the
  rest of the kernel does: it does not touch the lock, it may wake a sleeper, and it leaves its channel alone.
\<close>

datatype phase = Out | Asleep | In

inductive sl_step :: "slid \<Rightarrow> kslock \<times> (nat \<Rightarrow> phase) \<Rightarrow> kslock \<times> (nat \<Rightarrow> phase) \<Rightarrow> bool" for k where
  take: "ph p = Out \<Longrightarrow> p < NPROC \<Longrightarrow> acquiresleep k (s\<lparr>cur := Some p, held := []\<rparr>) = Done () s' \<Longrightarrow>
    sl_step k (s, ph) (s', ph(p := In))"
| block: "ph p = Out \<Longrightarrow> p < NPROC \<Longrightarrow> acquiresleep k (s\<lparr>cur := Some p, held := []\<rparr>) = Sleep s' \<Longrightarrow>
    sl_step k (s, ph) (s', ph(p := Asleep))"
| retake: "ph p = Asleep \<Longrightarrow> state (procs s p) = RUNNABLE \<Longrightarrow>
    acquiresleep_resume k (upd_proc p (\<lambda>q. q\<lparr>state := RUNNING\<rparr>) (s\<lparr>cur := Some p, held := [L_proc p]\<rparr>)) = Done () s' \<Longrightarrow>
    sl_step k (s, ph) (s', ph(p := In))"
| reblock: "ph p = Asleep \<Longrightarrow> state (procs s p) = RUNNABLE \<Longrightarrow>
    acquiresleep_resume k (upd_proc p (\<lambda>q. q\<lparr>state := RUNNING\<rparr>) (s\<lparr>cur := Some p, held := [L_proc p]\<rparr>)) = Sleep s' \<Longrightarrow>
    sl_step k (s, ph) (s', ph)"
| leave: "ph p = In \<Longrightarrow> releasesleep k (s\<lparr>cur := Some p, held := []\<rparr>) = Done () s' \<Longrightarrow> sl_step k (s, ph) (s', ph(p := Out))"
| other: "slocks s' k = slocks s k \<Longrightarrow>
    (\<And>p. ph p = Asleep \<Longrightarrow> chan (procs s' p) = chan (procs s p) \<and> (state (procs s' p) = state (procs s p) \<or> state (procs s' p) = RUNNABLE)) \<Longrightarrow>
    sl_step k (s, ph) (s', ph)"

definition sl_inv :: "slid \<Rightarrow> kslock \<times> (nat \<Rightarrow> phase) \<Rightarrow> bool" where
  "sl_inv k = (\<lambda>(s, ph).
     (\<forall>p q. ph p = In \<longrightarrow> ph q = In \<longrightarrow> p = q)
     \<and> (locked (slocks s k) \<noteq> 0 \<longleftrightarrow> (\<exists>p. ph p = In))
     \<and> (\<forall>p. ph p = Asleep \<longrightarrow> p < NPROC \<and> (state (procs s p) = RUNNABLE
          \<or> state (procs s p) = SLEEPING \<and> chan (procs s p) = sl_chan k \<and> locked (slocks s k) \<noteq> 0)))"

text \<open>A process that is not inside tries to take the lock in a state \<open>t\<close> that differs from \<open>s\<close> only in its own slot.\<close>

lemma sl_inv_try:
  assumes inv: "sl_inv k (s, ph)" and p: "ph p \<noteq> In" "p < NPROC" "cur t = Some p" "held t = []"
    and same: "slocks t k = slocks s k" "\<forall>q. q \<noteq> p \<longrightarrow> procs t q = procs s q"
  shows "acquiresleep k t = Done () s' \<Longrightarrow> sl_inv k (s', ph(p := In))"
    and "acquiresleep k t = Sleep s' \<Longrightarrow> sl_inv k (s', ph(p := Asleep))"
proof -
  assume "acquiresleep k t = Done () s'"
  then have "s' = set_slock k 1 (pid (procs t p)) t \<and> locked (slocks s k) = 0"
    using acquiresleep_free [of t p k] acquiresleep_busy [of t p k] p same(1) by (cases "locked (slocks s k) = 0") auto
  then show "sl_inv k (s', ph(p := In))" using inv p same by (auto simp: sl_inv_def)
next
  assume "acquiresleep k t = Sleep s'"
  then have s': "s' = upd_proc p (\<lambda>q. q\<lparr>chan := sl_chan k, state := SLEEPING\<rparr>) t\<lparr>held := [L_proc p]\<rparr>" and l: "locked (slocks s k) \<noteq> 0"
    using acquiresleep_free [of t p k] acquiresleep_busy [of t p k] p same(1) by (cases "locked (slocks s k) = 0"; auto)+
  have "(\<exists>q. (ph(p := Asleep)) q = In)" using inv l p(1) by (auto simp: sl_inv_def)
  moreover have "slocks s' k = slocks s k" by (simp add: s' upd_proc_def same(1))
  moreover have "procs s' q = (if q = p then (procs t p)\<lparr>chan := sl_chan k, state := SLEEPING\<rparr> else procs s q)" for q
    by (simp add: s' same(2))
  ultimately show "sl_inv k (s', ph(p := Asleep))" using inv l p(2) by (auto simp: sl_inv_def)
qed

lemma sl_inv_retry:
  assumes inv: "sl_inv k (s, ph)" and p: "ph p = Asleep"
  defines "t \<equiv> upd_proc p (\<lambda>q. q\<lparr>state := RUNNING\<rparr>) (s\<lparr>cur := Some p, held := [L_proc p]\<rparr>)"
  shows "acquiresleep_resume k t = Done () s' \<Longrightarrow> sl_inv k (s', ph(p := In))"
    and "acquiresleep_resume k t = Sleep s' \<Longrightarrow> sl_inv k (s', ph)"
proof -
  let ?u = "upd_proc p (\<lambda>q. q\<lparr>chan := NoChan\<rparr>) t\<lparr>held := []\<rparr>"
  have e: "acquiresleep_resume k t = acquiresleep k ?u"
    by (rule acquiresleep_resume_eq) (simp_all add: t_def)
  have u: "cur ?u = Some p" "held ?u = []" "slocks ?u k = slocks s k" "\<forall>q. q \<noteq> p \<longrightarrow> procs ?u q = procs s q"
    by (simp_all add: t_def upd_proc_def)
  have n: "p < NPROC" "ph p \<noteq> In" using inv p by (simp_all add: sl_inv_def)
  have same: "ph(p := Asleep) = ph" using p by auto
  show "acquiresleep_resume k t = Done () s' \<Longrightarrow> sl_inv k (s', ph(p := In))"
    by (rule sl_inv_try(1) [OF inv n(2) n(1) u]) (simp_all only: e)
  show "acquiresleep_resume k t = Sleep s' \<Longrightarrow> sl_inv k (s', ph)"
    by (rule sl_inv_try(2) [OF inv n(2) n(1) u, unfolded same]) (simp_all only: e)
qed

lemma sl_inv_step:
  assumes "sl_step k x y" and "sl_inv k x"
  shows "sl_inv k y"
  using assms
proof (cases rule: sl_step.cases)
  case (take ph p s s')
  then show ?thesis using assms(2) sl_inv_try(1) [of k s ph p "s\<lparr>cur := Some p, held := []\<rparr>" s'] by simp
next
  case (block ph p s s')
  then show ?thesis using assms(2) sl_inv_try(2) [of k s ph p "s\<lparr>cur := Some p, held := []\<rparr>" s'] by simp
next
  case (retake ph p s s')
  then show ?thesis using sl_inv_retry(1) [of k s ph p s'] assms(2) by simp
next
  case (reblock ph p s s')
  then show ?thesis using sl_inv_retry(2) [of k s ph p s'] assms(2) by simp
next
  case (leave ph p s s')
  then have "s' = set_slock k 0 0 (s\<lparr>cur := Some p, held := [], procs := woken (sl_chan k) {0..<NPROC} (Some p) (procs s)\<rparr>)"
    using releasesleep_eq [of "s\<lparr>cur := Some p, held := []\<rparr>" k] by (simp add: no_proc_locks_def)
  with leave assms(2) show ?thesis by (auto simp: sl_inv_def woken_def)
next
  case (other s' s ph)
  have "state (procs s' p) = RUNNABLE \<or> state (procs s' p) = SLEEPING \<and> chan (procs s' p) = sl_chan k \<and> locked (slocks s k) \<noteq> 0"
    if "ph p = Asleep" for p
    using other(1) other(4) [OF that] that assms(2) by (auto simp: sl_inv_def)
  then show ?thesis using other(1-3) assms(2) by (simp add: sl_inv_def)
qed



end
