(* ===== verification/Dll.thy ===== *)
theory Dll
  imports Main
begin

text \<open>
  Circular doubly linked lists, given by a successor and a predecessor function: the shape of the list of
  buffers. Moving an element to the front is unlinking it and linking it behind the
  head, as \<^verbatim>\<open>brelse\<close> does it in place.
\<close>

section \<open>Paths\<close>

fun path :: "('a \<Rightarrow> 'a) \<Rightarrow> 'a \<Rightarrow> 'a list \<Rightarrow> 'a \<Rightarrow> bool" where
  "path f a [] z \<longleftrightarrow> f a = z"
| "path f a (x # xs) z \<longleftrightarrow> f a = x \<and> path f x xs z"

lemma path_append: "path f a (xs @ y # ys) z \<longleftrightarrow> path f a xs y \<and> path f y ys z"
  by (induction xs arbitrary: a) auto

lemma path_cong: "(\<forall>i\<in>set (a # xs). f i = g i) \<Longrightarrow> path f a xs z = path g a xs z"
  by (induction xs arbitrary: a) auto

lemma path_upd_other [simp]: "i \<noteq> a \<Longrightarrow> i \<notin> set xs \<Longrightarrow> path (f(i := v)) a xs z = path f a xs z"
  by (rule path_cong) auto

lemma path_first: "path f a xs z \<Longrightarrow> f a = hd (xs @ [z])"
  by (cases xs) auto

lemma path_last: "path f a xs z \<Longrightarrow> f (last (a # xs)) = z"
  by (induction xs arbitrary: a) auto

text \<open>The end of a path is redirected.\<close>

lemma path_redirect: "distinct (a # xs) \<Longrightarrow> path f a xs z \<Longrightarrow> path (f(last (a # xs) := y)) a xs y"
proof (induction xs arbitrary: a)
  case (Cons x xs)
  then have "last (x # xs) \<noteq> a" using last_in_set [of "x # xs"] by auto
  with Cons show ?case by simp
qed simp

lemma path_unlink:
  assumes "path f a (xs @ b # ys) z" and "distinct (a # xs @ b # ys)"
  shows "path (f(last (a # xs) := f b)) a (xs @ ys) z"
proof -
  have p: "path f a xs b" "path f b ys z" using assms(1) by (simp_all add: path_append)
  then have r: "path (f(last (a # xs) := f b)) a xs (f b)" using assms(2) by (intro path_redirect) simp_all
  show ?thesis
  proof (cases ys)
    case Nil
    then show ?thesis using r p by simp
  next
    case (Cons y ys')
    have "last (a # xs) \<in> set (a # xs)" by (rule last_in_set) simp
    then have "last (a # xs) \<noteq> y" "last (a # xs) \<notin> set ys'" using assms(2) Cons by auto
    then show ?thesis using r p Cons by (simp add: path_append)
  qed
qed

section \<open>Circular lists\<close>

definition dll :: "'a \<Rightarrow> ('a \<Rightarrow> 'a) \<Rightarrow> ('a \<Rightarrow> 'a) \<Rightarrow> 'a list \<Rightarrow> bool" where
  "dll h nx pv xs \<longleftrightarrow> distinct (h # xs) \<and> path nx h xs h \<and> path pv h (rev xs) h"

lemma last_rev_hd: "last (h # rev xs) = hd (xs @ [h])"
  by (cases xs) auto

lemma dll_ends: "dll h nx pv xs \<Longrightarrow> nx h = hd (xs @ [h]) \<and> pv h = last (h # xs)"
  using path_first [of nx h xs h] path_first [of pv h "rev xs" h] by (cases xs rule: rev_cases) (auto simp: dll_def)

lemma dll_around:
  assumes "dll h nx pv (xs @ b # ys)"
  shows "nx b = hd (ys @ [h])" "pv b = last (h # xs)"
proof -
  have "path nx b ys h" "path pv b (rev xs) h" using assms by (simp_all add: dll_def path_append)
  then show "nx b = hd (ys @ [h])" "pv b = last (h # xs)"
    using path_first [of nx b ys h] path_first [of pv b "rev xs" h] by (auto simp: hd_append hd_rev split: if_splits)
qed

lemma dll_apart:
  assumes "dll h nx pv (xs @ b # ys)"
  shows "b \<noteq> h" "nx b \<noteq> b" "pv b \<noteq> b"
proof -
  have d: "b \<noteq> h" "b \<notin> set ys" "b \<notin> set xs" using assms by (auto simp: dll_def)
  show "b \<noteq> h" by (rule d)
  show "nx b \<noteq> b" using dll_around(1) [OF assms] d by (cases ys) auto
  have "last (h # xs) \<in> set (h # xs)" by (rule last_in_set) simp
  then show "pv b \<noteq> b" using dll_around(2) [OF assms] d by auto
qed

lemma dll_unlink:
  assumes "dll h nx pv (xs @ b # ys)"
  shows "dll h (nx(pv b := nx b)) (pv(nx b := pv b)) (xs @ ys)"
proof -
  note a = dll_around [OF assms]
  have "path (nx(pv b := nx b)) h (xs @ ys) h"
    using path_unlink [of nx h xs b ys h] assms a by (simp add: dll_def)
  moreover have "path pv h (rev ys @ b # rev xs) h" "distinct (h # rev ys @ b # rev xs)" using assms by (auto simp: dll_def)
  then have "path (pv(nx b := pv b)) h (rev ys @ rev xs) h"
    using path_unlink [of pv h "rev ys" b "rev xs" h] a last_rev_hd [of h ys] by simp
  ultimately show ?thesis using assms by (simp add: dll_def)
qed

lemma dll_link:
  assumes "dll h nx pv xs" and "b \<notin> set (h # xs)"
  shows "dll h (nx(b := nx h, h := b)) (pv(b := h, nx h := b)) (b # xs)"
proof -
  have e: "nx h = hd (xs @ [h])" using dll_ends [OF assms(1)] by simp
  have "path (nx(b := nx h, h := b)) h (b # xs) h"
    using assms by (cases xs) (auto simp: dll_def)
  moreover have "path (pv(b := h, nx h := b)) h (rev xs @ [b]) h"
  proof -
    have b: "nx h \<noteq> b" using e assms(2) by (cases xs) auto
    have "path (pv(nx h := b)) h (rev xs) b"
      using path_redirect [of h "rev xs" pv h b] assms(1) e last_rev_hd [of h xs] by (simp add: dll_def)
    then have "path (pv(nx h := b, b := h)) h (rev xs) b" using assms(2) by simp
    then show ?thesis using b by (simp add: path_append fun_upd_twist)
  qed
  ultimately show ?thesis using assms by (auto simp: dll_def)
qed

lemma dll_move_front:
  assumes "dll h nx pv (xs @ b # ys)"
  defines "nx1 \<equiv> nx(pv b := nx b)" and "pv1 \<equiv> pv(nx b := pv b)"
  shows "dll h (nx1(b := nx1 h, h := b)) (pv1(b := h, nx1 h := b)) (b # xs @ ys)"
  unfolding nx1_def pv1_def using assms(1) by (intro dll_link dll_unlink) (auto simp: dll_def)

end
