(* ===== verification/Bio_Facts.thy ===== *)
theory Bio_Facts
  imports Bio Sleeplock_Facts Dll
begin

text \<open>
  The buffer cache keeps its promises. The cache of a device \<open>d\<close> is seen by block numbers: the current content of each block, the
  number of references to its buffer and the process that has it locked. The operations are exact on
  this view; the list of buffers stays a circular doubly linked list in the order of use.
\<close>

section \<open>The list of buffers\<close>

definition lru :: "(nat \<Rightarrow> buf) \<Rightarrow> nat list \<Rightarrow> bool" where
  "lru bf xs \<longleftrightarrow> dll NBUF (\<lambda>i. bnext (bf i)) (\<lambda>i. bprev (bf i)) xs \<and> set xs = {..<NBUF}"

lemma bscan_path:
  "path (\<lambda>i. step (bf i)) a xs NBUF \<Longrightarrow> NBUF \<notin> set xs \<Longrightarrow> length xs < fuel \<Longrightarrow>
    bscan fuel P step (step (bf a)) bf = (case find (\<lambda>i. P (bf i)) xs of Some b \<Rightarrow> Inl b | None \<Rightarrow> Inr True)"
  by (induction fuel arbitrary: a xs) (auto simp: gr0_conv_Suc Suc_length_conv neq_Nil_conv split: option.splits elim: path.elims)

lemma lru_length: "lru bf xs \<Longrightarrow> length xs = NBUF"
  using distinct_card [of xs] by (simp add: lru_def dll_def)

lemma lru_scan:
  assumes "lru bf xs"
  shows "bscan (Suc NBUF) P bnext (bnext (bf NBUF)) bf = (case find (\<lambda>i. P (bf i)) xs of Some b \<Rightarrow> Inl b | None \<Rightarrow> Inr True)"
    and "bscan (Suc NBUF) P bprev (bprev (bf NBUF)) bf = (case find (\<lambda>i. P (bf i)) (rev xs) of Some b \<Rightarrow> Inl b | None \<Rightarrow> Inr True)"
  using assms lru_length [OF assms] bscan_path [of bnext bf NBUF xs "Suc NBUF" P] bscan_path [of bprev bf NBUF "rev xs" "Suc NBUF" P]
  by (simp_all add: lru_def dll_def del: bscan.simps)

lemma lru_cong:
  "(\<And>i. bnext (bf' i) = bnext (bf i)) \<Longrightarrow> (\<And>i. bprev (bf' i) = bprev (bf i)) \<Longrightarrow> lru bf' xs = lru bf xs"
  by (simp add: lru_def)

section \<open>The invariant\<close>

definition buf_ok :: "u32 \<Rightarrow> (u32 \<Rightarrow> block) \<Rightarrow> buf \<Rightarrow> sleeplock \<Rightarrow> bool" where
  "buf_ok d dk q l \<longleftrightarrow> (bdev q \<noteq> d \<longrightarrow> refcnt q = 0 \<and> \<not> valid q) \<and> (refcnt q \<noteq> 0 \<longrightarrow> valid q)
     \<and> (refcnt q = 0 \<and> valid q \<longrightarrow> bdata q = dk (blockno q)) \<and> (locked l \<noteq> 0 \<longrightarrow> refcnt q \<noteq> 0)"

definition keys_ok :: "u32 \<Rightarrow> (nat \<Rightarrow> buf) \<Rightarrow> bool" where
  "keys_ok d bf \<longleftrightarrow> (\<forall>i j. i < NBUF \<longrightarrow> j < NBUF \<longrightarrow> bdev (bf i) = d \<longrightarrow> bdev (bf j) = d \<longrightarrow> blockno (bf i) = blockno (bf j) \<longrightarrow> i = j)"

lemma keys_okD:
  "keys_ok d bf \<Longrightarrow> i < NBUF \<Longrightarrow> j < NBUF \<Longrightarrow> bdev (bf i) = d \<Longrightarrow> bdev (bf j) = d \<Longrightarrow> blockno (bf i) = blockno (bf j) \<Longrightarrow> i = j"
  unfolding keys_ok_def by blast

definition cache_ok :: "u32 \<Rightarrow> 'a kbio_scheme \<Rightarrow> bool" where
  "cache_ok d s \<longleftrightarrow> (\<exists>xs. lru (bufs s) xs) \<and> keys_ok d (bufs s)
     \<and> (\<forall>i<NBUF. buf_ok d (disk s) (bufs s i) (slocks s (SL_buf i)))"

section \<open>The view by block numbers\<close>

definition slot :: "u32 \<Rightarrow> 'a kbio_scheme \<Rightarrow> u32 \<Rightarrow> nat option" where
  "slot d s n = find (\<lambda>i. bdev (bufs s i) = d \<and> blockno (bufs s i) = n) [0..<NBUF]"

definition content :: "u32 \<Rightarrow> 'a kbio_scheme \<Rightarrow> u32 \<Rightarrow> block" where
  "content d s n = (case slot d s n of Some b \<Rightarrow> if valid (bufs s b) then bdata (bufs s b) else disk s n | None \<Rightarrow> disk s n)"

definition brefs :: "u32 \<Rightarrow> 'a kbio_scheme \<Rightarrow> u32 \<Rightarrow> nat" where
  "brefs d s n = (case slot d s n of Some b \<Rightarrow> unat (refcnt (bufs s b)) | None \<Rightarrow> 0)"

definition holder :: "u32 \<Rightarrow> 'a kbio_scheme \<Rightarrow> u32 \<Rightarrow> i32 option" where
  "holder d s n = (case slot d s n of
     Some b \<Rightarrow> if locked (slocks s (SL_buf b)) \<noteq> 0 then Some (lkpid (slocks s (SL_buf b))) else None
   | None \<Rightarrow> None)"

lemma find_SomeD: "find P xs = Some b \<Longrightarrow> b \<in> set xs \<and> P b"
  by (auto simp: find_Some_iff)

lemma find_unique:
  assumes "b \<in> set xs" and "P b" and "\<forall>i\<in>set xs. P i \<longrightarrow> i = b"
  shows "find P xs = Some b"
proof (cases "find P xs")
  case None
  then show ?thesis using assms(1,2) by (auto simp: find_None_iff)
next
  case (Some c)
  then show ?thesis using find_SomeD [OF Some] assms(3) by simp
qed

lemma slot_SomeD: "slot d s n = Some b \<Longrightarrow> b < NBUF \<and> bdev (bufs s b) = d \<and> blockno (bufs s b) = n"
  unfolding slot_def by (drule find_SomeD) simp

lemma slot_Some:
  assumes "keys_ok d (bufs s)"
  shows "slot d s n = Some b \<longleftrightarrow> b < NBUF \<and> bdev (bufs s b) = d \<and> blockno (bufs s b) = n"
proof
  assume "slot d s n = Some b"
  then show "b < NBUF \<and> bdev (bufs s b) = d \<and> blockno (bufs s b) = n"
    by (rule slot_SomeD)
next
  assume "b < NBUF \<and> bdev (bufs s b) = d \<and> blockno (bufs s b) = n"
  then show "slot d s n = Some b" unfolding slot_def by (intro find_unique ballI impI) (auto intro: keys_okD [OF assms])
qed

lemma slot_None: "slot d s n = None \<longleftrightarrow> (\<forall>i<NBUF. \<not> (bdev (bufs s i) = d \<and> blockno (bufs s i) = n))"
  by (auto simp: slot_def find_None_iff)

lemma slot_scan:
  assumes "cache_ok d s" and "lru (bufs s) xs"
  shows "find (\<lambda>i. bdev (bufs s i) = d \<and> blockno (bufs s i) = n) xs = slot d s n"
proof (cases "slot d s n")
  case None
  then have "find (\<lambda>i. bdev (bufs s i) = d \<and> blockno (bufs s i) = n) xs = None"
    using assms(2) by (auto simp: slot_None find_None_iff lru_def)
  with None show ?thesis by simp
next
  case (Some b)
  then have b: "b < NBUF" "bdev (bufs s b) = d" "blockno (bufs s b) = n"
    using assms(1) slot_Some [of d s n b] by (simp_all add: cache_ok_def)
  have u: "\<forall>i\<in>set xs. bdev (bufs s i) = d \<and> blockno (bufs s i) = n \<longrightarrow> i = b"
  proof (intro ballI impI)
    fix i assume "i \<in> set xs" "bdev (bufs s i) = d \<and> blockno (bufs s i) = n"
    then show "i = b" using assms b keys_okD [of d "bufs s" i b] by (simp add: lru_def cache_ok_def)
  qed
  have "find (\<lambda>i. bdev (bufs s i) = d \<and> blockno (bufs s i) = n) xs = Some b"
    using assms(2) b by (intro find_unique [OF _ _ u]) (simp_all add: lru_def)
  with Some show ?thesis by simp
qed

lemma slot_inj: "slot d s n = Some b \<Longrightarrow> slot d s m = Some b \<Longrightarrow> m = n"
  by (drule slot_SomeD)+ simp

text \<open>The view depends neither on the links nor on anything but buffers, their locks and the disk.\<close>

definition payload :: "buf \<Rightarrow> bool \<times> u32 \<times> u32 \<times> u32 \<times> block" where
  "payload q = (valid q, bdev q, blockno q, refcnt q, bdata q)"

lemma view_cong:
  assumes "\<And>i. payload (bufs s' i) = payload (bufs s i)" and "disk s' = disk s"
    and "\<And>i. slocks s' (SL_buf i) = slocks s (SL_buf i)"
  shows "slot d s' = slot d s" "content d s' = content d s" "brefs d s' = brefs d s" "holder d s' = holder d s"
    "(\<exists>xs. lru (bufs s') xs) \<Longrightarrow> cache_ok d s \<Longrightarrow> cache_ok d s'"
proof -
  have p: "valid (bufs s' i) = valid (bufs s i)" "bdev (bufs s' i) = bdev (bufs s i)" "blockno (bufs s' i) = blockno (bufs s i)"
    "refcnt (bufs s' i) = refcnt (bufs s i)" "bdata (bufs s' i) = bdata (bufs s i)" for i
    using assms(1) [of i] by (simp_all add: payload_def)
  show "slot d s' = slot d s" by (simp add: slot_def fun_eq_iff p)
  then show "content d s' = content d s" "brefs d s' = brefs d s" "holder d s' = holder d s"
    by (simp_all add: content_def brefs_def holder_def fun_eq_iff p assms(2,3) cong: option.case_cong if_cong)
  show "(\<exists>xs. lru (bufs s') xs) \<Longrightarrow> cache_ok d s \<Longrightarrow> cache_ok d s'"
    by (simp add: cache_ok_def keys_ok_def buf_ok_def p assms(2,3))
qed

text \<open>
  One buffer changes: it held block \<open>n\<close> already, or nothing has a buffer for \<open>n\<close> and the buffer was free. All
  operations of the cache are of this form, up to the links.
\<close>

definition buffer_change :: "u32 \<Rightarrow> 'a kbio_scheme \<Rightarrow> 'a kbio_scheme \<Rightarrow> nat \<Rightarrow> u32 \<Rightarrow> bool" where
  "buffer_change d s s' b n \<longleftrightarrow> cache_ok d s \<and> b < NBUF
     \<and> bdev (bufs s' b) = d \<and> blockno (bufs s' b) = n \<and> buf_ok d (disk s') (bufs s' b) (slocks s' (SL_buf b))
     \<and> (\<forall>i. i \<noteq> b \<longrightarrow> bufs s' i = bufs s i \<and> slocks s' (SL_buf i) = slocks s (SL_buf i)) \<and> (\<forall>m. m \<noteq> n \<longrightarrow> disk s' m = disk s m)
     \<and> bnext (bufs s' b) = bnext (bufs s b) \<and> bprev (bufs s' b) = bprev (bufs s b)
     \<and> (slot d s n = Some b \<or> slot d s n = None \<and> refcnt (bufs s b) = 0)"

lemma change_ok: "buffer_change d s s' b n \<Longrightarrow> cache_ok d s"
  and change_b: "buffer_change d s s' b n \<Longrightarrow> b < NBUF"
  and change_q: "buffer_change d s s' b n \<Longrightarrow> bdev (bufs s' b) = d \<and> blockno (bufs s' b) = n \<and> buf_ok d (disk s') (bufs s' b) (slocks s' (SL_buf b))"
  and change_others: "buffer_change d s s' b n \<Longrightarrow> i \<noteq> b \<Longrightarrow> bufs s' i = bufs s i \<and> slocks s' (SL_buf i) = slocks s (SL_buf i)"
  and change_disk: "buffer_change d s s' b n \<Longrightarrow> m \<noteq> n \<Longrightarrow> disk s' m = disk s m"
  and change_links: "buffer_change d s s' b n \<Longrightarrow> bnext (bufs s' b) = bnext (bufs s b) \<and> bprev (bufs s' b) = bprev (bufs s b)"
  and change_before: "buffer_change d s s' b n \<Longrightarrow> slot d s n = Some b \<or> slot d s n = None \<and> refcnt (bufs s b) = 0"
  unfolding buffer_change_def by blast+

lemma change_unlike: "buffer_change d s s' b n \<Longrightarrow> i < NBUF \<Longrightarrow> i \<noteq> b \<Longrightarrow> \<not> (bdev (bufs s i) = d \<and> blockno (bufs s i) = n)"
  using change_before [of d s s' b n] change_ok [of d s s' b n] slot_Some [of d s n i] slot_None [of d s n] by (auto simp: cache_ok_def)

lemma change_keys:
  assumes c: "buffer_change d s s' b n"
  shows "keys_ok d (bufs s')"
  unfolding keys_ok_def
proof (intro allI impI)
  fix i j assume a: "i < NBUF" "j < NBUF" "bdev (bufs s' i) = d" "bdev (bufs s' j) = d" "blockno (bufs s' i) = blockno (bufs s' j)"
  show "i = j"
  proof (cases "i = b \<or> j = b")
    case True
    then show ?thesis using a change_unlike [OF c, of i] change_unlike [OF c, of j] change_others [OF c, of i] change_others [OF c, of j] change_q [OF c] by metis
  next
    case False
    then show ?thesis using a change_ok [OF c] keys_okD [of d "bufs s" i j] change_others [OF c, of i] change_others [OF c, of j]
      by (simp add: cache_ok_def)
  qed
qed

lemma change_slot: "buffer_change d s s' b n \<Longrightarrow> slot d s' n = Some b"
  using slot_Some [OF change_keys] change_b change_q by blast

lemma change_slot_other:
  assumes c: "buffer_change d s s' b n" and "m \<noteq> n"
  shows "slot d s' m = (if slot d s m = Some b then None else slot d s m)"
proof (cases "slot d s' m")
  case None
  then show ?thesis using slot_None [of d s' m] slot_SomeD [of d s m] change_others [OF c] by (cases "slot d s m") fastforce+
next
  case (Some e)
  then have e: "e < NBUF" "bdev (bufs s' e) = d" "blockno (bufs s' e) = m" using slot_SomeD [OF Some] by auto
  then have "e \<noteq> b" using change_q [OF c] assms by auto
  then have "slot d s m = Some e" using e change_ok [OF c] change_others [OF c, of e] slot_Some [of d s m e] by (simp add: cache_ok_def)
  with \<open>e \<noteq> b\<close> Some show ?thesis by simp
qed

lemma change_slot_kept:
  assumes c: "buffer_change d s s' b n" and r: "brefs d s m \<noteq> 0"
  shows "slot d s' m = slot d s m"
proof (cases "m = n")
  case True
  then have "slot d s n = Some b" using r change_before [OF c] by (auto simp: brefs_def)
  then show ?thesis using change_slot [OF c] True by simp
next
  case False
  have "slot d s m \<noteq> Some b"
  proof
    assume s: "slot d s m = Some b"
    then have "slot d s n \<noteq> Some b" using False slot_inj by blast
    then have "refcnt (bufs s b) = 0" using change_before [OF c] by simp
    with r s show False by (simp add: brefs_def)
  qed
  then show ?thesis using change_slot_other [OF c False] by simp
qed

lemma change_evicted:
  assumes c: "buffer_change d s s' b n" and "m \<noteq> n" and "slot d s m = Some b"
  shows "content d s m = disk s m" "brefs d s m = 0" "holder d s m = None"
proof -
  have "slot d s n \<noteq> Some b" using assms(2,3) slot_inj by blast
  then have r: "refcnt (bufs s b) = 0" using change_before [OF c] by simp
  have o: "buf_ok d (disk s) (bufs s b) (slocks s (SL_buf b))" using change_ok [OF c] change_b [OF c] by (simp add: cache_ok_def)
  show "content d s m = disk s m" "brefs d s m = 0" "holder d s m = None"
    using r o assms(2,3) slot_SomeD [OF assms(3)] by (auto simp: content_def brefs_def holder_def buf_ok_def)
qed

lemma change_other_blocks:
  assumes c: "buffer_change d s s' b n" and "m \<noteq> n"
  shows "content d s' m = content d s m" "brefs d s' m = brefs d s m" "holder d s' m = holder d s m"
proof -
  have "content d s' m = content d s m \<and> brefs d s' m = brefs d s m \<and> holder d s' m = holder d s m"
  proof (cases "slot d s m = Some b")
    case True
    then show ?thesis using change_evicted [OF assms True] change_slot_other [OF assms] change_disk [OF assms]
      by (simp add: content_def brefs_def holder_def)
  next
    case False
    then show ?thesis using change_slot_other [OF assms] change_others [OF c] change_disk [OF assms]
      by (cases "slot d s m") (simp_all add: content_def brefs_def holder_def)
  qed
  then show "content d s' m = content d s m" "brefs d s' m = brefs d s m" "holder d s' m = holder d s m" by simp_all
qed

lemma change_cache_ok:
  assumes c: "buffer_change d s s' b n"
  shows "cache_ok d s'"
proof -
  obtain xs where "lru (bufs s) xs" using change_ok [OF c] by (auto simp: cache_ok_def)
  then have "lru (bufs s') xs" using lru_cong [of "bufs s'" "bufs s" xs] change_links [OF c] change_others [OF c] by metis
  moreover have "buf_ok d (disk s') (bufs s' i) (slocks s' (SL_buf i))" if "i < NBUF" for i
  proof (cases "i = b")
    case False
    then have "buf_ok d (disk s) (bufs s i) (slocks s (SL_buf i))" using change_ok [OF c] that by (simp add: cache_ok_def)
    then show ?thesis using False change_others [OF c False] change_disk [OF c] change_unlike [OF c that] by (auto simp: buf_ok_def)
  qed (use change_q [OF c] in simp)
  ultimately show ?thesis using change_keys [OF c] by (auto simp: cache_ok_def)
qed

lemma change_view:
  assumes c: "buffer_change d s s' b n"
  shows "content d s' = (content d s)(n := if valid (bufs s' b) then bdata (bufs s' b) else disk s' n)"
    and "brefs d s' = (brefs d s)(n := unat (refcnt (bufs s' b)))"
    and "holder d s' = (holder d s)(n := if locked (slocks s' (SL_buf b)) \<noteq> 0 then Some (lkpid (slocks s' (SL_buf b))) else None)"
  using change_other_blocks [OF c] change_slot [OF c]
  by (auto simp: fun_eq_iff content_def [of d s' n] brefs_def [of d s' n] holder_def [of d s' n])

section \<open>What else changes\<close>

text \<open>The operations may wake processes; of the rest of the kernel they change nothing.\<close>

definition wakes :: "(nat \<Rightarrow> proc) \<Rightarrow> (nat \<Rightarrow> proc) \<Rightarrow> bool" where
  "wakes ps ps' \<longleftrightarrow> (\<forall>i. ps' i = ps i \<or> state (ps i) = SLEEPING \<and> ps' i = (ps i)\<lparr>state := RUNNABLE\<rparr>)"

lemma wakes_refl [simp]: "wakes ps ps"
  by (simp add: wakes_def)

lemma wakes_trans:
  assumes "wakes ps ps1" and "wakes ps1 ps2"
  shows "wakes ps ps2"
  unfolding wakes_def
proof
  fix i
  show "ps2 i = ps i \<or> state (ps i) = SLEEPING \<and> ps2 i = (ps i)\<lparr>state := RUNNABLE\<rparr>"
    using assms [unfolded wakes_def, THEN spec [of _ i]] by auto
qed

lemma wakes_woken: "wakes ps (woken c A p ps)"
  by (auto simp: wakes_def woken_def)

lemma wakes_pid: "wakes ps ps' \<Longrightarrow> pid (ps' i) = pid (ps i)"
  unfolding wakes_def by (drule spec [of _ i]) auto

definition bframe :: "'a kbio_scheme \<Rightarrow> 'a kbio_scheme \<Rightarrow> bool" where
  "bframe s s' \<longleftrightarrow> wakes (procs s) (procs s') \<and> (\<forall>i. slocks s' (SL_inode i) = slocks s (SL_inode i))
     \<and> s' = s\<lparr>procs := procs s', slocks := slocks s', bufs := bufs s', disk := disk s', disk_log := disk_log s'\<rparr>"

lemma bframe_refl [simp]: "bframe s s"
  by (simp add: bframe_def)

lemma bframe_fields:
  assumes "bframe s s'"
  shows "cur s' = cur s" "held s' = held s" "kbio.more s' = kbio.more s" "pid (procs s' i) = pid (procs s i)"
    "panicked s' = panicked s" "panicking s' = panicking s" "memory s' = memory s" "kstate.syms s' = kstate.syms s"
proof -
  have e: "s' = s\<lparr>procs := procs s', slocks := slocks s', bufs := bufs s', disk := disk s', disk_log := disk_log s'\<rparr>"
    using assms by (simp add: bframe_def)
  show "cur s' = cur s" "held s' = held s" "kbio.more s' = kbio.more s" "panicked s' = panicked s" "panicking s' = panicking s"
    "memory s' = memory s" "kstate.syms s' = kstate.syms s"
    by (subst e, simp)+
  show "pid (procs s' i) = pid (procs s i)" using assms by (simp add: bframe_def wakes_pid)
qed

lemma bframe_trans:
  assumes "bframe s s1" and "bframe s1 s2"
  shows "bframe s s2"
proof -
  have "s2 = s1\<lparr>procs := procs s2, slocks := slocks s2, bufs := bufs s2, disk := disk s2, disk_log := disk_log s2\<rparr>"
    using assms(2) by (simp add: bframe_def)
  also have "s1 = s\<lparr>procs := procs s1, slocks := slocks s1, bufs := bufs s1, disk := disk s1, disk_log := disk_log s1\<rparr>"
    using assms(1) by (simp add: bframe_def)
  finally have "s2 = s\<lparr>procs := procs s2, slocks := slocks s2, bufs := bufs s2, disk := disk s2, disk_log := disk_log s2\<rparr>" by simp
  then show ?thesis using assms wakes_trans [of "procs s" "procs s1" "procs s2"] by (simp add: bframe_def)
qed

section \<open>Reading a block\<close>

lemma held_same [simp]: "held s = h \<Longrightarrow> s\<lparr>held := h\<rparr> = s"
  by auto

lemma bget_hit:
  assumes "cache_ok d s" and "held s = []" and "slot d s n = Some b"
  shows "bget d n s = bnd (acquiresleep (SL_buf b) (upd_buf b (\<lambda>q. q\<lparr>refcnt := refcnt q + 1\<rparr>) s)) (\<lambda>_ s. Done b s)"
proof -
  obtain xs where xs: "lru (bufs s) xs" using assms(1) by (auto simp: cache_ok_def)
  show ?thesis using assms(2,3) lru_scan(1) [OF xs] slot_scan [OF assms(1) xs, of n]
    by (simp add: bget_def upd_buf_def del: bscan.simps)
qed

lemma bget_miss:
  assumes "cache_ok d s" and "held s = []" and "slot d s n = None" and "lru (bufs s) xs"
    and "find (\<lambda>i. refcnt (bufs s i) = 0) (rev xs) = Some b"
  shows "bget d n s = bnd (acquiresleep (SL_buf b) (upd_buf b (\<lambda>q. q\<lparr>bdev := d, blockno := n, valid := False, refcnt := 1\<rparr>) s)) (\<lambda>_ s. Done b s)"
  using assms(2,3,5) lru_scan [OF assms(4)] slot_scan [OF assms(1,4), of n]
  by (simp add: bget_def upd_buf_def del: bscan.simps)

lemma bget_full:
  assumes "cache_ok d s" and "held s = []" and "slot d s n = None" and "\<forall>i<NBUF. refcnt (bufs s i) \<noteq> 0"
  shows "bget d n s = Panic ''bget: no buffers''"
proof -
  obtain xs where xs: "lru (bufs s) xs" using assms(1) by (auto simp: cache_ok_def)
  then have "find (\<lambda>i. refcnt (bufs s i) = 0) (rev xs) = None" using assms(4) by (simp add: find_None_iff lru_def)
  then show ?thesis using assms(2,3) lru_scan [OF xs] slot_scan [OF assms(1) xs, of n]
    by (simp add: bget_def del: bscan.simps)
qed

text \<open>A buffer is free exactly when fewer blocks than buffers are referenced.\<close>

lemma refs_card:
  assumes "cache_ok d s"
  shows "card {m. brefs d s m \<noteq> 0} = card {i. i < NBUF \<and> refcnt (bufs s i) \<noteq> 0}"
proof -
  let ?f = "\<lambda>i. blockno (bufs s i)" and ?I = "{i. i < NBUF \<and> refcnt (bufs s i) \<noteq> 0}"
  have ko: "keys_ok d (bufs s)" using assms by (simp add: cache_ok_def)
  have k: "bdev (bufs s i) = d" if "i \<in> ?I" for i
    using that assms by (auto simp: cache_ok_def buf_ok_def)
  have sl: "slot d s (?f i) = Some i" if "i \<in> ?I" for i
    using that k [OF that] slot_Some [of d s "?f i" i] ko by simp
  have "inj_on ?f ?I"
  proof (rule inj_onI)
    fix x y assume "x \<in> ?I" "y \<in> ?I" "?f x = ?f y"
    with sl [of x] sl [of y] have "Some x = Some y" by (metis (lifting))
    then show "x = y" by simp
  qed
  moreover have "{m. brefs d s m \<noteq> 0} = ?f ` ?I"
  proof (intro set_eqI iffI)
    fix m assume m: "m \<in> {m. brefs d s m \<noteq> 0}"
    then obtain b where b: "slot d s m = Some b" by (auto simp: brefs_def split: option.splits)
    then have "b \<in> ?I" "?f b = m" using m slot_SomeD [OF b] by (auto simp: brefs_def unat_gt_0)
    then show "m \<in> ?f ` ?I" by blast
  next
    fix m assume "m \<in> ?f ` ?I"
    then obtain i where "i \<in> ?I" "m = ?f i" by blast
    then show "m \<in> {m. brefs d s m \<noteq> 0}" using sl [of i] by (simp add: brefs_def unat_gt_0)
  qed
  ultimately show ?thesis by (simp add: card_image)
qed

lemma room_iff:
  assumes "cache_ok d s"
  shows "card {m. brefs d s m \<noteq> 0} < NBUF \<longleftrightarrow> (\<exists>i<NBUF. refcnt (bufs s i) = 0)"
proof
  assume "\<exists>i<NBUF. refcnt (bufs s i) = 0"
  then have "{i. i < NBUF \<and> refcnt (bufs s i) \<noteq> 0} \<subset> {..<NBUF}" by auto
  then have "card {i. i < NBUF \<and> refcnt (bufs s i) \<noteq> 0} < card {..<NBUF}" by (rule psubset_card_mono [rotated]) simp
  then show "card {m. brefs d s m \<noteq> 0} < NBUF" unfolding refs_card [OF assms] by simp
next
  assume l: "card {m. brefs d s m \<noteq> 0} < NBUF"
  show "\<exists>i<NBUF. refcnt (bufs s i) = 0"
  proof (rule ccontr)
    assume "\<not> (\<exists>i<NBUF. refcnt (bufs s i) = 0)"
    then have "{i. i < NBUF \<and> refcnt (bufs s i) \<noteq> 0} = {..<NBUF}" by auto
    with l show False unfolding refs_card [OF assms] by simp
  qed
qed

lemma free_buffer:
  assumes "cache_ok d s" and "card {m. brefs d s m \<noteq> 0} < NBUF" and "lru (bufs s) xs"
  obtains b where "b < NBUF" "refcnt (bufs s b) = 0" "find (\<lambda>i. refcnt (bufs s i) = 0) (rev xs) = Some b"
proof (cases "find (\<lambda>i. refcnt (bufs s i) = 0) (rev xs)")
  case (Some b)
  then show thesis using that [of b] find_SomeD [OF Some] assms(3) by (auto simp: lru_def)
next
  case None
  then have "\<not> (\<exists>i<NBUF. refcnt (bufs s i) = 0)" using assms(3) by (auto simp: find_None_iff lru_def)
  then show thesis using room_iff [OF assms(1)] assms(2) by blast
qed

text \<open>The buffer that \<^verbatim>\<open>bread\<close> returns has been read from the disk unless it was valid.\<close>

definition filled :: "(u32 \<Rightarrow> block) \<Rightarrow> buf \<Rightarrow> buf" where
  "filled dk q = (if valid q then q else q\<lparr>bdata := dk (blockno q), valid := True\<rparr>)"

lemma bread_fill_eq: "bread_fill b s = Done b (upd_buf b (filled (disk s)) s)"
  by (simp add: bread_fill_def disk_rw_def upd_buf_def filled_def Let_def)

lemma filled_fields [simp]:
  "bdev (filled dk q) = bdev q" "blockno (filled dk q) = blockno q" "refcnt (filled dk q) = refcnt q" "valid (filled dk q)"
  "bnext (filled dk q) = bnext q" "bprev (filled dk q) = bprev q" "bdata (filled dk q) = (if valid q then bdata q else dk (blockno q))"
  by (simp_all add: filled_def)

text \<open>Taking buffer \<open>b\<close>, changed by \<open>f\<close>, with its lock free: the common end of both ways through \<^verbatim>\<open>bread\<close>.\<close>

lemma bread_take:
  assumes "bget d n s = bnd (acquiresleep (SL_buf b) (upd_buf b f s)) (\<lambda>_ s. Done b s)"
    and "cur s = Some p" and "held s = []" and "locked (slocks s (SL_buf b)) = 0"
  shows "bread d n s = Done b (upd_buf b (filled (disk s)) (set_slock (SL_buf b) 1 (pid (procs s p)) (upd_buf b f s)))"
  using assms acquiresleep_free [of "upd_buf b f s" p "SL_buf b"]
  by (simp add: bread_def bread_fill_eq) (simp add: set_slock_def upd_buf_def)

lemma set_slock_bio [simp]:
  "bufs (set_slock k l i s) = bufs s" "disk (set_slock k l i s) = disk s" "disk_log (set_slock k l i s) = disk_log s"
  by (simp_all add: set_slock_def)

lemma unat_u32_inc: "unat (x :: u32) < 2 ^ 32 - 1 \<Longrightarrow> unat (x + 1) = Suc (unat x)"
  by (simp add: unat_word_ariths)

lemma bread_done:
  assumes ok: "cache_ok d s" and p: "cur s = Some p" "held s = []" and n: "holder d s n = None" "brefs d s n < 2 ^ 32 - 1"
    and room: "brefs d s n \<noteq> 0 \<or> card {m. brefs d s m \<noteq> 0} < NBUF"
  obtains b s' where "bread d n s = Done b s'" "buffer_change d s s' b n" "disk s' = disk s" "disk_log s' = disk_log s" "bframe s s'"
    "content d s' = content d s" "brefs d s' = (brefs d s)(n := Suc (brefs d s n))"
    "holder d s' = (holder d s)(n := Some (pid (procs s p)))"
proof -
  obtain b f where get: "bget d n s = bnd (acquiresleep (SL_buf b) (upd_buf b f s)) (\<lambda>_ s. Done b s)"
    and b: "b < NBUF" "locked (slocks s (SL_buf b)) = 0" "slot d s n = Some b \<or> slot d s n = None \<and> refcnt (bufs s b) = 0"
    and f: "bdev (f (bufs s b)) = d" "blockno (f (bufs s b)) = n" "unat (refcnt (f (bufs s b))) = Suc (brefs d s n)"
      "bnext (f (bufs s b)) = bnext (bufs s b)" "bprev (f (bufs s b)) = bprev (bufs s b)"
      "(if valid (f (bufs s b)) then bdata (f (bufs s b)) else disk s n) = content d s n"
  proof (cases "slot d s n")
    case (Some b)
    then show thesis using that [of b "\<lambda>q. q\<lparr>refcnt := refcnt q + 1\<rparr>"] bget_hit [OF ok p(2) Some] slot_SomeD [OF Some] n unat_u32_inc [of "refcnt (bufs s b)"]
      by (simp add: holder_def brefs_def content_def split: if_splits)
  next
    case None
    then have "card {m. brefs d s m \<noteq> 0} < NBUF" using room by (simp add: brefs_def)
    moreover obtain xs where xs: "lru (bufs s) xs" using ok by (auto simp: cache_ok_def)
    ultimately obtain b where b: "b < NBUF" "refcnt (bufs s b) = 0" "find (\<lambda>i. refcnt (bufs s i) = 0) (rev xs) = Some b"
      using free_buffer [OF ok] by metis
    then have "locked (slocks s (SL_buf b)) = 0" using ok by (auto simp: cache_ok_def buf_ok_def)
    then show thesis using that [of b "\<lambda>q. q\<lparr>bdev := d, blockno := n, valid := False, refcnt := 1\<rparr>"] bget_miss [OF ok p(2) None xs b(3)] b None
      by (simp add: brefs_def content_def)
  qed
  let ?s = "upd_buf b (filled (disk s)) (set_slock (SL_buf b) 1 (pid (procs s p)) (upd_buf b f s))"
  have "unat (refcnt (f (bufs s b))) \<noteq> unat 0" using f(3) by simp
  then have "buffer_change d s ?s b n"
    using ok b f unfolding buffer_change_def by (auto simp: buf_ok_def)
  note v = this change_view [OF this]
  have "content d ?s = content d s" using v(2) f(2,6) by (simp add: fun_eq_iff split: if_splits)
  moreover have "bframe s ?s" by (simp add: bframe_def) (simp add: set_slock_def upd_buf_def)
  ultimately show thesis
    using that [OF bread_take [OF get p b(2)] v(1)] v(3,4) f(3) by simp
qed

section \<open>Changing and writing a block\<close>

lemma slot_buf_ok: "cache_ok d s \<Longrightarrow> slot d s n = Some b \<Longrightarrow> buf_ok d (disk s) (bufs s b) (slocks s (SL_buf b))"
  using slot_SomeD [of d s n b] by (simp add: cache_ok_def)

lemma content_slot: "cache_ok d s \<Longrightarrow> slot d s n = Some b \<Longrightarrow> brefs d s n \<noteq> 0 \<Longrightarrow> valid (bufs s b) \<and> bdata (bufs s b) = content d s n"
  using slot_buf_ok [of d s n b] by (auto simp: buf_ok_def brefs_def content_def)

lemma content_unused: "cache_ok d s \<Longrightarrow> brefs d s n = 0 \<Longrightarrow> content d s n = disk s n"
  using slot_buf_ok [of d s n] slot_SomeD [of d s n] by (auto simp: buf_ok_def brefs_def content_def unat_eq_zero split: option.splits)

lemma put_block:
  fixes s :: "'a kbio_scheme" and x :: block
  assumes ok: "cache_ok d s" and b: "slot d s n = Some b" "brefs d s n \<noteq> 0"
  defines "s' \<equiv> upd_buf b (\<lambda>q. q\<lparr>bdata := x\<rparr>) s"
  shows "buffer_change d s s' b n" "content d s' = (content d s)(n := x)" "brefs d s' = brefs d s" "holder d s' = holder d s"
    "disk s' = disk s" "disk_log s' = disk_log s" "bframe s s'"
proof -
  have q: "b < NBUF" "bdev (bufs s b) = d" "blockno (bufs s b) = n" "valid (bufs s b)" "refcnt (bufs s b) \<noteq> 0"
    using slot_SomeD [OF b(1)] content_slot [OF ok b] b by (auto simp: brefs_def)
  then show c: "buffer_change d s s' b n"
    using ok b(1) slot_buf_ok [OF ok b(1)] by (simp add: buffer_change_def s'_def buf_ok_def)
  show "content d s' = (content d s)(n := x)" using change_view(1) [OF c] q by (simp add: s'_def)
  show "brefs d s' = brefs d s" using change_view(2) [OF c] b(1) by (simp add: s'_def brefs_def fun_eq_iff)
  show "holder d s' = holder d s" using change_view(3) [OF c] b(1) by (simp add: s'_def holder_def fun_eq_iff)
  show "disk s' = disk s" "disk_log s' = disk_log s" by (simp_all add: s'_def)
  show "bframe s s'" by (simp add: bframe_def s'_def) (simp add: upd_buf_def)
qed

lemma holder_mine:
  assumes "slot d s n = Some b" and "holder d s n = Some i"
  shows "locked (slocks s (SL_buf b)) \<noteq> 0" "lkpid (slocks s (SL_buf b)) = i"
  using assms by (auto simp: holder_def split: if_splits)

lemma bwrite_done:
  assumes ok: "cache_ok d s" and p: "cur s = Some p" "held s = []" and b: "slot d s n = Some b" "holder d s n = Some (pid (procs s p))"
  obtains s' where "bwrite b s = Done () s'" "buffer_change d s s' b n" "content d s' = content d s" "brefs d s' = brefs d s"
    "holder d s' = holder d s" "disk s' = (disk s)(n := content d s n)" "disk_log s' = disk_log s @ [(n, content d s n)]" "bframe s s'"
proof -
  let ?s = "disk_rw b True s"
  have r: "brefs d s n \<noteq> 0" using slot_buf_ok [OF ok b(1)] holder_mine [OF b] b(1) by (auto simp: buf_ok_def brefs_def unat_eq_zero)
  have q: "b < NBUF" "bdev (bufs s b) = d" "blockno (bufs s b) = n" "valid (bufs s b)" "bdata (bufs s b) = content d s n" "refcnt (bufs s b) \<noteq> 0"
    using slot_SomeD [OF b(1)] content_slot [OF ok b(1) r] r b(1) by (auto simp: brefs_def)
  have w: "bwrite b s = Done () ?s"
    using holdingsleep_eq [of s p "SL_buf b"] p holder_mine [OF b] by (simp add: bwrite_def)
  have f: "bufs ?s = bufs s" "slocks ?s = slocks s" "disk ?s = (disk s)(n := content d s n)" "disk_log ?s = disk_log s @ [(n, content d s n)]"
    using q by (simp_all add: disk_rw_def)
  have c: "buffer_change d s ?s b n"
    using ok b(1) q slot_buf_ok [OF ok b(1)] by (simp add: buffer_change_def f buf_ok_def)
  have "content d ?s = content d s" using change_view(1) [OF c] q by (simp add: f fun_eq_iff)
  moreover have "brefs d ?s = brefs d s" using change_view(2) [OF c] b(1) by (simp add: f brefs_def fun_eq_iff)
  moreover have "holder d ?s = holder d s" using change_view(3) [OF c] b(1) by (simp add: f holder_def fun_eq_iff)
  moreover have "bframe s ?s" by (simp add: bframe_def disk_rw_def)
  ultimately show thesis using that [OF w c] f by simp
qed

section \<open>References\<close>

text \<open>One reference more or less, with the lock as it is.\<close>

lemma recount:
  assumes ok: "cache_ok d s" and b: "slot d s n = Some b" and r: "brefs d s n \<noteq> 0" "unat r = k"
    and last: "r = 0 \<Longrightarrow> content d s n = disk s n \<and> holder d s n = None"
  defines "s' \<equiv> upd_buf b (\<lambda>q. q\<lparr>refcnt := r\<rparr>) s"
  shows "buffer_change d s s' b n" "content d s' = content d s" "brefs d s' = (brefs d s)(n := k)" "holder d s' = holder d s"
    "disk s' = disk s" "disk_log s' = disk_log s" "bframe s s'"
proof -
  have q: "b < NBUF" "bdev (bufs s b) = d" "blockno (bufs s b) = n" "valid (bufs s b)" "bdata (bufs s b) = content d s n"
    using slot_SomeD [OF b(1)] content_slot [OF ok b r(1)] by auto
  show c: "buffer_change d s s' b n"
    using ok b(1) q slot_buf_ok [OF ok b(1)] last by (auto simp: buffer_change_def s'_def buf_ok_def holder_def split: if_splits)
  show "content d s' = content d s" using change_view(1) [OF c] q by (simp add: s'_def fun_eq_iff)
  show "brefs d s' = (brefs d s)(n := k)" using change_view(2) [OF c] r(2) by (simp add: s'_def)
  show "holder d s' = holder d s" using change_view(3) [OF c] b(1) by (simp add: s'_def holder_def fun_eq_iff)
  show "disk s' = disk s" "disk_log s' = disk_log s" by (simp_all add: s'_def)
  show "bframe s s'" by (simp add: bframe_def s'_def) (simp add: upd_buf_def)
qed

lemma unat_u32_dec: "unat (x :: u32) \<noteq> 0 \<Longrightarrow> unat (x - 1) = unat x - 1"
  using unat_gt_0 [of x] by (simp add: unat_sub_if')

lemma bunpin_done:
  assumes ok: "cache_ok d s" and h: "held s = []" and b: "slot d s n = Some b" and r: "brefs d s n \<noteq> 0"
    and last: "brefs d s n = 1 \<Longrightarrow> content d s n = disk s n \<and> holder d s n = None"
  obtains s' where "bunpin b s = Done () s'" "buffer_change d s s' b n" "content d s' = content d s"
    "brefs d s' = (brefs d s)(n := brefs d s n - 1)" "holder d s' = holder d s" "disk s' = disk s" "disk_log s' = disk_log s" "bframe s s'"
proof -
  let ?r = "refcnt (bufs s b) - 1"
  have "unat ?r = brefs d s n - 1" using r b unat_u32_dec [of "refcnt (bufs s b)"] by (simp add: brefs_def)
  moreover have "content d s n = disk s n \<and> holder d s n = None" if "?r = 0"
    using that last b by (simp add: brefs_def)
  moreover have "bunpin b s = Done () (upd_buf b (\<lambda>q. q\<lparr>refcnt := ?r\<rparr>) s)"
    using h by (simp add: bunpin_def upd_buf_def)
  ultimately show thesis using that recount [OF ok b r, of ?r] by metis
qed

lemma bpin_done:
  assumes ok: "cache_ok d s" and h: "held s = []" and b: "slot d s n = Some b" and r: "brefs d s n \<noteq> 0" "brefs d s n < 2 ^ 32 - 1"
  obtains s' where "bpin b s = Done () s'" "buffer_change d s s' b n" "content d s' = content d s"
    "brefs d s' = (brefs d s)(n := Suc (brefs d s n))" "holder d s' = holder d s" "disk s' = disk s" "disk_log s' = disk_log s" "bframe s s'"
proof -
  let ?r = "refcnt (bufs s b) + 1"
  have u: "unat ?r = Suc (brefs d s n)" using r b unat_u32_inc [of "refcnt (bufs s b)"] by (simp add: brefs_def)
  then have "?r \<noteq> 0" by (metis Zero_not_Suc unat_0)
  moreover have "bpin b s = Done () (upd_buf b (\<lambda>q. q\<lparr>refcnt := ?r\<rparr>) s)"
    using h by (simp add: bpin_def upd_buf_def)
  ultimately show thesis using that recount [OF ok b r(1) u] by metis
qed

section \<open>Releasing a buffer\<close>

text \<open>The six assignments that move a buffer to the front of the list.\<close>

definition relink :: "nat \<Rightarrow> 'a kbio_scheme \<Rightarrow> 'a kbio_scheme" where
  "relink b s =
     (let s = upd_buf (bnext (bufs s b)) (\<lambda>q. q\<lparr>bprev := bprev (bufs s b)\<rparr>) s;
          s = upd_buf (bprev (bufs s b)) (\<lambda>q. q\<lparr>bnext := bnext (bufs s b)\<rparr>) s;
          s = upd_buf b (\<lambda>q. q\<lparr>bnext := bnext (bufs s NBUF)\<rparr>) s;
          s = upd_buf b (\<lambda>q. q\<lparr>bprev := NBUF\<rparr>) s;
          s = upd_buf (bnext (bufs s NBUF)) (\<lambda>q. q\<lparr>bprev := b\<rparr>) s
      in upd_buf NBUF (\<lambda>q. q\<lparr>bnext := b\<rparr>) s)"

lemma relink_eq:
  assumes "b \<noteq> NBUF" and "bnext (bufs s b) = nb" "bprev (bufs s b) = pb" and "nb \<noteq> b" and "pb \<noteq> b"
    and "h = (if pb = NBUF then nb else bnext (bufs s NBUF))"
  shows "relink b s = upd_buf NBUF (\<lambda>q. q\<lparr>bnext := b\<rparr>) (upd_buf h (\<lambda>q. q\<lparr>bprev := b\<rparr>) (upd_buf b (\<lambda>q. q\<lparr>bprev := NBUF\<rparr>)
    (upd_buf b (\<lambda>q. q\<lparr>bnext := h\<rparr>) (upd_buf pb (\<lambda>q. q\<lparr>bnext := nb\<rparr>) (upd_buf nb (\<lambda>q. q\<lparr>bprev := pb\<rparr>) s)))))"
proof -
  let ?s1 = "upd_buf nb (\<lambda>q. q\<lparr>bprev := pb\<rparr>) s"
  let ?s2 = "upd_buf pb (\<lambda>q. q\<lparr>bnext := nb\<rparr>) ?s1"
  have 1: "bprev (bufs ?s1 b) = pb" "bnext (bufs ?s1 b) = nb" using assms(2-5) by simp_all
  have 2: "bnext (bufs ?s2 NBUF) = h" using assms(6) by simp
  show ?thesis unfolding relink_def Let_def assms(2,3) 1 2 using assms(1) 2 by (simp del: upd_buf_fields add: upd_buf_fields(1))
qed

lemma relink_links:
  assumes "b \<noteq> NBUF" and "bnext (bufs s b) \<noteq> b" and "bprev (bufs s b) \<noteq> b"
  defines "nx \<equiv> (\<lambda>i. bnext (bufs s i))(bprev (bufs s b) := bnext (bufs s b))"
    and "pv \<equiv> (\<lambda>i. bprev (bufs s i))(bnext (bufs s b) := bprev (bufs s b))"
  shows "(\<lambda>i. bnext (bufs (relink b s) i)) = nx(b := nx NBUF, NBUF := b)"
    and "(\<lambda>i. bprev (bufs (relink b s) i)) = pv(b := NBUF, nx NBUF := b)"
proof -
  have h: "nx NBUF = (if bprev (bufs s b) = NBUF then bnext (bufs s b) else bnext (bufs s NBUF))" by (simp add: nx_def)
  note e = relink_eq [OF assms(1) refl refl assms(2,3) h]
  show "(\<lambda>i. bnext (bufs (relink b s) i)) = nx(b := nx NBUF, NBUF := b)"
    unfolding e by (rule ext) (simp add: nx_def)
  show "(\<lambda>i. bprev (bufs (relink b s) i)) = pv(b := NBUF, nx NBUF := b)"
    unfolding e using assms(1) by (intro ext) (simp add: pv_def)
qed

lemma payload_links [simp]: "payload (q\<lparr>bprev := x\<rparr>) = payload q" "payload (q\<lparr>bnext := x\<rparr>) = payload q"
  by (simp_all add: payload_def)

lemma payload_upd: "(\<And>q. payload (f q) = payload q) \<Longrightarrow> payload (bufs (upd_buf b f s) i) = payload (bufs s i)"
  by simp

lemma relink_payload: "payload (bufs (relink b s) i) = payload (bufs s i)"
  unfolding relink_def Let_def by (simp add: payload_upd del: upd_buf_fields)

lemma bframe_upd: "bframe s t \<Longrightarrow> bframe s (upd_buf b f t)"
  by (erule bframe_trans, simp add: bframe_def, simp add: upd_buf_def)

lemma relink_rest: "slocks (relink b s) = slocks s" "disk (relink b s) = disk s" "disk_log (relink b s) = disk_log s" "bframe s (relink b s)"
  unfolding relink_def Let_def by (simp_all only: upd_buf_fields(2-4)) (intro bframe_upd bframe_refl)

lemma relink_front:
  assumes "lru (bufs s) (xs @ b # ys)"
  shows "lru (bufs (relink b s)) (b # xs @ ys)"
proof -
  have d: "dll NBUF (\<lambda>i. bnext (bufs s i)) (\<lambda>i. bprev (bufs s i)) (xs @ b # ys)" using assms by (simp add: lru_def)
  have "b \<noteq> NBUF" "bnext (bufs s b) \<noteq> b" "bprev (bufs s b) \<noteq> b" using dll_apart [OF d] by blast+
  from dll_move_front [OF d, folded relink_links [OF this]] show ?thesis using assms by (auto simp: lru_def)
qed

text \<open>The state once the lock is given up and the reference is dropped, before the list is put in order.\<close>

definition dropped :: "nat \<Rightarrow> 'a kbio_scheme \<Rightarrow> 'a kbio_scheme" where
  "dropped b s = upd_buf b (\<lambda>q. q\<lparr>refcnt := refcnt q - 1\<rparr>)
     (set_slock (SL_buf b) 0 0 (s\<lparr>procs := woken (Ch_buflock b) {0..<NPROC} (cur s) (procs s)\<rparr>))"

lemma brelse_relink:
  "brelse b s =
     bnd (holdingsleep (SL_buf b) s) (\<lambda>h s.
       if \<not> h then Panic ''brelse''
       else
         bnd (releasesleep (SL_buf b) s) (\<lambda>_ s.
         bnd (acquire L_bcache s) (\<lambda>_ s.
           let s = upd_buf b (\<lambda>q. q\<lparr>refcnt := refcnt q - 1\<rparr>) s; s = (if refcnt (bufs s b) = 0 then relink b s else s)
           in release L_bcache s)))"
  by (simp only: brelse_def relink_def)

lemma brelse_eq:
  assumes "cur s = Some p" and "held s = []" and "locked (slocks s (SL_buf b)) \<noteq> 0" "lkpid (slocks s (SL_buf b)) = pid (procs s p)"
  shows "brelse b s = Done () (if refcnt (bufs s b) = 1 then relink b (dropped b s) else dropped b s)"
proof -
  let ?t = "set_slock (SL_buf b) 0 0 (s\<lparr>procs := woken (Ch_buflock b) {0..<NPROC} (cur s) (procs s)\<rparr>)"
  have h: "holdingsleep (SL_buf b) s = Done True s" using holdingsleep_eq [of s p "SL_buf b"] assms by simp
  have r: "releasesleep (SL_buf b) s = Done () ?t" using releasesleep_eq [of s "SL_buf b"] assms(2) by (simp add: no_proc_locks_def)
  have u: "upd_buf i f (x\<lparr>held := hs\<rparr>) = upd_buf i f x\<lparr>held := hs\<rparr>" for i f hs and x :: "'a kbio_scheme" by (simp add: upd_buf_def)
  have bh: "bufs (x\<lparr>held := hs\<rparr>) = bufs x" for hs and x :: "'a kbio_scheme" by simp
  have l: "relink b (x\<lparr>held := hs\<rparr>) = relink b x\<lparr>held := hs\<rparr>" for hs and x :: "'a kbio_scheme"
    unfolding relink_def Let_def by (simp only: u bh)
  have "held (dropped b s) = []" using assms(2) by (simp add: dropped_def)
  moreover from this have "held (relink b (dropped b s)) = []" using bframe_fields(2) [OF relink_rest(4)] by metis
  moreover have "refcnt (bufs s b) - 1 = 0 \<longleftrightarrow> refcnt (bufs s b) = 1" by simp
  ultimately show ?thesis
    using assms(2) by (simp add: brelse_relink h r u l Let_def dropped_def)
qed

lemma dropped_change:
  assumes ok: "cache_ok d s" and b: "slot d s n = Some b" and r: "brefs d s n \<noteq> 0"
    and last: "brefs d s n = 1 \<Longrightarrow> content d s n = disk s n"
  shows "buffer_change d s (dropped b s) b n" "content d (dropped b s) = content d s"
    "brefs d (dropped b s) = (brefs d s)(n := brefs d s n - 1)" "holder d (dropped b s) = (holder d s)(n := None)"
    "disk (dropped b s) = disk s" "disk_log (dropped b s) = disk_log s" "bframe s (dropped b s)"
proof -
  have q: "b < NBUF" "bdev (bufs s b) = d" "blockno (bufs s b) = n" "valid (bufs s b)" "bdata (bufs s b) = content d s n"
    using slot_SomeD [OF b] content_slot [OF ok b r] by auto
  have z: "refcnt (bufs s b) - 1 = 0 \<Longrightarrow> content d s n = disk s n" using last b by (simp add: brefs_def)
  show c: "buffer_change d s (dropped b s) b n"
    using ok b q slot_buf_ok [OF ok b] z by (auto simp: buffer_change_def dropped_def buf_ok_def)
  show "content d (dropped b s) = content d s" using change_view(1) [OF c] q by (simp add: dropped_def fun_eq_iff)
  show "brefs d (dropped b s) = (brefs d s)(n := brefs d s n - 1)"
    using change_view(2) [OF c] b r unat_u32_dec [of "refcnt (bufs s b)"] by (simp add: dropped_def brefs_def)
  show "holder d (dropped b s) = (holder d s)(n := None)" using change_view(3) [OF c] by (simp add: dropped_def)
  show "disk (dropped b s) = disk s" "disk_log (dropped b s) = disk_log s" by (simp_all add: dropped_def)
  show "bframe s (dropped b s)" unfolding dropped_def
    by (rule bframe_upd) (simp add: bframe_def wakes_woken, simp add: set_slock_def)
qed

lemma relink_view:
  assumes "cache_ok d s" and "b < NBUF"
  shows "slot d (relink b s) = slot d s" "content d (relink b s) = content d s" "brefs d (relink b s) = brefs d s"
    "holder d (relink b s) = holder d s" "cache_ok d (relink b s)"
proof -
  show "slot d (relink b s) = slot d s" "content d (relink b s) = content d s" "brefs d (relink b s) = brefs d s"
    "holder d (relink b s) = holder d s"
    using view_cong [of "relink b s" s d] relink_payload relink_rest by metis+
  obtain xs where xs: "lru (bufs s) xs" using assms(1) by (auto simp: cache_ok_def)
  then have "b \<in> set xs" using assms(2) by (simp add: lru_def)
  then obtain ys zs where "xs = ys @ b # zs" by (meson split_list)
  with xs relink_front have "\<exists>xs. lru (bufs (relink b s)) xs" by metis
  then show "cache_ok d (relink b s)" using view_cong(5) [of "relink b s" s d] relink_payload relink_rest assms(1) by metis
qed

lemma dropped_slot: "slot d (dropped b s) = slot d s"
proof -
  have "bdev (bufs (dropped b s) i) = bdev (bufs s i)" "blockno (bufs (dropped b s) i) = blockno (bufs s i)" for i
    by (simp_all add: dropped_def)
  then show ?thesis by (simp add: slot_def fun_eq_iff)
qed

lemma brelse_done:
  assumes ok: "cache_ok d s" and p: "cur s = Some p" "held s = []" and b: "slot d s n = Some b" "holder d s n = Some (pid (procs s p))"
    and last: "brefs d s n = 1 \<Longrightarrow> content d s n = disk s n"
  obtains s' where "brelse b s = Done () s'" "cache_ok d s'" "slot d s' = slot d s" "content d s' = content d s"
    "brefs d s' = (brefs d s)(n := brefs d s n - 1)" "holder d s' = (holder d s)(n := None)" "disk s' = disk s" "disk_log s' = disk_log s" "bframe s s'"
proof -
  have "refcnt (bufs s b) \<noteq> 0" using slot_buf_ok [OF ok b(1)] holder_mine [OF b] by (auto simp: buf_ok_def)
  then have r: "brefs d s n \<noteq> 0" using b(1) by (simp add: brefs_def unat_gt_0)
  note c = dropped_change [OF ok b(1) r last]
  note v = relink_view [OF change_cache_ok [OF c(1)] change_b [OF c(1)]]
  note e = brelse_eq [OF p holder_mine [OF b]]
  show thesis
  proof (cases "refcnt (bufs s b) = 1")
    case True
    show thesis
    proof (rule that [of "relink b (dropped b s)"])
      show "brelse b s = Done () (relink b (dropped b s))" using e True by simp
      show "bframe s (relink b (dropped b s))" by (rule bframe_trans [OF c(7) relink_rest(4)])
    qed (simp_all add: v c(2-6) relink_rest dropped_slot)
  next
    case False
    then show thesis using that [of "dropped b s"] e c change_cache_ok [OF c(1)] by (simp add: dropped_slot)
  qed
qed

section \<open>The cache after binit\<close>

definition zero_bufs :: "'a kbio_scheme \<Rightarrow> bool" where
  "zero_bufs s \<longleftrightarrow> (\<forall>i. \<not> valid (bufs s i) \<and> bdev (bufs s i) = 0 \<and> refcnt (bufs s i) = 0)"

lemma binit_loop_links:
  assumes "dll NBUF (\<lambda>i. bnext (bufs s i)) (\<lambda>i. bprev (bufs s i)) xs" and "distinct bs" and "NBUF \<notin> set bs" and "set bs \<inter> set xs = {}"
  shows "dll NBUF (\<lambda>i. bnext (bufs (binit_loop bs s) i)) (\<lambda>i. bprev (bufs (binit_loop bs s) i)) (rev bs @ xs)
    \<and> (\<forall>i. payload (bufs (binit_loop bs s) i) = payload (bufs s i)) \<and> (\<forall>b\<in>set bs. locked (slocks (binit_loop bs s) (SL_buf b)) = 0)
    \<and> (\<forall>b. b \<notin> set bs \<longrightarrow> slocks (binit_loop bs s) (SL_buf b) = slocks s (SL_buf b))"
  using assms
proof (induction bs arbitrary: s xs)
  case (Cons b bs)
  let ?h = "bnext (bufs s NBUF)"
  let ?t = "upd_buf NBUF (\<lambda>q. q\<lparr>bnext := b\<rparr>) (upd_buf ?h (\<lambda>q. q\<lparr>bprev := b\<rparr>) (initsleeplock (SL_buf b)
    (upd_buf b (\<lambda>q. q\<lparr>bprev := NBUF\<rparr>) (upd_buf b (\<lambda>q. q\<lparr>bnext := ?h\<rparr>) s))))"
  have b: "b \<noteq> NBUF" using Cons.prems by auto
  then have e: "binit_loop (b # bs) s = binit_loop bs ?t" by (simp add: Let_def)
  have l: "(\<lambda>i. bnext (bufs ?t i)) = (\<lambda>i. bnext (bufs s i))(b := ?h, NBUF := b)"
    "(\<lambda>i. bprev (bufs ?t i)) = (\<lambda>i. bprev (bufs s i))(b := NBUF, ?h := b)"
    using b by (auto simp: fun_eq_iff)
  have "b \<notin> set (NBUF # xs)" using Cons.prems by auto
  from dll_link [OF Cons.prems(1) this] have "dll NBUF (\<lambda>i. bnext (bufs ?t i)) (\<lambda>i. bprev (bufs ?t i)) (b # xs)" unfolding l .
  from Cons.IH [OF this] Cons.prems
  show ?case unfolding e by (auto simp: payload_def)
qed simp

lemma binit_cache:
  assumes z: "zero_bufs s" and d: "d \<noteq> 0"
  shows "cache_ok d (binit s)" "lru (bufs (binit s)) (rev [0..<NBUF])" "slot d (binit s) = (\<lambda>_. None)"
    "refcnt (bufs (binit s) i) = 0"
proof -
  let ?t = "upd_buf NBUF (\<lambda>q. q\<lparr>bprev := NBUF, bnext := NBUF\<rparr>) (init_lock L_bcache s)"
  have t: "dll NBUF (\<lambda>i. bnext (bufs ?t i)) (\<lambda>i. bprev (bufs ?t i)) []" by (simp add: dll_def)
  have p: "payload (bufs ?t i) = payload (bufs s i)" for i by (simp add: payload_def init_lock_def)
  have e: "binit s = binit_loop [0..<NBUF] ?t" by (simp add: binit_def Let_def)
  note l = binit_loop_links [OF t, of "[0..<NBUF]", folded e]
  then show lr: "lru (bufs (binit s)) (rev [0..<NBUF])" by (auto simp: lru_def)
  have f: "\<not> valid (bufs (binit s) i) \<and> bdev (bufs (binit s) i) = 0 \<and> refcnt (bufs (binit s) i) = 0" for i
  proof -
    have "payload (bufs (binit s) i) = payload (bufs s i)" using l p by simp
    then show ?thesis using z by (simp add: payload_def zero_bufs_def)
  qed
  moreover have "locked (slocks (binit s) (SL_buf i)) = 0" if "i < NBUF" for i using l that by simp
  ultimately show "cache_ok d (binit s)" using lr d by (auto simp: cache_ok_def keys_ok_def buf_ok_def)
  show "refcnt (bufs (binit s) i) = 0" using f by simp
  show "slot d (binit s) = (\<lambda>_. None)" using f d by (auto simp: fun_eq_iff slot_None)
qed

section \<open>Properties\<close>

lemma cache_ok_cong: "bufs s' = bufs s \<Longrightarrow> disk s' = disk s \<Longrightarrow> slocks s' = slocks s \<Longrightarrow> cache_ok d s' = cache_ok d s"
  by (simp add: cache_ok_def)

lemma bread_ends:
  assumes ok: "cache_ok d s" and p: "cur s = Some p" "held s = []" and r: "brefs d s n < 2 ^ 32 - 1"
  shows "ends (cache_ok d) (bread d n s)"
proof (cases "holder d s n")
  case (Some i)
  then obtain b where b: "slot d s n = Some b" "locked (slocks s (SL_buf b)) \<noteq> 0" by (auto simp: holder_def split: option.splits if_splits)
  let ?r = "refcnt (bufs s b) + 1"
  let ?t = "upd_buf b (\<lambda>q. q\<lparr>refcnt := ?r\<rparr>) s"
  have "refcnt (bufs s b) \<noteq> 0" using slot_buf_ok [OF ok b(1)] b(2) by (auto simp: buf_ok_def)
  then have n: "brefs d s n \<noteq> 0" using b(1) by (simp add: brefs_def unat_gt_0)
  have u: "unat ?r = Suc (brefs d s n)" using r b unat_u32_inc [of "refcnt (bufs s b)"] by (simp add: brefs_def)
  then have "?r \<noteq> 0" by (metis Zero_not_Suc unat_0)
  then have c: "cache_ok d ?t" using recount(1) [OF ok b(1) n u] change_cache_ok by blast
  have "bget d n s = Sleep (upd_proc p (\<lambda>q. q\<lparr>chan := Ch_buflock b, state := SLEEPING\<rparr>) ?t\<lparr>held := [L_proc p]\<rparr>)"
    using bget_hit [OF ok p(2) b(1)] acquiresleep_busy [of ?t p "SL_buf b"] p b(2) by (simp add: upd_buf_def)
  then show ?thesis using c cache_ok_cong [of "upd_proc p (\<lambda>q. q\<lparr>chan := Ch_buflock b, state := SLEEPING\<rparr>) ?t\<lparr>held := [L_proc p]\<rparr>" ?t d]
    by (simp add: bread_def upd_proc_def)
next
  case None
  show ?thesis
  proof (cases "brefs d s n \<noteq> 0 \<or> card {m. brefs d s m \<noteq> 0} < NBUF")
    case True
    show ?thesis using bread_done [OF ok p None r True] change_cache_ok by (metis ends_simps(1))
  next
    case False
    then have f: "brefs d s n = 0" "\<forall>i<NBUF. refcnt (bufs s i) \<noteq> 0" using room_iff [OF ok] by auto
    then have "slot d s n = None" using slot_SomeD [of d s n] by (cases "slot d s n") (auto simp: brefs_def unat_eq_zero)
    then show ?thesis using bget_full [OF ok p(2) _ f(2)] by (simp add: bread_def)
  qed
qed

lemma brelse_ends:
  assumes ok: "cache_ok d s" and p: "cur s = Some p" "held s = []" and b: "slot d s n = Some b"
    and last: "brefs d s n = 1 \<Longrightarrow> content d s n = disk s n"
  shows "ends (cache_ok d) (brelse b s)" "ends (cache_ok d) (bwrite b s)"
proof -
  have h: "holdingsleep (SL_buf b) s = Done (holder d s n = Some (pid (procs s p))) s"
    using holdingsleep_eq [of s p "SL_buf b"] p b by (auto simp: holder_def)
  show "ends (cache_ok d) (brelse b s)"
  proof (cases "holder d s n = Some (pid (procs s p))")
    case True
    show ?thesis using brelse_done [OF ok p b True last] by (metis ends_simps(1))
  qed (simp add: brelse_relink h)
  show "ends (cache_ok d) (bwrite b s)"
  proof (cases "holder d s n = Some (pid (procs s p))")
    case True
    show ?thesis using bwrite_done [OF ok p b True] change_cache_ok by (metis ends_simps(1))
  qed (simp add: bwrite_def h)
qed


text \<open>A cache of device 1 with nothing in it.\<close>

definition cached :: kbio where
  "cached = with_cache (with_slocks (with_console (with_pipes two_procs)))"

lemma cached_facts:
  "cache_ok 1 cached" "cur cached = Some 0" "held cached = []" "lru (bufs cached) (rev [0..<NBUF])" "slot 1 cached = (\<lambda>_. None)"
  "brefs 1 cached = (\<lambda>_. 0)" "holder 1 cached = (\<lambda>_. None)" "content 1 cached = (\<lambda>_. replicate BSIZE 0)" "refcnt (bufs cached i) = 0"
proof -
  let ?s = "kslock.extend (with_slocks (with_console (with_pipes two_procs))) (kbio.fields (\<lambda>_. blank_buf) (\<lambda>_. replicate BSIZE 0) []) :: kbio"
  have "zero_bufs ?s" by (simp add: zero_bufs_def kslock.defs kbio.defs blank_buf_def)
  note c = binit_cache [OF this, of 1, folded with_cache_def, folded cached_def]
  then show "cache_ok 1 cached" "lru (bufs cached) (rev [0..<NBUF])" "slot 1 cached = (\<lambda>_. None)" by simp_all
  then show "brefs 1 cached = (\<lambda>_. 0)" "holder 1 cached = (\<lambda>_. None)" "content 1 cached = (\<lambda>_. replicate BSIZE 0)"
    by (simp_all add: brefs_def holder_def content_def fun_eq_iff cached_def)
  show "cur cached = Some 0" "held cached = []" by (simp_all add: cached_def two_procs_def blank_kstate_def)
  show "refcnt (bufs cached i) = 0" using c(4) by simp
qed




text \<open>
  C11 (refinement): the cache replaces the least recently used buffer. Releasing the last reference moves the buffer to the front of
  the list and keeps the others in order, releasing another one leaves the list alone; a block without a buffer
  gets the last free one of the list.
\<close>

theorem cache_is_lru:
  assumes "cache_ok d s" and "cur s = Some p" and "held s = []" and "lru (bufs s) xs"
  shows "(\<forall>ys b zs n. xs = ys @ b # zs \<and> slot d s n = Some b \<and> holder d s n = Some (pid (procs s p)) \<longrightarrow>
      (\<exists>s'. brelse b s = Done () s' \<and> lru (bufs s') (if brefs d s n = 1 then b # ys @ zs else xs)))
    \<and> (\<forall>n b. slot d s n = None \<and> find (\<lambda>i. refcnt (bufs s i) = 0) (rev xs) = Some b \<longrightarrow> (\<exists>s'. bread d n s = Done b s' \<and> lru (bufs s') xs))"
proof (intro conjI allI impI; elim conjE)
  fix ys b zs n assume x: "xs = ys @ b # zs" and b: "slot d s n = Some b" "holder d s n = Some (pid (procs s p))"
  have "lru (bufs (dropped b s)) xs" using assms(4) lru_cong [of "bufs (dropped b s)" "bufs s" xs] by (simp add: dropped_def)
  then have "lru (bufs (if refcnt (bufs s b) = 1 then relink b (dropped b s) else dropped b s)) (if brefs d s n = 1 then b # ys @ zs else xs)"
    using relink_front [of "dropped b s" ys b zs] x b(1) by (simp add: brefs_def word_unat_eq_iff [of _ 1])
  then show "\<exists>s'. brelse b s = Done () s' \<and> lru (bufs s') (if brefs d s n = 1 then b # ys @ zs else xs)"
    using brelse_eq [OF assms(2,3) holder_mine [OF b]] by blast
next
  fix n b assume n: "slot d s n = None" and b: "find (\<lambda>i. refcnt (bufs s i) = 0) (rev xs) = Some b"
  let ?f = "\<lambda>q. q\<lparr>bdev := d, blockno := n, valid := False, refcnt := 1\<rparr>"
  have "b < NBUF" "refcnt (bufs s b) = 0" using find_SomeD [OF b] assms(4) by (simp_all add: lru_def)
  then have l: "locked (slocks s (SL_buf b)) = 0" using assms(1) by (auto simp: cache_ok_def buf_ok_def)
  let ?s = "upd_buf b (filled (disk s)) (set_slock (SL_buf b) 1 (pid (procs s p)) (upd_buf b ?f s))"
  have "bread d n s = Done b ?s"
    by (rule bread_take [OF bget_miss [OF assms(1,3) n assms(4) b] assms(2,3) l])
  moreover have "lru (bufs ?s) xs" using assms(4) lru_cong [of "bufs ?s" "bufs s" xs] by simp
  ultimately show "\<exists>s'. bread d n s = Done b s' \<and> lru (bufs s') xs" by blast
qed

theorem cache_is_lru_witness:
  "lru (bufs cached) (rev [0..<NBUF]) \<and> (\<exists>s'. bread 1 33 cached = Done 0 s' \<and> lru (bufs s') (rev [0..<NBUF]))"
proof -
  have "find (\<lambda>i. refcnt (bufs cached i) = 0) (rev (rev [0..<NBUF])) = Some 0" by (simp add: cached_facts(9) NBUF_def upt_rec)
  then show ?thesis using cache_is_lru [OF cached_facts(1-4)] cached_facts(4,5) by simp
qed

end
