(* ===== verification/Block_Store.thy ===== *)
theory Block_Store
  imports Bio_Facts
begin

text \<open>
  The buffer cache as the log sees it: an interface of five operations with their laws, over an
  abstract view of blocks. The access patterns of the log are proved once from the laws; the
  cache of \<^verbatim>\<open>bio.c\<close> is an instance.
\<close>

section \<open>The interface\<close>

record bview =
  cont :: "u32 \<Rightarrow> block"
  nrefs :: "u32 \<Rightarrow> nat"
  owner :: "u32 \<Rightarrow> i32 option"
  on_disk :: "u32 \<Rightarrow> block"
  written :: "(u32 \<times> block) list"

text \<open>A block can be taken at once.\<close>

definition takable :: "nat \<Rightarrow> bview \<Rightarrow> u32 \<Rightarrow> bool" where
  "takable cap v n \<longleftrightarrow> owner v n = None \<and> nrefs v n < 2 ^ 32 - 1 \<and> (nrefs v n \<noteq> 0 \<or> card {m. nrefs v m \<noteq> 0} < cap)"

definition taken :: "i32 \<Rightarrow> u32 \<Rightarrow> bview \<Rightarrow> bview" where
  "taken i n v = v\<lparr>nrefs := (nrefs v)(n := Suc (nrefs v n)), owner := (owner v)(n := Some i)\<rparr>"

definition put_back :: "u32 \<Rightarrow> bview \<Rightarrow> bview" where
  "put_back n v = v\<lparr>nrefs := (nrefs v)(n := nrefs v n - 1), owner := (owner v)(n := None)\<rparr>"

definition stored :: "u32 \<Rightarrow> bview \<Rightarrow> bview" where
  "stored n v = v\<lparr>on_disk := (on_disk v)(n := cont v n), written := written v @ [(n, cont v n)]\<rparr>"

definition overwritten :: "u32 \<Rightarrow> block \<Rightarrow> bview \<Rightarrow> bview" where
  "overwritten n x v = v\<lparr>cont := (cont v)(n := x), on_disk := (on_disk v)(n := x), written := written v @ [(n, x)]\<rparr>"

definition unpinned :: "u32 \<Rightarrow> bview \<Rightarrow> bview" where
  "unpinned n v = v\<lparr>nrefs := (nrefs v)(n := nrefs v n - 1)\<rparr>"

lemmas bview_steps = taken_def put_back_def stored_def overwritten_def unpinned_def

lemma takable_taken:
  assumes "takable cap v m" and "m \<noteq> n" and "nrefs v m \<noteq> 0 \<or> Suc (card {k. nrefs v k \<noteq> 0}) < cap"
  shows "takable cap (taken i n v) m"
proof -
  have "{k. nrefs (taken i n v) k \<noteq> 0} \<subseteq> insert n {k. nrefs v k \<noteq> 0}" by (auto simp: taken_def)
  then have "card {k. nrefs (taken i n v) k \<noteq> 0} \<le> card (insert n {k. nrefs v k \<noteq> 0})"
    by (rule card_mono [OF finite])
  also have "\<dots> \<le> Suc (card {k. nrefs v k \<noteq> 0})" by (rule card_insert_le_m1) simp_all
  finally have "nrefs v m \<noteq> 0 \<or> card {k. nrefs (taken i n v) k \<noteq> 0} < cap" using assms(3) by auto
  then show ?thesis using assms(1,2) unfolding takable_def by (simp add: taken_def)
qed

locale block_store =
  fixes ok :: "'s \<Rightarrow> bool" and abs :: "'s \<Rightarrow> bview" and loc :: "'s \<Rightarrow> u32 \<Rightarrow> nat option" and me :: "'s \<Rightarrow> i32"
    and fr :: "'s \<Rightarrow> 's \<Rightarrow> bool" and cap :: nat
    and get :: "nat \<Rightarrow> 's \<Rightarrow> block" and put :: "nat \<Rightarrow> block \<Rightarrow> 's \<Rightarrow> 's"
    and rd :: "u32 \<Rightarrow> 's \<Rightarrow> (nat, 's) outcome" and wr :: "nat \<Rightarrow> 's \<Rightarrow> (unit, 's) outcome"
    and rel :: "nat \<Rightarrow> 's \<Rightarrow> (unit, 's) outcome" and unpin :: "nat \<Rightarrow> 's \<Rightarrow> (unit, 's) outcome"
  assumes fr_refl: "fr s s" and fr_trans: "fr s t \<Longrightarrow> fr t u \<Longrightarrow> fr s u" and fr_me: "fr s t \<Longrightarrow> me t = me s"
    and get: "ok s \<Longrightarrow> loc s n = Some b \<Longrightarrow> nrefs (abs s) n \<noteq> 0 \<Longrightarrow> get b s = cont (abs s) n"
    and clean: "ok s \<Longrightarrow> nrefs (abs s) n = 0 \<Longrightarrow> cont (abs s) n = on_disk (abs s) n"
    and rd: "ok s \<Longrightarrow> takable cap (abs s) n \<Longrightarrow> \<exists>b t. rd n s = Done b t \<and> ok t \<and> fr s t \<and> loc t n = Some b
      \<and> abs t = taken (me s) n (abs s) \<and> (\<forall>m. nrefs (abs s) m \<noteq> 0 \<longrightarrow> loc t m = loc s m)"
    and put: "ok s \<Longrightarrow> loc s n = Some b \<Longrightarrow> nrefs (abs s) n \<noteq> 0 \<Longrightarrow> ok (put b x s) \<and> fr s (put b x s)
      \<and> abs (put b x s) = (abs s)\<lparr>cont := (cont (abs s))(n := x)\<rparr> \<and> (\<forall>m. nrefs (abs s) m \<noteq> 0 \<longrightarrow> loc (put b x s) m = loc s m)"
    and wr: "ok s \<Longrightarrow> loc s n = Some b \<Longrightarrow> owner (abs s) n = Some (me s) \<Longrightarrow> \<exists>t. wr b s = Done () t \<and> ok t \<and> fr s t
      \<and> abs t = stored n (abs s) \<and> (\<forall>m. nrefs (abs s) m \<noteq> 0 \<longrightarrow> loc t m = loc s m)"
    and rel: "ok s \<Longrightarrow> loc s n = Some b \<Longrightarrow> owner (abs s) n = Some (me s) \<Longrightarrow>
      (nrefs (abs s) n = 1 \<Longrightarrow> cont (abs s) n = on_disk (abs s) n) \<Longrightarrow> \<exists>t. rel b s = Done () t \<and> ok t \<and> fr s t
      \<and> abs t = put_back n (abs s) \<and> (\<forall>m. nrefs (abs s) m \<noteq> 0 \<longrightarrow> loc t m = loc s m)"
    and unpin: "ok s \<Longrightarrow> loc s n = Some b \<Longrightarrow> 1 < nrefs (abs s) n \<Longrightarrow> \<exists>t. unpin b s = Done () t \<and> ok t \<and> fr s t
      \<and> abs t = unpinned n (abs s) \<and> (\<forall>m. nrefs (abs s) m \<noteq> 0 \<longrightarrow> loc t m = loc s m)"
begin

text \<open>A block is read, changed to \<open>x\<close>, written and released.\<close>

lemma overwrite:
  assumes "ok s" and "takable cap (abs s) n"
  obtains b t where "rd n s = Done b t" "fr s t" "get b t = cont (abs s) n"
    "\<And>x. \<exists>u. bnd (wr b (put b x t)) (\<lambda>_. rel b) = Done () u \<and> ok u \<and> fr s u \<and> abs u = overwritten n x (abs s)"
proof -
  obtain b t where t: "rd n s = Done b t" "ok t" "fr s t" "loc t n = Some b" "abs t = taken (me s) n (abs s)"
    using rd [OF assms] by blast
  have g: "get b t = cont (abs s) n" using get [OF t(2,4)] t(5) by (simp add: taken_def)
  have "\<exists>u. bnd (wr b (put b x t)) (\<lambda>_. rel b) = Done () u \<and> ok u \<and> fr s u \<and> abs u = overwritten n x (abs s)" for x
  proof -
    let ?t = "put b x t"
    have 1: "ok ?t" "fr t ?t" "abs ?t = (abs t)\<lparr>cont := (cont (abs t))(n := x)\<rparr>" "loc ?t n = Some b"
      using put [OF t(2,4), of x] t(4,5) by (simp_all add: taken_def)
    have m: "me ?t = me s" using fr_me [OF 1(2)] fr_me [OF t(3)] by simp
    obtain u where u: "wr b ?t = Done () u" "ok u" "fr ?t u" "abs u = stored n (abs ?t)" "loc u n = Some b"
      using wr [OF 1(1,4)] 1 t(5) m by (auto simp: taken_def)
    have "\<exists>v. rel b u = Done () v \<and> ok v \<and> fr u v \<and> abs v = put_back n (abs u)"
      using rel [OF u(2,5)] fr_me [OF u(3)] m u(4) 1(3) t(5) by (auto simp: bview_steps)
    then obtain v where v: "rel b u = Done () v" "ok v" "fr u v" "abs v = put_back n (abs u)" by blast
    have "abs v = overwritten n x (abs s)" using v(4) u(4) 1(3) t(5) assms(2) by (simp add: bview_steps takable_def fun_upd_idem)
    moreover have "fr s v" using fr_trans t(3) 1(2) u(3) v(3) by blast
    ultimately show ?thesis using u(1) v by simp
  qed
  then show thesis using that t(1,3) g by blast
qed

text \<open>Two blocks are taken; the first stays where it is.\<close>

lemma take_two:
  assumes "ok s" and "takable cap (abs s) n" "takable cap (abs s) m" and "n \<noteq> m"
    and "nrefs (abs s) m \<noteq> 0 \<or> Suc (card {k. nrefs (abs s) k \<noteq> 0}) < cap"
  obtains b t c u where "rd n s = Done b t" "fr s t" "rd m t = Done c u" "ok u" "fr s u" "me u = me s" "loc u n = Some b" "loc u m = Some c"
    "abs u = taken (me s) m (taken (me s) n (abs s))"
proof -
  obtain b t where t: "rd n s = Done b t" "ok t" "fr s t" "loc t n = Some b" "abs t = taken (me s) n (abs s)"
    using rd [OF assms(1,2)] by blast
  have "takable cap (abs t) m" unfolding t(5) using assms by (intro takable_taken) auto
  from rd [OF t(2) this] obtain c u where u: "rd m t = Done c u" "ok u" "fr t u" "loc u m = Some c" "abs u = taken (me t) m (abs t)"
    "\<forall>m. nrefs (abs t) m \<noteq> 0 \<longrightarrow> loc u m = loc t m" by blast
  have "loc u n = Some b" using u(6) t(4,5) by (simp add: taken_def)
  then show thesis using that [OF t(1,3) u(1,2)] u fr_trans [OF t(3) u(3)] fr_me [OF t(3)] fr_me [OF u(3)] t(5) by simp
qed

text \<open>The content of block \<open>z\<close> is put into block \<open>x\<close> and written, one pin of \<open>x\<close> given up if asked for, and both are released.\<close>

lemma move_block:
  assumes s: "ok s" "loc s x = Some b" "loc s z = Some c" and d: "x \<noteq> z"
    and own: "owner (abs s) x = Some (me s)" "owner (abs s) z = Some (me s)" "nrefs (abs s) x \<noteq> 0" "nrefs (abs s) z \<noteq> 0"
    and z: "nrefs (abs s) z = 1 \<Longrightarrow> cont (abs s) z = on_disk (abs s) z" and p: "pinned \<Longrightarrow> 1 < nrefs (abs s) x"
  shows "\<exists>t. bnd (wr b (put b (get c s) s)) (\<lambda>_ s. bnd (if pinned then unpin b s else Done () s) (\<lambda>_ s. bnd (rel c s) (\<lambda>_ s. rel b s))) = Done () t
    \<and> ok t \<and> fr s t \<and> abs t = put_back x (put_back z ((if pinned then unpinned x else id) (overwritten x (cont (abs s) z) (abs s))))"
proof -
  let ?y = "cont (abs s) z" and ?U = "if pinned then unpinned x else id"
  let ?t = "put b ?y s"
  have g: "get c s = ?y" by (rule get [OF s(1,3) own(4)])
  have 1: "ok ?t" "fr s ?t" "abs ?t = (abs s)\<lparr>cont := (cont (abs s))(x := ?y)\<rparr>" "loc ?t x = Some b" "loc ?t z = Some c"
    using put [OF s(1,2) own(3), of ?y] s own by simp_all
  have "owner (abs ?t) x = Some (me ?t)" using own(1) 1(3) fr_me [OF 1(2)] by simp
  from wr [OF 1(1,4) this] obtain u where u: "wr b ?t = Done () u" "ok u" "fr ?t u" "abs u = stored x (abs ?t)" "loc u x = Some b" "loc u z = Some c"
    using 1 own by auto
  have a: "abs u = overwritten x ?y (abs s)" unfolding u(4) 1(3) by (simp add: bview_steps)
  have "\<exists>v. (if pinned then unpin b u else Done () u) = Done () v \<and> ok v \<and> fr u v \<and> abs v = ?U (abs u) \<and> loc v x = Some b \<and> loc v z = Some c"
  proof (cases pinned)
    case True
    have r: "nrefs (abs u) = nrefs (abs s)" by (simp add: a overwritten_def)
    then show ?thesis using unpin [OF u(2,5)] p u(5,6) own True by auto
  qed (simp add: u fr_refl)
  then obtain v where v: "(if pinned then unpin b u else Done () u) = Done () v" "ok v" "fr u v" "abs v = ?U (abs u)" "loc v x = Some b" "loc v z = Some c"
    by blast
  have m: "me v = me s" using fr_me 1(2) u(3) v(3) by metis
  have o: "owner (abs v) = owner (abs s)" "nrefs (abs v) z = nrefs (abs s) z" "cont (abs v) z = ?y" "on_disk (abs v) z = on_disk (abs s) z"
    "nrefs (abs v) x \<noteq> 0" "cont (abs v) x = ?y" "on_disk (abs v) x = ?y"
    using v(4) a d p own(3) by (auto simp: bview_steps)
  obtain w where w: "rel c v = Done () w" "ok w" "fr v w" "abs w = put_back z (abs v)" "loc w x = Some b"
    using rel [OF v(2,6)] own(2) m z o v(5) by auto
  have "owner (abs w) x = Some (me w)" "cont (abs w) x = on_disk (abs w) x"
    using w(4) o own(1) d m fr_me [OF w(3)] by (auto simp: put_back_def)
  then obtain e where e: "rel b w = Done () e" "ok e" "fr w e" "abs e = put_back x (abs w)"
    using rel [OF w(2,5)] by blast
  have "fr s e" using fr_trans 1(2) u(3) v(3) w(3) e(3) by blast
  then show ?thesis using u(1) v(1) w(1) e w(4) v(4) a g by simp
qed

text \<open>The two patterns of the log: a cached block is copied into the log, and a block of the log is copied home.\<close>

lemma copy_to_log:
  assumes "ok s" and "takable cap (abs s) n" "takable cap (abs s) m" and "n \<noteq> m" and "nrefs (abs s) m \<noteq> 0"
  obtains b t c u v where "rd n s = Done b t" "fr s t" "rd m t = Done c u" "ok v" "fr s v" "abs v = overwritten n (cont (abs s) m) (abs s)"
    "bnd (wr b (put b (get c u) u)) (\<lambda>_ s. bnd (rel c s) (\<lambda>_ s. rel b s)) = Done () v"
proof -
  have room: "nrefs (abs s) m \<noteq> 0 \<or> Suc (card {k. nrefs (abs s) k \<noteq> 0}) < cap" using assms(5) by simp
  obtain b t c u where u: "rd n s = Done b t" "fr s t" "rd m t = Done c u" "ok u" "fr s u" "me u = me s" "loc u n = Some b" "loc u m = Some c"
    "abs u = taken (me s) m (taken (me s) n (abs s))"
    by (rule take_two [OF assms(1-4) room])
  have "\<exists>v. bnd (wr b (put b (get c u) u)) (\<lambda>_ s. bnd (if False then unpin b s else Done () s) (\<lambda>_ s. bnd (rel c s) (\<lambda>_ s. rel b s))) = Done () v
    \<and> ok v \<and> fr u v \<and> abs v = put_back n (put_back m ((if False then unpinned n else id) (overwritten n (cont (abs u) m) (abs u))))"
    by (rule move_block [OF u(4,7,8) assms(4)]) (use u(6,9) assms(4,5) in \<open>simp_all add: taken_def\<close>)
  then obtain v where v: "bnd (wr b (put b (get c u) u)) (\<lambda>_ s. bnd (rel c s) (\<lambda>_ s. rel b s)) = Done () v" "ok v" "fr u v"
    "abs v = put_back n (put_back m (overwritten n (cont (abs u) m) (abs u)))" by auto
  have "abs v = overwritten n (cont (abs s) m) (abs s)"
    unfolding v(4) u(9) using assms(2-4) by (simp add: bview_steps takable_def fun_upd_idem fun_upd_twist)
  then show thesis using that [OF u(1-3) v(2)] fr_trans [OF u(5) v(3)] v(1) by blast
qed

lemma copy_home:
  assumes "ok s" and "takable cap (abs s) n" "takable cap (abs s) m" and "n \<noteq> m" and "nrefs (abs s) m \<noteq> 0 \<or> Suc (card {k. nrefs (abs s) k \<noteq> 0}) < cap"
    and "pinned \<Longrightarrow> nrefs (abs s) m \<noteq> 0"
  obtains b t c u v where "rd n s = Done b t" "fr s t" "rd m t = Done c u" "fr s u" "ok v" "fr s v"
    "abs v = (if pinned then unpinned m else id) (overwritten m (cont (abs s) n) (abs s))"
    "bnd (wr c (put c (get b u) u)) (\<lambda>_ s. bnd (if pinned then unpin c s else Done () s) (\<lambda>_ s. bnd (rel b s) (\<lambda>_ s. rel c s))) = Done () v"
proof -
  obtain b t c u where u: "rd n s = Done b t" "fr s t" "rd m t = Done c u" "ok u" "fr s u" "me u = me s" "loc u n = Some b" "loc u m = Some c"
    "abs u = taken (me s) m (taken (me s) n (abs s))"
    by (rule take_two [OF assms(1-5)])
  have cl: "nrefs (abs u) n = 1 \<Longrightarrow> cont (abs u) n = on_disk (abs u) n"
    using clean [OF assms(1), of n] assms(4) u(9) by (simp add: taken_def)
  have "\<exists>v. bnd (wr c (put c (get b u) u)) (\<lambda>_ s. bnd (if pinned then unpin c s else Done () s) (\<lambda>_ s. bnd (rel b s) (\<lambda>_ s. rel c s))) = Done () v
    \<and> ok v \<and> fr u v \<and> abs v = put_back m (put_back n ((if pinned then unpinned m else id) (overwritten m (cont (abs u) n) (abs u))))"
    by (rule move_block [OF u(4,8,7)]) (use u(6,9) assms(4,6) cl in \<open>simp_all add: taken_def\<close>)
  then obtain v where v: "bnd (wr c (put c (get b u) u)) (\<lambda>_ s. bnd (if pinned then unpin c s else Done () s) (\<lambda>_ s. bnd (rel b s) (\<lambda>_ s. rel c s))) = Done () v"
    "ok v" "fr u v" "abs v = put_back m (put_back n ((if pinned then unpinned m else id) (overwritten m (cont (abs u) n) (abs u))))" by blast
  have "abs v = (if pinned then unpinned m else id) (overwritten m (cont (abs s) n) (abs s))"
    unfolding v(4) u(9) using assms(2-4) by (cases pinned) (simp_all add: bview_steps takable_def fun_upd_idem fun_upd_twist)
  then show thesis using that [OF u(1-3,5) v(2)] fr_trans [OF u(5) v(3)] v(1) by blast
qed

end

section \<open>The buffer cache is a block store\<close>

definition store_ok :: "u32 \<Rightarrow> 'a kbio_scheme \<Rightarrow> bool" where
  "store_ok d s \<longleftrightarrow> cache_ok d s \<and> held s = [] \<and> cur s \<noteq> None"

definition view :: "u32 \<Rightarrow> 'a kbio_scheme \<Rightarrow> bview" where
  "view d s = \<lparr>cont = content d s, nrefs = brefs d s, owner = holder d s, on_disk = disk s, written = disk_log s\<rparr>"

definition mypid :: "'a kstate_scheme \<Rightarrow> i32" where
  "mypid s = pid (procs s (the (cur s)))"

lemma view_sel [simp]: "cont (view d s) = content d s" "nrefs (view d s) = brefs d s" "owner (view d s) = holder d s"
  "on_disk (view d s) = disk s" "written (view d s) = disk_log s"
  by (simp_all add: view_def)

lemma store_frame: "store_ok d s \<Longrightarrow> bframe s t \<Longrightarrow> cache_ok d t \<Longrightarrow> store_ok d t"
  by (simp add: store_ok_def bframe_fields)

lemma mypid_frame: "bframe s t \<Longrightarrow> mypid t = mypid s"
  by (simp add: mypid_def bframe_fields)

lemma change_slots: "buffer_change d s t b n \<Longrightarrow> \<forall>m. brefs d s m \<noteq> 0 \<longrightarrow> slot d t m = slot d s m"
  using change_slot_kept by blast

lemma store_read:
  assumes "store_ok d s" and "takable NBUF (view d s) n"
  shows "\<exists>b t. bread d n s = Done b t \<and> store_ok d t \<and> bframe s t \<and> slot d t n = Some b
    \<and> view d t = taken (mypid s) n (view d s) \<and> (\<forall>m. brefs d s m \<noteq> 0 \<longrightarrow> slot d t m = slot d s m)"
proof -
  obtain p where p: "cur s = Some p" "held s = []" "cache_ok d s" using assms(1) by (auto simp: store_ok_def)
  have n: "holder d s n = None" "brefs d s n < 2 ^ 32 - 1" "brefs d s n \<noteq> 0 \<or> card {m. brefs d s m \<noteq> 0} < NBUF"
    using assms(2) by (simp_all add: takable_def)
  obtain b t where r: "bread d n s = Done b t" "buffer_change d s t b n" "disk t = disk s" "disk_log t = disk_log s" "bframe s t"
    "content d t = content d s" "brefs d t = (brefs d s)(n := Suc (brefs d s n))" "holder d t = (holder d s)(n := Some (pid (procs s p)))"
    by (rule bread_done [OF p(3,1,2) n])
  have "view d t = taken (mypid s) n (view d s)" using r p(1) by (simp add: view_def taken_def mypid_def)
  then show ?thesis
    using r(1) store_frame [OF assms(1) r(5) change_cache_ok [OF r(2)]] r(5) change_slot [OF r(2)] change_slots [OF r(2)] by blast
qed

lemma store_put:
  assumes "store_ok d s" and "slot d s n = Some b" and "brefs d s n \<noteq> 0"
  shows "store_ok d (upd_buf b (\<lambda>q. q\<lparr>bdata := x\<rparr>) s) \<and> bframe s (upd_buf b (\<lambda>q. q\<lparr>bdata := x\<rparr>) s)
    \<and> view d (upd_buf b (\<lambda>q. q\<lparr>bdata := x\<rparr>) s) = (view d s)\<lparr>cont := (content d s)(n := x)\<rparr>
    \<and> (\<forall>m. brefs d s m \<noteq> 0 \<longrightarrow> slot d (upd_buf b (\<lambda>q. q\<lparr>bdata := x\<rparr>) s) m = slot d s m)"
proof -
  have c: "cache_ok d s" using assms(1) by (simp add: store_ok_def)
  note r = put_block [OF c assms(2,3), of x]
  have "view d (upd_buf b (\<lambda>q. q\<lparr>bdata := x\<rparr>) s) = (view d s)\<lparr>cont := (content d s)(n := x)\<rparr>" unfolding view_def r by simp
  then show ?thesis using store_frame [OF assms(1) r(7) change_cache_ok [OF r(1)]] r(7) change_slots [OF r(1)] by blast
qed

lemma store_write:
  assumes "store_ok d s" and "slot d s n = Some b" and "holder d s n = Some (mypid s)"
  shows "\<exists>t. bwrite b s = Done () t \<and> store_ok d t \<and> bframe s t \<and> view d t = stored n (view d s)
    \<and> (\<forall>m. brefs d s m \<noteq> 0 \<longrightarrow> slot d t m = slot d s m)"
proof -
  obtain p where p: "cur s = Some p" "held s = []" "cache_ok d s" "holder d s n = Some (pid (procs s p))"
    using assms by (auto simp: store_ok_def mypid_def)
  obtain t where r: "bwrite b s = Done () t" "buffer_change d s t b n" "content d t = content d s" "brefs d t = brefs d s"
    "holder d t = holder d s" "disk t = (disk s)(n := content d s n)" "disk_log t = disk_log s @ [(n, content d s n)]" "bframe s t"
    by (rule bwrite_done [OF p(3,1,2) assms(2) p(4)])
  have "view d t = stored n (view d s)" using r by (simp add: view_def stored_def)
  then show ?thesis using r(1) store_frame [OF assms(1) r(8) change_cache_ok [OF r(2)]] r(8) change_slots [OF r(2)] by blast
qed

lemma store_release:
  assumes "store_ok d s" and "slot d s n = Some b" and "holder d s n = Some (mypid s)" and "brefs d s n = 1 \<Longrightarrow> content d s n = disk s n"
  shows "\<exists>t. brelse b s = Done () t \<and> store_ok d t \<and> bframe s t \<and> view d t = put_back n (view d s)
    \<and> (\<forall>m. brefs d s m \<noteq> 0 \<longrightarrow> slot d t m = slot d s m)"
proof -
  obtain p where p: "cur s = Some p" "held s = []" "cache_ok d s" "holder d s n = Some (pid (procs s p))"
    using assms by (auto simp: store_ok_def mypid_def)
  obtain t where r: "brelse b s = Done () t" "cache_ok d t" "slot d t = slot d s" "content d t = content d s"
    "brefs d t = (brefs d s)(n := brefs d s n - 1)" "holder d t = (holder d s)(n := None)" "disk t = disk s" "disk_log t = disk_log s" "bframe s t"
    by (rule brelse_done [OF p(3,1,2) assms(2) p(4) assms(4)])
  have "view d t = put_back n (view d s)" using r by (simp add: view_def put_back_def)
  then show ?thesis using r(1,3,9) store_frame [OF assms(1) r(9,2)] by simp
qed

lemma store_unpin:
  assumes "store_ok d s" and "slot d s n = Some b" and "1 < brefs d s n"
  shows "\<exists>t. bunpin b s = Done () t \<and> store_ok d t \<and> bframe s t \<and> view d t = unpinned n (view d s)
    \<and> (\<forall>m. brefs d s m \<noteq> 0 \<longrightarrow> slot d t m = slot d s m)"
proof -
  have p: "held s = []" "cache_ok d s" "brefs d s n \<noteq> 0" using assms(1,3) by (auto simp: store_ok_def)
  have "brefs d s n \<noteq> 1" using assms(3) by simp
  then obtain t where r: "bunpin b s = Done () t" "buffer_change d s t b n" "content d t = content d s"
    "brefs d t = (brefs d s)(n := brefs d s n - 1)" "holder d t = holder d s" "disk t = disk s" "disk_log t = disk_log s" "bframe s t"
    using bunpin_done [OF p(2,1) assms(2) p(3)] by metis
  have "view d t = unpinned n (view d s)" using r by (simp add: view_def unpinned_def)
  then show ?thesis using r(1) store_frame [OF assms(1) r(8) change_cache_ok [OF r(2)]] r(8) change_slots [OF r(2)] by blast
qed

interpretation cache: block_store "store_ok d" "view d" "slot d" mypid bframe NBUF "\<lambda>b s. bdata (bufs s b)"
  "\<lambda>b x. upd_buf b (\<lambda>q. q\<lparr>bdata := x\<rparr>)" "bread d" bwrite brelse bunpin for d
proof (unfold_locales, goal_cases)
  case 1 show ?case by simp
next
  case 2 then show ?case by (rule bframe_trans)
next
  case 3 then show ?case by (rule mypid_frame)
next
  case 4 then show ?case by (simp add: content_slot store_ok_def)
next
  case 5 then show ?case by (simp add: content_unused store_ok_def)
next
  case 6 then show ?case unfolding view_sel by (rule store_read)
next
  case 7 then show ?case unfolding view_sel by (rule store_put)
next
  case 8 then show ?case unfolding view_sel by (rule store_write)
next
  case 9 then show ?case unfolding view_sel by (intro store_release)
next
  case 10 then show ?case unfolding view_sel by (rule store_unpin)
qed

end
