(* ===== verification/Log_Facts.thy ===== *)
theory Log_Facts
  imports Log Block_Store
begin

text \<open>
  The log makes transactions atomic. \<^verbatim>\<open>commit\<close> is followed write by write on the view of the block store;
  recovery is characterised by what it makes of any disk, and the two are put together for a crash
  after any number of the writes.
\<close>

section \<open>Header blocks\<close>

lemma length_put32 [simp]: "i + 4 \<le> length b \<Longrightarrow> length (put32 i v b) = length b"
  by (simp add: put32_def)

lemma get32_put32: "i + 4 \<le> length b \<Longrightarrow> get32 i (put32 i v b) = v"
  by (simp add: get32_def put32_def bytes_word_roundtrip)

lemma get32_put32_other:
  assumes "i + 4 \<le> length b" and "j + 4 \<le> i \<or> i + 4 \<le> j"
  shows "get32 j (put32 i v b) = get32 j b"
proof -
  have "take 4 (drop j (put32 i v b)) = take 4 (drop j b)"
    using assms(2)
  proof
    assume "j + 4 \<le> i"
    then show ?thesis using assms(1) by (simp add: put32_def drop_take min_def)
  next
    assume "i + 4 \<le> j"
    then show ?thesis using assms(1) by (simp add: put32_def)
  qed
  then show ?thesis by (simp add: get32_def)
qed

lemma put_blocks_length: "(\<forall>i\<in>set is. 4 * i + 8 \<le> length d) \<Longrightarrow> length (put_blocks is f d) = length d"
  by (induction "is" arbitrary: d) simp_all

lemma put_blocks_other:
  "(\<forall>i\<in>set is. 4 * i + 8 \<le> length d \<and> (j + 4 \<le> 4 + 4 * i \<or> 4 * i + 8 \<le> j)) \<Longrightarrow> get32 j (put_blocks is f d) = get32 j d"
proof (induction "is" arbitrary: d)
  case (Cons i "is")
  then have "get32 j (put32 (4 + 4 * i) (f i) d) = get32 j d" by (intro get32_put32_other) auto
  with Cons show ?case by simp
qed simp

lemma put_blocks_get:
  "(\<forall>i\<in>set is. 4 * i + 8 \<le> length d) \<Longrightarrow> k \<in> set is \<Longrightarrow> get32 (4 + 4 * k) (put_blocks is f d) = f k"
proof (induction "is" arbitrary: d)
  case (Cons i "is")
  show ?case
  proof (cases "k \<in> set is")
    case True
    then show ?thesis using Cons by simp
  next
    case False
    then have "k = i" using Cons.prems by simp
    have "\<forall>i'\<in>set is. 4 * i' + 8 \<le> length (put32 (4 + 4 * i) (f i) d) \<and> (4 + 4 * k + 4 \<le> 4 + 4 * i' \<or> 4 * i' + 8 \<le> 4 + 4 * k)"
    proof
      fix i' assume i: "i' \<in> set is"
      with False have "i' \<noteq> k" by blast
      then have "4 + 4 * k + 4 \<le> 4 + 4 * i' \<or> 4 * i' + 8 \<le> 4 + 4 * k" by arith
      then show "4 * i' + 8 \<le> length (put32 (4 + 4 * i) (f i) d) \<and> (4 + 4 * k + 4 \<le> 4 + 4 * i' \<or> 4 * i' + 8 \<le> 4 + 4 * k)"
        using i Cons.prems by simp
    qed
    from put_blocks_other [OF this] show ?thesis using \<open>k = i\<close> Cons.prems by (simp add: get32_put32)
  qed
qed simp

definition header :: "i32 \<Rightarrow> (nat \<Rightarrow> i32) \<Rightarrow> block \<Rightarrow> block" where
  "header n f d = put_blocks [0..<nat (sint n)] f (put32 0 n d)"

lemma header_read:
  assumes "4 + 4 * nat (sint n) \<le> length d"
  shows "get32 0 (header n f d) = n" "i < nat (sint n) \<Longrightarrow> get32 (4 + 4 * i) (header n f d) = f i" "length (header n f d) = length d"
  using assms put_blocks_other [of "[0..<nat (sint n)]" "put32 0 n d" 0 f] put_blocks_get [of "[0..<nat (sint n)]" "put32 0 n d" i f]
    put_blocks_length [of "[0..<nat (sint n)]" "put32 0 n d" f]
  by (auto simp: header_def get32_put32)

section \<open>Frames\<close>

text \<open>The log also prints. What its operations change is what the cache changes, and the output.\<close>

definition lframe :: "'a klog_scheme \<Rightarrow> 'a klog_scheme \<Rightarrow> bool" where
  "lframe s t \<longleftrightarrow> (\<exists>c. bframe (s\<lparr>uart_out := c\<rparr>) t)"

lemma bframe_log:
  fixes s t :: "'a klog_scheme"
  assumes "bframe s t"
  shows "log_start t = log_start s" "log_dev t = log_dev s" "lh_n t = lh_n s" "lh_block t = lh_block s" "klog.more t = klog.more s"
    "log_outstanding t = log_outstanding s" "log_committing t = log_committing s"
  using bframe_fields(3) [OF assms] by (cases s; cases t; simp)+

lemma bframe_alt:
  "bframe s t \<longleftrightarrow> (\<exists>ps sl bf dk dl. wakes (procs s) ps \<and> (\<forall>i. sl (SL_inode i) = slocks s (SL_inode i))
     \<and> t = s\<lparr>procs := ps, slocks := sl, bufs := bf, disk := dk, disk_log := dl\<rparr>)"
proof
  assume "bframe s t"
  then show "\<exists>ps sl bf dk dl. wakes (procs s) ps \<and> (\<forall>i. sl (SL_inode i) = slocks s (SL_inode i))
     \<and> t = s\<lparr>procs := ps, slocks := sl, bufs := bf, disk := dk, disk_log := dl\<rparr>"
    unfolding bframe_def by (intro exI [of _ "procs t"] exI [of _ "slocks t"] exI [of _ "bufs t"] exI [of _ "disk t"] exI [of _ "disk_log t"])
next
  assume "\<exists>ps sl bf dk dl. wakes (procs s) ps \<and> (\<forall>i. sl (SL_inode i) = slocks s (SL_inode i))
     \<and> t = s\<lparr>procs := ps, slocks := sl, bufs := bf, disk := dk, disk_log := dl\<rparr>"
  then show "bframe s t" by (elim exE conjE) (simp add: bframe_def)
qed

lemma bframe_uart:
  assumes "bframe s t"
  shows "bframe (s\<lparr>uart_out := c\<rparr>) (t\<lparr>uart_out := c\<rparr>)"
proof -
  obtain ps sl bf dk dl where "wakes (procs s) ps" "\<forall>i. sl (SL_inode i) = slocks s (SL_inode i)"
      "t = s\<lparr>procs := ps, slocks := sl, bufs := bf, disk := dk, disk_log := dl\<rparr>"
    using assms unfolding bframe_alt by (elim exE conjE)
  then show ?thesis by (simp add: bframe_def)
qed

lemma bframe_lframe: "bframe s t \<Longrightarrow> lframe s t"
  unfolding lframe_def by (rule exI [of _ "uart_out s"]) simp

lemma lframe_refl: "lframe s s"
  by (rule bframe_lframe) simp

lemma lframe_print: "lframe s (s\<lparr>uart_out := c\<rparr>)"
  unfolding lframe_def by (rule exI [of _ c]) simp

lemma lframe_trans:
  assumes "lframe s t" and "lframe t u"
  shows "lframe s u"
proof -
  obtain c c' where "bframe (s\<lparr>uart_out := c\<rparr>) t" "bframe (t\<lparr>uart_out := c'\<rparr>) u" using assms by (auto simp: lframe_def)
  then have "bframe (s\<lparr>uart_out := c'\<rparr>) (t\<lparr>uart_out := c'\<rparr>)" using bframe_uart [of "s\<lparr>uart_out := c\<rparr>" t c'] by simp
  then show ?thesis using bframe_trans \<open>bframe (t\<lparr>uart_out := c'\<rparr>) u\<close> unfolding lframe_def by blast
qed

lemma lframe_log:
  assumes "lframe s t"
  shows "log_start t = log_start s" "log_dev t = log_dev s" "lh_n t = lh_n s" "lh_block t = lh_block s" "klog.more t = klog.more s"
    "log_outstanding t = log_outstanding s" "log_committing t = log_committing s"
    "panicked t = panicked s" "held t = held s" "cur t = cur s"
proof -
  obtain c where b: "bframe (s\<lparr>uart_out := c\<rparr>) t" using assms by (auto simp: lframe_def)
  show "log_start t = log_start s" "log_dev t = log_dev s" "lh_n t = lh_n s" "lh_block t = lh_block s" "klog.more t = klog.more s"
    "log_outstanding t = log_outstanding s" "log_committing t = log_committing s"
    "panicked t = panicked s" "held t = held s" "cur t = cur s"
    using bframe_log [OF b] bframe_fields [OF b] by simp_all
qed

text \<open>Neither the output nor the header in memory is part of the store.\<close>

lemma store_cong:
  assumes "bufs t = bufs s" and "disk t = disk s" and "disk_log t = disk_log s" and "slocks t = slocks s" and "held t = held s" and "cur t = cur s"
  shows "store_ok d t = store_ok d s" "view d t = view d s" "slot d t = slot d s"
  using view_cong(1-4) [of t s d] assms by (simp_all add: store_ok_def cache_ok_def view_def)

lemma store_upd [simp]:
  "store_ok d (s\<lparr>uart_out := c\<rparr>) = store_ok d s" "view d (s\<lparr>uart_out := c\<rparr>) = view d s" "slot d (s\<lparr>uart_out := c\<rparr>) = slot d s"
  by (rule store_cong; simp)+

lemma store_upd_lh [simp]:
  "store_ok d (s\<lparr>lh_n := c\<rparr>) = store_ok d s" "view d (s\<lparr>lh_n := c\<rparr>) = view d s" "slot d (s\<lparr>lh_n := c\<rparr>) = slot d s" "mypid (s\<lparr>lh_n := c\<rparr>) = mypid s"
  "store_ok d (s\<lparr>lh_block := f\<rparr>) = store_ok d s" "view d (s\<lparr>lh_block := f\<rparr>) = view d s" "slot d (s\<lparr>lh_block := f\<rparr>) = slot d s"
  "mypid (s\<lparr>lh_block := f\<rparr>) = mypid s"
  by (rule store_cong; simp | simp add: mypid_def)+

section \<open>The header on disk\<close>

lemma write_head_done:
  assumes "store_ok d s" and "log_dev s = d" and "takable NBUF (view d s) (log_start s)"
  obtains t where "write_head s = Done () t" "store_ok d t" "lframe s t"
    "view d t = overwritten (log_start s) (header (lh_n s) (lh_block s) (content d s (log_start s))) (view d s)"
proof -
  obtain b t where t: "bread d (log_start s) s = Done b t" "bframe s t" "bdata (bufs t b) = content d s (log_start s)"
    and w: "\<And>x. \<exists>u. bnd (bwrite b (upd_buf b (\<lambda>q. q\<lparr>bdata := x\<rparr>) t)) (\<lambda>_. brelse b) = Done () u \<and> store_ok d u \<and> bframe s u
      \<and> view d u = overwritten (log_start s) x (view d s)"
    using cache.overwrite [OF assms(1,3)] by (metis view_sel(1))
  obtain u where u: "bnd (bwrite b (upd_buf b (\<lambda>q. q\<lparr>bdata := header (lh_n s) (lh_block s) (content d s (log_start s))\<rparr>) t)) (\<lambda>_. brelse b) = Done () u"
    "store_ok d u" "bframe s u" "view d u = overwritten (log_start s) (header (lh_n s) (lh_block s) (content d s (log_start s))) (view d s)"
    using w by blast
  have "write_head s = Done () u"
    using u(1) t bframe_log [OF t(2)] assms(2) by (simp add: write_head_def set_bdata_def header_def Let_def)
  then show thesis using that u bframe_lframe [OF u(3)] by blast
qed

lemma read_head_done:
  assumes "store_ok d s" and "log_dev s = d" and "takable NBUF (view d s) (log_start s)" and "brefs d s (log_start s) = 0"
  defines "h \<equiv> disk s (log_start s)"
  obtains t where "read_head s = Done () t" "store_ok d t" "view d t = view d s" "lh_n t = get32 0 h"
    "\<And>i. int i < sint (get32 0 h) \<Longrightarrow> lh_block t i = get32 (4 + 4 * i) h" "log_dev t = d" "log_start t = log_start s" "panicked t = panicked s"
proof -
  obtain b t where t: "bread d (log_start s) s = Done b t" "store_ok d t" "bframe s t" "slot d t (log_start s) = Some b"
    "view d t = taken (mypid s) (log_start s) (view d s)"
    using store_read [OF assms(1,3)] by blast
  have c: "content d s (log_start s) = h"
    using cache.clean [OF assms(1), of "log_start s"] assms(4) by (simp add: h_def)
  have v: "brefs d t (log_start s) = 1" "holder d t (log_start s) = Some (mypid s)" "content d t = content d s" "disk t = disk s"
    using arg_cong [OF t(5), of nrefs] arg_cong [OF t(5), of owner] arg_cong [OF t(5), of cont] arg_cong [OF t(5), of on_disk] assms(4)
    by (simp_all add: taken_def)
  have g: "bdata (bufs t b) = h" using cache.get [OF t(2,4)] v c by simp
  let ?f = "\<lambda>i. if int i < sint (get32 0 h) then get32 (4 + 4 * i) h else lh_block t i"
  let ?t = "t\<lparr>lh_n := get32 0 h, lh_block := ?f\<rparr>"
  have s: "store_ok d ?t" "view d ?t = view d t" "slot d ?t = slot d t" "mypid ?t = mypid t" using t(2) by simp_all
  have "\<exists>u. brelse b ?t = Done () u \<and> store_ok d u \<and> bframe ?t u \<and> view d u = put_back (log_start s) (view d ?t)"
    using store_release [of d ?t "log_start s" b] s t(4) v c mypid_frame [OF t(3)] view_sel [of d ?t, unfolded s(2)]
    by (simp add: h_def) blast
  then obtain u where u: "brelse b ?t = Done () u" "store_ok d u" "bframe ?t u" "view d u = put_back (log_start s) (view d t)"
    unfolding s(2) by blast
  have "view d u = view d s"
    unfolding u(4) t(5) using assms(3,4) by (simp add: bview_steps takable_def fun_upd_idem view_def)
  moreover have "read_head s = Done () u"
    using t(1) g u(1) assms(2) by (simp add: read_head_def Let_def cong: if_cong)
  ultimately show thesis
    using that u(2) bframe_log [OF u(3)] bframe_fields [OF u(3)] bframe_log [OF t(3)] bframe_fields [OF t(3)] assms(2) by simp
qed

section \<open>Copying into the log and home\<close>

abbreviation log_blk :: "'a klog_scheme \<Rightarrow> nat \<Rightarrow> u32" where
  "log_blk s i \<equiv> log_start s + of_nat i + 1"

lemma takable_overwritten [simp]: "takable cap (overwritten n x v) m = takable cap v m"
  by (simp add: takable_def overwritten_def)

lemma takable_unpinned: "takable cap v m \<Longrightarrow> m \<noteq> n \<Longrightarrow> takable cap (unpinned n v) m"
proof -
  assume a: "takable cap v m" "m \<noteq> n"
  have "card {k. nrefs (unpinned n v) k \<noteq> 0} \<le> card {k. nrefs v k \<noteq> 0}"
    by (rule card_mono) (auto simp: unpinned_def split: if_splits)
  then have "nrefs v m \<noteq> 0 \<or> card {k. nrefs (unpinned n v) k \<noteq> 0} < cap" using a by (auto simp: takable_def)
  then show ?thesis using a unfolding takable_def by (simp add: unpinned_def)
qed

lemma write_log_loop_done:
  assumes "store_ok d s" and "log_dev s = d"
    and "\<forall>i\<in>set ts. takable NBUF (view d s) (log_blk s i) \<and> takable NBUF (view d s) (lh_block s i) \<and> brefs d s (lh_block s i) \<noteq> 0"
    and "\<forall>i\<in>set ts. \<forall>j\<in>set ts. log_blk s i \<noteq> lh_block s j"
  shows "\<exists>t. write_log_loop ts s = Done () t \<and> store_ok d t \<and> lframe s t
    \<and> view d t = fold (\<lambda>i. overwritten (log_blk s i) (content d s (lh_block s i))) ts (view d s)"
  using assms
proof (induction ts arbitrary: s)
  case Nil
  then show ?case by (simp add: lframe_refl)
next
  case (Cons i ts)
  let ?n = "log_blk s i" and ?m = "lh_block s i"
  have pre: "takable NBUF (view d s) ?n" "takable NBUF (view d s) ?m" "?n \<noteq> ?m" "nrefs (view d s) ?m \<noteq> 0" using Cons.prems(3,4) by auto
  obtain b t c u v where r: "bread d ?n s = Done b t" "bframe s t" "bread d ?m t = Done c u" "store_ok d v" "bframe s v"
    "view d v = overwritten ?n (cont (view d s) ?m) (view d s)"
    "bnd (bwrite b (upd_buf b (\<lambda>q. q\<lparr>bdata := bdata (bufs u c)\<rparr>) u)) (\<lambda>_ s. bnd (brelse c s) (\<lambda>_ s. brelse b s)) = Done () v"
    by (rule cache.copy_to_log [OF Cons.prems(1) pre])
  note l = bframe_log [OF r(2)] bframe_log [OF r(5)]
  have "bnd (bwrite b (upd_buf b (\<lambda>q. q\<lparr>bdata := bdata (bufs u c)\<rparr>) u)) (\<lambda>_ s. bnd (brelse c s) (\<lambda>_ s. bnd (brelse b s) (\<lambda>_. write_log_loop ts))) = write_log_loop ts v"
    using arg_cong [OF r(7), of "\<lambda>m. bnd m (\<lambda>_. write_log_loop ts)"] by (simp add: bnd_assoc)
  then have e: "write_log_loop (i # ts) s = write_log_loop ts v"
    using r(1,3) l Cons.prems(2) by (simp add: set_bdata_def)
  have nr: "brefs d v = brefs d s" using arg_cong [OF r(6), of nrefs] by (simp add: overwritten_def)
  have c: "content d v (lh_block s j) = content d s (lh_block s j)" if "j \<in> set ts" for j
    using arg_cong [OF r(6), of cont] Cons.prems(4) that by (auto simp: overwritten_def)
  have "\<exists>w. write_log_loop ts v = Done () w \<and> store_ok d w \<and> lframe v w
    \<and> view d w = fold (\<lambda>i. overwritten (log_blk v i) (content d v (lh_block v i))) ts (view d v)"
    using Cons.prems(2-4) l nr by (intro Cons.IH [OF r(4)]) (simp_all add: r(6))
  then obtain w where w: "write_log_loop ts v = Done () w" "store_ok d w" "lframe v w"
    "view d w = fold (\<lambda>i. overwritten (log_blk v i) (content d v (lh_block v i))) ts (view d v)" by blast
  have "view d w = fold (\<lambda>i. overwritten (log_blk s i) (content d s (lh_block s i))) (i # ts) (view d s)"
    unfolding w(4) fold_simps using l r(6) c by (intro fold_cong) simp_all
  then show ?case using e w lframe_trans [OF bframe_lframe [OF r(5)]] by auto
qed

definition home :: "bool \<Rightarrow> u32 \<Rightarrow> block \<Rightarrow> bview \<Rightarrow> bview" where
  "home recovering m x v = (if recovering then id else unpinned m) (overwritten m x v)"

text \<open>What the installation of the log blocks \<open>ts\<close> relies on.\<close>

definition can_install :: "bool \<Rightarrow> u32 \<Rightarrow> nat list \<Rightarrow> 'a klog_scheme \<Rightarrow> bool" where
  "can_install recovering d ts s \<longleftrightarrow> store_ok d s \<and> log_dev s = d \<and> (recovering \<longrightarrow> panicked s = 0)
     \<and> (\<forall>i\<in>set ts. takable NBUF (view d s) (log_blk s i) \<and> takable NBUF (view d s) (lh_block s i)
          \<and> (if recovering then Suc (card {k. brefs d s k \<noteq> 0}) < NBUF else brefs d s (lh_block s i) \<noteq> 0))
     \<and> (\<forall>i\<in>set ts. \<forall>j\<in>set ts. log_blk s i \<noteq> lh_block s j) \<and> distinct (map (lh_block s) ts)"

lemma install_print:
  assumes "can_install recovering d ts s"
  shows "\<exists>c. (if recovering then printf f ap s else Done () s) = Done () (s\<lparr>uart_out := c\<rparr>)"
proof (cases recovering)
  case True
  then show ?thesis using assms printf_prints [of s f ap] by (auto simp: can_install_def prints_def store_ok_def)
qed (auto intro: exI [of _ "uart_out s"])

lemma install_step:
  assumes "can_install recovering d (i # ts) s"
  obtains v where "install_trans_loop recovering (i # ts) s = install_trans_loop recovering ts v" "can_install recovering d ts v" "lframe s v"
    "view d v = home recovering (lh_block s i) (content d s (log_blk s i)) (view d s)"
proof -
  let ?n = "log_blk s i" and ?m = "lh_block s i"
  obtain c where c: "(if recovering then printf (str ''recovering tail %d dst %d'' @ [10]) [Val (of_nat i), Val (scast ?m)] s else Done () s)
      = Done () (s\<lparr>uart_out := c\<rparr>)" (is "?print = Done () ?s") using install_print [OF assms] by blast
  have ok: "store_ok d ?s" "log_dev s = d" using assms by (simp_all add: can_install_def)
  have pre: "takable NBUF (view d ?s) ?n" "takable NBUF (view d ?s) ?m" "?n \<noteq> ?m"
      "nrefs (view d ?s) ?m \<noteq> 0 \<or> Suc (card {k. nrefs (view d ?s) k \<noteq> 0}) < NBUF" "\<not> recovering \<Longrightarrow> nrefs (view d ?s) ?m \<noteq> 0"
    using assms by (auto simp: can_install_def split: if_splits)
  obtain b t e u v where r: "bread d ?n ?s = Done b t" "bframe ?s t" "bread d ?m t = Done e u" "bframe ?s u" "store_ok d v" "bframe ?s v"
    "view d v = (if \<not> recovering then unpinned ?m else id) (overwritten ?m (cont (view d ?s) ?n) (view d ?s))"
    "bnd (bwrite e (upd_buf e (\<lambda>q. q\<lparr>bdata := bdata (bufs u b)\<rparr>) u)) (\<lambda>_ s. bnd (if \<not> recovering then bunpin e s else Done () s)
      (\<lambda>_ s. bnd (brelse b s) (\<lambda>_ s. brelse e s))) = Done () v"
    by (rule cache.copy_home [OF ok(1) pre])
  note l = bframe_log [OF r(2)] bframe_log [OF r(6)]
  have "bnd (bwrite e (upd_buf e (\<lambda>q. q\<lparr>bdata := bdata (bufs u b)\<rparr>) u)) (\<lambda>_ s. bnd (if \<not> recovering then bunpin e s else Done () s)
      (\<lambda>_ s. bnd (brelse b s) (\<lambda>_ s. bnd (brelse e s) (\<lambda>_. install_trans_loop recovering ts)))) = install_trans_loop recovering ts v"
    using arg_cong [OF r(8), of "\<lambda>m. bnd m (\<lambda>_. install_trans_loop recovering ts)"] by (simp only: bnd_assoc bnd.simps)
  then have 1: "install_trans_loop recovering (i # ts) s = install_trans_loop recovering ts v"
    unfolding install_trans_loop.simps c using r(1,3) l ok(2) by (simp add: set_bdata_def)
  have 2: "view d v = home recovering ?m (content d s ?n) (view d s)"
    using r(7) view_sel(1) [of d ?s] by (simp add: home_def split: if_splits)
  have 3: "lframe s v" unfolding lframe_def using r(6) by blast
  have h: "takable NBUF (view d v) k" if "takable NBUF (view d s) k" "k \<noteq> ?m" for k
    using that takable_unpinned [of NBUF "overwritten ?m (content d s ?n) (view d s)" k ?m] by (simp add: 2 home_def)
  have nr: "brefs d v = (if recovering then brefs d s else (brefs d s)(?m := brefs d s ?m - 1))"
    using arg_cong [OF 2, of nrefs] by (simp add: home_def bview_steps split: if_splits)
  have ne: "lh_block s j \<noteq> ?m" "log_blk s j \<noteq> ?m" if "j \<in> set ts" for j
  proof -
    have "?m \<notin> lh_block s ` set ts" "\<forall>x\<in>set (i # ts). \<forall>y\<in>set (i # ts). log_blk s x \<noteq> lh_block s y"
      using assms by (simp_all add: can_install_def)
    then show "lh_block s j \<noteq> ?m" "log_blk s j \<noteq> ?m" using that by (metis imageI) (meson \<open>\<forall>x\<in>set (i # ts). \<forall>y\<in>set (i # ts). log_blk s x \<noteq> lh_block s y\<close> list.set_intros that)
  qed
  have lg: "log_start v = log_start s" "log_dev v = log_dev s" "lh_block v = lh_block s" "panicked v = panicked s" using lframe_log [OF 3] by simp_all
  have "can_install recovering d ts v"
    unfolding can_install_def lg
  proof (intro conjI ballI)
    fix j assume j: "j \<in> set ts"
    have "takable NBUF (view d s) (log_blk s j)" "takable NBUF (view d s) (lh_block s j)"
      using assms j by (simp_all add: can_install_def)
    then show "takable NBUF (view d v) (log_blk s j)" "takable NBUF (view d v) (lh_block s j)"
      using ne [OF j] h by simp_all
    show "if recovering then Suc (card {k. brefs d v k \<noteq> 0}) < NBUF else brefs d v (lh_block s j) \<noteq> 0"
      using assms j ne [OF j] unfolding can_install_def nr by auto
  qed (use assms r(5) in \<open>simp_all add: can_install_def\<close>)
  with 1 2 3 show thesis using that by blast
qed

lemma install_trans_loop_done:
  assumes "can_install recovering d ts s"
  shows "\<exists>t. install_trans_loop recovering ts s = Done () t \<and> store_ok d t \<and> lframe s t
    \<and> view d t = fold (\<lambda>i. home recovering (lh_block s i) (content d s (log_blk s i))) ts (view d s)"
  using assms
proof (induction ts arbitrary: s)
  case Nil
  then show ?case by (simp add: lframe_refl can_install_def)
next
  case (Cons i ts)
  obtain v where v: "install_trans_loop recovering (i # ts) s = install_trans_loop recovering ts v" "can_install recovering d ts v" "lframe s v"
    "view d v = home recovering (lh_block s i) (content d s (log_blk s i)) (view d s)"
    by (rule install_step [OF Cons.prems])
  from Cons.IH [OF v(2)] obtain t where t: "install_trans_loop recovering ts v = Done () t" "store_ok d t" "lframe v t"
    "view d t = fold (\<lambda>i. home recovering (lh_block v i) (content d v (log_blk v i))) ts (view d v)" by blast
  have "content d v (log_blk s j) = content d s (log_blk s j)" if "j \<in> set ts" for j
    using arg_cong [OF v(4), of cont] Cons.prems that by (auto simp: home_def bview_steps can_install_def split: if_splits)
  then have "view d t = fold (\<lambda>i. home recovering (lh_block s i) (content d s (log_blk s i))) (i # ts) (view d s)"
    unfolding t(4) fold_simps using lframe_log [OF v(3)] v(4) by (intro fold_cong) simp_all
  then show ?case using v(1) t lframe_trans [OF v(3)] by auto
qed

section \<open>Sequences of writes\<close>

definition apply_writes :: "(u32 \<times> block) list \<Rightarrow> (u32 \<Rightarrow> block) \<Rightarrow> u32 \<Rightarrow> block" where
  "apply_writes ws D = fold (\<lambda>(n, x) D. D(n := x)) ws D"

lemma apply_writes_simps [simp]:
  "apply_writes [] D = D" "apply_writes (w # ws) D = apply_writes ws (D(fst w := snd w))" "apply_writes (ws @ vs) D = apply_writes vs (apply_writes ws D)"
  by (simp_all add: apply_writes_def case_prod_beta)

lemma apply_writes_other: "m \<notin> fst ` set ws \<Longrightarrow> apply_writes ws D m = D m"
  by (induction ws arbitrary: D) auto

lemma apply_writes_in: "distinct (map fst ws) \<Longrightarrow> (m, x) \<in> set ws \<Longrightarrow> apply_writes ws D m = x"
proof (induction ws arbitrary: D)
  case (Cons w ws)
  show ?case
  proof (cases "w = (m, x)")
    case True
    then show ?thesis using Cons.prems by (simp add: apply_writes_other)
  next
    case False
    then show ?thesis using Cons by simp
  qed
qed simp

lemma fold_overwritten:
  "fold (\<lambda>i. overwritten (f i) (g i)) ts v = v\<lparr>cont := apply_writes (map (\<lambda>i. (f i, g i)) ts) (cont v),
     on_disk := apply_writes (map (\<lambda>i. (f i, g i)) ts) (on_disk v), written := written v @ map (\<lambda>i. (f i, g i)) ts\<rparr>"
  by (induction ts arbitrary: v) (simp_all add: overwritten_def)

lemma fold_home:
  "\<exists>r. fold (\<lambda>i. home recovering (f i) (g i)) ts v = v\<lparr>cont := apply_writes (map (\<lambda>i. (f i, g i)) ts) (cont v), nrefs := r,
     on_disk := apply_writes (map (\<lambda>i. (f i, g i)) ts) (on_disk v), written := written v @ map (\<lambda>i. (f i, g i)) ts\<rparr>
     \<and> (\<forall>n. n \<notin> f ` set ts \<longrightarrow> r n = nrefs v n) \<and> (\<forall>n. r n \<le> nrefs v n) \<and> (recovering \<longrightarrow> r = nrefs v)"
proof (induction ts arbitrary: v)
  case Nil
  show ?case by (intro exI [of _ "nrefs v"]) simp
next
  case (Cons i ts)
  obtain r where r: "fold (\<lambda>i. home recovering (f i) (g i)) ts (home recovering (f i) (g i) v) = (home recovering (f i) (g i) v)
      \<lparr>cont := apply_writes (map (\<lambda>i. (f i, g i)) ts) (cont (home recovering (f i) (g i) v)), nrefs := r,
       on_disk := apply_writes (map (\<lambda>i. (f i, g i)) ts) (on_disk (home recovering (f i) (g i) v)),
       written := written (home recovering (f i) (g i) v) @ map (\<lambda>i. (f i, g i)) ts\<rparr>"
    "\<forall>n. n \<notin> f ` set ts \<longrightarrow> r n = nrefs (home recovering (f i) (g i) v) n" "\<forall>n. r n \<le> nrefs (home recovering (f i) (g i) v) n"
    "recovering \<longrightarrow> r = nrefs (home recovering (f i) (g i) v)"
    using Cons.IH [of "home recovering (f i) (g i) v"] by blast
  have h: "nrefs (home recovering (f i) (g i) v) n = (if \<not> recovering \<and> n = f i then nrefs v n - 1 else nrefs v n)" for n
    by (simp add: home_def bview_steps)
  show ?case
  proof (intro exI [of _ r] conjI)
    show "fold (\<lambda>i. home recovering (f i) (g i)) (i # ts) v = v\<lparr>cont := apply_writes (map (\<lambda>i. (f i, g i)) (i # ts)) (cont v), nrefs := r,
       on_disk := apply_writes (map (\<lambda>i. (f i, g i)) (i # ts)) (on_disk v), written := written v @ map (\<lambda>i. (f i, g i)) (i # ts)\<rparr>"
      unfolding fold_simps r(1) by (simp add: home_def bview_steps)
    show "\<forall>n. n \<notin> f ` set (i # ts) \<longrightarrow> r n = nrefs v n" using r(2) h by simp
    show "\<forall>n. r n \<le> nrefs v n" using r(3) h by (metis diff_le_self le_trans)
    show "recovering \<longrightarrow> r = nrefs v" using r(4) h by auto
  qed
qed

section \<open>Recovery\<close>

text \<open>The kernel after a restart, when the superblock has been read: nothing of the device is in use.\<close>

definition booted :: "u32 \<Rightarrow> u32 \<Rightarrow> 'a klog_scheme \<Rightarrow> bool" where
  "booted d start s \<longleftrightarrow> store_ok d s \<and> (\<forall>n. brefs d s n = 0 \<and> holder d s n = None) \<and> log_dev s = d \<and> log_start s = start \<and> panicked s = 0"

lemma idle_takable: "(\<forall>n. nrefs v n = 0 \<and> owner v n = None) \<Longrightarrow> takable NBUF v n"
  by (simp add: takable_def NBUF_def)

lemma recover_done:
  assumes r: "booted d start s"
  defines "h \<equiv> disk s start"
  defines "n \<equiv> nat (sint (get32 0 h))" and "B \<equiv> \<lambda>i. get32 (4 + 4 * i) h"
  assumes B: "\<forall>i<n. B i \<noteq> start \<and> (\<forall>j<n. start + of_nat j + 1 \<noteq> B i)" "distinct (map B [0..<n])"
  obtains t where "recover_from_log s = Done () t"
    "disk t = (apply_writes (map (\<lambda>i. (B i, disk s (start + of_nat i + 1))) [0..<n]) (disk s))(start := put32 0 0 h)"
    "disk_log t = disk_log s @ map (\<lambda>i. (B i, disk s (start + of_nat i + 1))) [0..<n] @ [(start, put32 0 0 h)]"
proof -
  have idle: "\<forall>n. nrefs (view d s) n = 0 \<and> owner (view d s) n = None" using r by (simp add: booted_def)
  have s: "store_ok d s" "log_dev s = d" "log_start s = start" "panicked s = 0" using r by (simp_all add: booted_def)
  have cs: "content d s = disk s" using cache.clean [OF s(1)] idle by (simp add: fun_eq_iff)
  obtain t where t: "read_head s = Done () t" "store_ok d t" "view d t = view d s" "lh_n t = get32 0 h"
    "\<And>i. int i < sint (get32 0 h) \<Longrightarrow> lh_block t i = B i" "log_dev t = d" "log_start t = start" "panicked t = 0"
    using read_head_done [OF s(1,2) idle_takable [OF idle]] idle s unfolding h_def B_def by (metis view_sel(2))
  have lh: "lh_block t i = B i" if "i < n" for i using t(5) that by (simp add: n_def)
  have vt: "brefs d t = brefs d s" "content d t = disk s" using arg_cong [OF t(3), of nrefs] arg_cong [OF t(3), of cont] cs by simp_all
  have dm: "map (lh_block t) [0..<n] = map B [0..<n]" using lh by simp
  have "can_install True d [0..<n] t"
    unfolding can_install_def dm using t idle_takable [OF idle] B idle lh vt(1) by (auto simp: NBUF_def)
  from install_trans_loop_done [OF this] obtain u where u: "install_trans_loop True [0..<n] t = Done () u" "store_ok d u" "lframe t u"
    "view d u = fold (\<lambda>i. home True (lh_block t i) (content d t (log_blk t i))) [0..<n] (view d t)" by blast
  let ?ws = "map (\<lambda>i. (B i, disk s (start + of_nat i + 1))) [0..<n]"
  have mw: "map (\<lambda>i. (lh_block t i, content d t (log_blk t i))) [0..<n] = ?ws" using lh vt t(7) by simp
  obtain r where f: "view d u = (view d s)\<lparr>cont := apply_writes ?ws (cont (view d s)), nrefs := r,
      on_disk := apply_writes ?ws (on_disk (view d s)), written := written (view d s) @ ?ws\<rparr>" "r = nrefs (view d s)"
    using fold_home [of True "lh_block t" "\<lambda>i. content d t (log_blk t i)" "[0..<n]" "view d s", unfolded mw] unfolding u(4) t(3) by blast
  then have vu: "view d u = (view d s)\<lparr>cont := apply_writes ?ws (disk s), on_disk := apply_writes ?ws (disk s), written := disk_log s @ ?ws\<rparr>"
    by (simp add: cs view_def)
  let ?u = "u\<lparr>lh_n := 0\<rparr>"
  have hu: "content d u start = h"
  proof -
    have "start \<notin> fst ` set ?ws" using B(1) by fastforce
    then show ?thesis using arg_cong [OF vu, of cont] by (simp add: h_def apply_writes_other)
  qed
  have uf: "log_dev u = d" "log_start u = start" using lframe_log [OF u(3)] t by simp_all
  have "takable NBUF (view d ?u) (log_start ?u)" using idle by (intro idle_takable) (simp add: vu)
  then obtain v where v: "write_head ?u = Done () v" "store_ok d v"
    "view d v = overwritten (log_start ?u) (header (lh_n ?u) (lh_block ?u) (content d ?u (log_start ?u))) (view d ?u)"
    using write_head_done [of d ?u] u(2) uf by auto
  have hd: "header 0 f x = put32 0 0 x" for f x by (simp add: header_def)
  have vv: "view d v = overwritten start (put32 0 0 h) (view d u)" using v(3) uf hu view_sel(1) [of d ?u] by (simp add: hd)
  have "recover_from_log s = Done () v"
    using t(1,4) u(1) v(1) by (simp add: recover_from_log_def install_trans_def n_def)
  moreover have "disk v = (apply_writes ?ws (disk s))(start := put32 0 0 h)" "disk_log v = disk_log s @ ?ws @ [(start, put32 0 0 h)]"
    using arg_cong [OF vv, of on_disk] arg_cong [OF vv, of written] arg_cong [OF vu, of on_disk] arg_cong [OF vu, of written]
    by (simp_all add: overwritten_def)
  ultimately show thesis by (rule that)
qed

section \<open>Commit\<close>

definition log_area :: "u32 \<Rightarrow> u32 set" where
  "log_area start = (\<lambda>i. start + of_nat i) ` {..LOGBLOCKS}"

definition nlogged :: "'a klog_scheme \<Rightarrow> nat" where
  "nlogged s = nat (sint (lh_n s))"

text \<open>
  A transaction that is ready to commit: the logged blocks are distinct, outside of the log and pinned; nobody has locked
  them or a block of the log, none of which is in use; the cache has a free buffer; the
  header on disk is empty.
\<close>

definition committable :: "u32 \<Rightarrow> 'a klog_scheme \<Rightarrow> bool" where
  "committable d s \<longleftrightarrow> store_ok d s \<and> log_dev s = d \<and> 0 < sint (lh_n s) \<and> nlogged s \<le> LOGBLOCKS
     \<and> distinct (map (lh_block s) [0..<nlogged s])
     \<and> (\<forall>i<nlogged s. lh_block s i \<notin> log_area (log_start s) \<and> brefs d s (lh_block s i) \<noteq> 0 \<and> takable NBUF (view d s) (lh_block s i))
     \<and> (\<forall>m\<in>log_area (log_start s). takable NBUF (view d s) m \<and> brefs d s m = 0)
     \<and> length (disk s (log_start s)) = BSIZE \<and> get32 0 (disk s (log_start s)) = 0"

lemma log_area_start: "start \<in> log_area start"
  by (auto simp: log_area_def intro: image_eqI [of _ _ 0])

lemma log_area_blk: "i < LOGBLOCKS \<Longrightarrow> start + of_nat i + 1 \<in> log_area start"
  by (auto simp: log_area_def intro!: image_eqI [of _ _ "Suc i"])

lemma log_blk_distinct:
  assumes "i \<le> LOGBLOCKS" and "j \<le> LOGBLOCKS" and "start + of_nat i = start + (of_nat j :: u32)"
  shows "i = j"
proof -
  have "unat (of_nat i :: u32) = unat (of_nat j :: u32)" using assms(3) by simp
  then show ?thesis using assms(1,2) by (simp add: unat_of_nat LOGBLOCKS_def)
qed

lemma log_blk_neq: "i < LOGBLOCKS \<Longrightarrow> start + of_nat i + 1 \<noteq> (start :: u32)"
  using log_blk_distinct [of "Suc i" 0 start] by (auto simp: ac_simps)

text \<open>The writes of a commit, in order: the blocks into the log, the header, the blocks home, the empty header.\<close>

definition log_writes :: "u32 \<Rightarrow> 'a klog_scheme \<Rightarrow> (u32 \<times> block) list" where
  "log_writes d s = map (\<lambda>i. (log_blk s i, content d s (lh_block s i))) [0..<nlogged s]"

definition home_writes :: "u32 \<Rightarrow> 'a klog_scheme \<Rightarrow> (u32 \<times> block) list" where
  "home_writes d s = map (\<lambda>i. (lh_block s i, content d s (lh_block s i))) [0..<nlogged s]"

definition full_header :: "'a klog_scheme \<Rightarrow> block" where
  "full_header s = header (lh_n s) (lh_block s) (disk s (log_start s))"

definition commit_writes :: "u32 \<Rightarrow> 'a klog_scheme \<Rightarrow> (u32 \<times> block) list" where
  "commit_writes d s = log_writes d s @ [(log_start s, full_header s)] @ home_writes d s @ [(log_start s, put32 0 0 (full_header s))]"

lemma committable_log_writes:
  assumes "committable d s"
  shows "fst ` set (log_writes d s) \<subseteq> log_area (log_start s) - {log_start s}" "distinct (map fst (log_writes d s))"
    "fst ` set (home_writes d s) \<inter> log_area (log_start s) = {}" "distinct (map fst (home_writes d s))"
proof -
  have n: "nlogged s \<le> LOGBLOCKS" using assms by (simp add: committable_def)
  show "fst ` set (log_writes d s) \<subseteq> log_area (log_start s) - {log_start s}"
    using n log_area_blk log_blk_neq by (fastforce simp: log_writes_def)
  show "fst ` set (home_writes d s) \<inter> log_area (log_start s) = {}" using assms by (auto simp: home_writes_def committable_def)
  show "distinct (map fst (home_writes d s))" using assms by (simp add: home_writes_def committable_def comp_def)
  have "inj_on (log_blk s) (set [0..<nlogged s])"
  proof (rule inj_onI)
    fix i j assume "i \<in> set [0..<nlogged s]" "j \<in> set [0..<nlogged s]" "log_blk s i = log_blk s j"
    then show "i = j" using n log_blk_distinct [of i j "log_start s"] by simp
  qed
  then show "distinct (map fst (log_writes d s))" by (simp add: log_writes_def comp_def distinct_map)
qed

lemma committable_blk:
  assumes "committable d s" and "i < nlogged s"
  shows "takable NBUF (view d s) (log_blk s i)" "takable NBUF (view d s) (lh_block s i)" "brefs d s (lh_block s i) \<noteq> 0"
    "j < nlogged s \<Longrightarrow> log_blk s i \<noteq> lh_block s j"
proof -
  have a: "log_blk s i \<in> log_area (log_start s)" using assms by (intro log_area_blk) (simp add: committable_def)
  show "takable NBUF (view d s) (log_blk s i)" "takable NBUF (view d s) (lh_block s i)" "brefs d s (lh_block s i) \<noteq> 0"
    using a assms by (simp_all add: committable_def)
  show "log_blk s i \<noteq> lh_block s j" if "j < nlogged s" using a assms(1) that by (auto simp: committable_def)
qed

lemma commit_logged:
  assumes c: "committable d s"
  obtains t where "write_log s = Done () t" "store_ok d t" "lframe s t"
    "view d t = (view d s)\<lparr>cont := apply_writes (log_writes d s) (content d s), on_disk := apply_writes (log_writes d s) (disk s),
       written := disk_log s @ log_writes d s\<rparr>"
proof -
  have "\<forall>i\<in>set [0..<nlogged s]. takable NBUF (view d s) (log_blk s i) \<and> takable NBUF (view d s) (lh_block s i) \<and> brefs d s (lh_block s i) \<noteq> 0"
    "\<forall>i\<in>set [0..<nlogged s]. \<forall>j\<in>set [0..<nlogged s]. log_blk s i \<noteq> lh_block s j" "store_ok d s" "log_dev s = d"
    using c committable_blk [OF c] by (simp_all add: committable_def)
  from write_log_loop_done [OF this(3,4,1,2)] obtain t where t: "write_log_loop [0..<nlogged s] s = Done () t" "store_ok d t" "lframe s t"
    "view d t = fold (\<lambda>i. overwritten (log_blk s i) (content d s (lh_block s i))) [0..<nlogged s] (view d s)" by blast
  show thesis
  proof (rule that [OF _ t(2,3)])
    show "write_log s = Done () t" using t(1) by (simp add: write_log_def nlogged_def)
  qed (simp add: t(4) fold_overwritten log_writes_def)
qed

lemma view_eqD: "view d u = v \<Longrightarrow> content d u = cont v" "view d u = v \<Longrightarrow> brefs d u = nrefs v" "view d u = v \<Longrightarrow> holder d u = owner v"
  "view d u = v \<Longrightarrow> disk u = on_disk v" "view d u = v \<Longrightarrow> disk_log u = written v"
  by auto

lemma takable_same: "nrefs v = nrefs w \<Longrightarrow> owner v = owner w \<Longrightarrow> takable cap v n = takable cap w n"
  by (simp add: takable_def)

lemma commit_headed:
  assumes c: "committable d s" and t: "store_ok d t" "lframe s t"
    "view d t = (view d s)\<lparr>cont := apply_writes (log_writes d s) (content d s), on_disk := apply_writes (log_writes d s) (disk s),
       written := disk_log s @ log_writes d s\<rparr>"
  obtains u where "write_head t = Done () u" "store_ok d u" "lframe s u" "view d u = overwritten (log_start s) (full_header s) (view d t)"
proof -
  note l = lframe_log [OF t(2)]
  have "takable NBUF (view d t) (log_start t)"
    using c log_area_start takable_same [of "view d t" "view d s"] unfolding committable_def by (auto simp: t(3) l)
  then obtain u where u: "write_head t = Done () u" "store_ok d u" "lframe t u"
    "view d u = overwritten (log_start t) (header (lh_n t) (lh_block t) (content d t (log_start t))) (view d t)"
    using write_head_done [OF t(1)] l c by (auto simp: committable_def)
  have "log_start s \<notin> fst ` set (log_writes d s)" using committable_log_writes(1) [OF c] by auto
  moreover have "content d s (log_start s) = disk s (log_start s)"
    using c log_area_start [of "log_start s"] cache.clean [of d s "log_start s"] by (auto simp: committable_def)
  ultimately have "content d t (log_start t) = disk s (log_start s)"
    using arg_cong [OF t(3), of cont] by (simp add: l apply_writes_other)
  then show thesis using that u lframe_trans [OF t(2) u(3)] l by (simp add: full_header_def)
qed

lemma commit_installed:
  assumes c: "committable d s" and u: "store_ok d u" "lframe s u" and v: "nrefs (view d u) = brefs d s" "owner (view d u) = holder d s"
    "\<forall>i<nlogged s. content d u (log_blk s i) = content d s (lh_block s i)"
  obtains w r where "install_trans False u = Done () w" "store_ok d w" "lframe s w"
    "view d w = (view d u)\<lparr>cont := apply_writes (home_writes d s) (content d u), nrefs := r,
       on_disk := apply_writes (home_writes d s) (disk u), written := disk_log u @ home_writes d s\<rparr>"
    "r (log_start s) = 0" "takable NBUF (view d w) (log_start s)"
proof -
  note l = lframe_log [OF u(2)]
  have tk: "takable NBUF (view d u) n = takable NBUF (view d s) n" for n by (rule takable_same) (use v in simp_all)
  have n: "nat (sint (lh_n u)) = nlogged s" by (simp add: l nlogged_def)
  have "brefs d u = brefs d s" using v(1) by simp
  then have "can_install False d [0..<nlogged s] u"
    using c u(1) committable_blk [OF c] unfolding can_install_def tk l by (simp add: committable_def)
  from install_trans_loop_done [OF this] obtain w where w: "install_trans_loop False [0..<nlogged s] u = Done () w" "store_ok d w" "lframe u w"
    "view d w = fold (\<lambda>i. home False (lh_block u i) (content d u (log_blk u i))) [0..<nlogged s] (view d u)" by blast
  have hw: "map (\<lambda>i. (lh_block u i, content d u (log_blk u i))) [0..<nlogged s] = home_writes d s"
    using v(3) by (simp add: home_writes_def l)
  obtain r where r: "view d w = (view d u)\<lparr>cont := apply_writes (home_writes d s) (cont (view d u)), nrefs := r,
       on_disk := apply_writes (home_writes d s) (on_disk (view d u)), written := written (view d u) @ home_writes d s\<rparr>"
    "\<forall>n. n \<notin> lh_block u ` set [0..<nlogged s] \<longrightarrow> r n = nrefs (view d u) n" "\<forall>n. r n \<le> nrefs (view d u) n"
    using fold_home [of False "lh_block u" "\<lambda>i. content d u (log_blk u i)" "[0..<nlogged s]" "view d u", unfolded hw] unfolding w(4) by blast
  have "{k. r k \<noteq> 0} \<subseteq> {k. brefs d s k \<noteq> 0}" using r(3) v(1) by (auto simp: le_zero_eq dest: spec) (metis le_zero_eq not_gr_zero)
  then have "card {k. r k \<noteq> 0} \<le> card {k. brefs d s k \<noteq> 0}" by (rule card_mono [OF finite])
  moreover have st: "log_start s \<notin> lh_block u ` set [0..<nlogged s]" "takable NBUF (view d s) (log_start s)" "brefs d s (log_start s) = 0"
    using c log_area_start [of "log_start s"] by (auto simp: committable_def l)
  ultimately have "takable NBUF (view d w) (log_start s)" "r (log_start s) = 0"
    using r(2) v unfolding takable_def by (auto simp: r(1))
  moreover have "install_trans False u = Done () w" using w(1) n by (simp add: install_trans_def)
  ultimately show thesis using that w(2) lframe_trans [OF u(2) w(3)] r(1) by auto
qed

lemma commit_done:
  assumes c: "committable d s"
  obtains t where "commit s = Done () t" "disk t = apply_writes (commit_writes d s) (disk s)" "disk_log t = disk_log s @ commit_writes d s"
proof -
  let ?LW = "log_writes d s" and ?HW = "home_writes d s" and ?H = "full_header s" and ?st = "log_start s"
  obtain t where t: "write_log s = Done () t" "store_ok d t" "lframe s t"
    "view d t = (view d s)\<lparr>cont := apply_writes ?LW (content d s), on_disk := apply_writes ?LW (disk s), written := disk_log s @ ?LW\<rparr>"
    by (rule commit_logged [OF c])
  obtain u where u: "write_head t = Done () u" "store_ok d u" "lframe s u" "view d u = overwritten ?st ?H (view d t)"
    by (rule commit_headed [OF c t(2-4)])
  have vu: "content d u = (apply_writes ?LW (content d s))(?st := ?H)" "disk u = (apply_writes ?LW (disk s))(?st := ?H)"
      "disk_log u = disk_log s @ ?LW @ [(?st, ?H)]" "nrefs (view d u) = brefs d s" "owner (view d u) = holder d s"
    using view_eqD [OF u(4) [unfolded t(4)]] by (simp_all add: overwritten_def)
  have "content d u (log_blk s i) = content d s (lh_block s i)" if "i < nlogged s" for i
  proof -
    have "(log_blk s i, content d s (lh_block s i)) \<in> set ?LW" using that by (simp add: log_writes_def)
    moreover have "log_blk s i \<noteq> ?st" using that c by (intro log_blk_neq) (simp add: committable_def)
    ultimately show ?thesis using vu(1) apply_writes_in [OF committable_log_writes(2) [OF c]] by simp
  qed
  then obtain w r where w: "install_trans False u = Done () w" "store_ok d w" "lframe s w"
    "view d w = (view d u)\<lparr>cont := apply_writes ?HW (content d u), nrefs := r, on_disk := apply_writes ?HW (disk u), written := disk_log u @ ?HW\<rparr>"
    "r ?st = 0" "takable NBUF (view d w) ?st"
    using commit_installed [OF c u(2,3) vu(4,5)] by metis
  let ?w = "w\<lparr>lh_n := 0\<rparr>"
  have lw: "log_dev w = d" "log_start w = ?st" using lframe_log [OF w(3)] c by (simp_all add: committable_def)
  have "?st \<notin> fst ` set ?HW" using committable_log_writes(3) [OF c] log_area_start by blast
  then have cw: "content d w ?st = ?H" using arg_cong [OF w(4), of cont] vu(1) by (simp add: apply_writes_other)
  obtain x where x: "write_head ?w = Done () x" "view d x = overwritten ?st (put32 0 0 ?H) (view d w)"
    using write_head_done [of d ?w] w(2,6) lw cw view_sel(1) [of d ?w] by (auto simp: header_def)
  have "commit s = Done () x"
    using c t(1) u(1) w(1) x(1) by (simp add: commit_def committable_def)
  moreover have "disk x = apply_writes (commit_writes d s) (disk s)" "disk_log x = disk_log s @ commit_writes d s"
    using view_eqD(4,5) [OF x(2) [unfolded w(4)]] vu by (simp_all add: overwritten_def commit_writes_def)
  ultimately show thesis by (rule that)
qed

section \<open>Crashes\<close>

text \<open>What is on the disk after the first \<open>k\<close> writes of the commit.\<close>

definition crash_disk :: "u32 \<Rightarrow> 'a klog_scheme \<Rightarrow> nat \<Rightarrow> u32 \<Rightarrow> block" where
  "crash_disk d s k = apply_writes (take k (commit_writes d s)) (disk s)"

lemma crash_before:
  assumes c: "committable d s" and k: "k \<le> nlogged s"
  shows "crash_disk d s k (log_start s) = disk s (log_start s)" "m \<notin> log_area (log_start s) \<Longrightarrow> crash_disk d s k m = disk s m"
proof -
  have e: "crash_disk d s k = apply_writes (take k (log_writes d s)) (disk s)"
    using k by (simp add: crash_disk_def commit_writes_def log_writes_def)
  have "fst ` set (take k (log_writes d s)) \<subseteq> log_area (log_start s) - {log_start s}"
    using committable_log_writes(1) [OF c] set_take_subset [of k "log_writes d s"] by blast
  then show "crash_disk d s k (log_start s) = disk s (log_start s)" "m \<notin> log_area (log_start s) \<Longrightarrow> crash_disk d s k m = disk s m"
    unfolding e by (auto intro!: apply_writes_other)
qed

lemma take_home_writes:
  "nlogged s < k \<Longrightarrow> take k (commit_writes d s) = log_writes d s @ (log_start s, full_header s) # take (k - nlogged s - 1) (home_writes d s @ [(log_start s, put32 0 0 (full_header s))])"
  by (cases "k - nlogged s") (simp_all add: commit_writes_def log_writes_def)

lemma crash_during:
  assumes c: "committable d s" and k: "nlogged s < k" "k \<le> 2 * nlogged s + 1"
  shows "crash_disk d s k (log_start s) = full_header s"
    "i < nlogged s \<Longrightarrow> crash_disk d s k (log_blk s i) = content d s (lh_block s i)"
    "m \<notin> log_area (log_start s) \<Longrightarrow> m \<notin> lh_block s ` {..<nlogged s} \<Longrightarrow> crash_disk d s k m = disk s m"
proof -
  let ?hs = "take (k - nlogged s - 1) (home_writes d s)"
  have e: "crash_disk d s k = apply_writes ?hs ((apply_writes (log_writes d s) (disk s))(log_start s := full_header s))"
    using k by (simp add: crash_disk_def take_home_writes home_writes_def)
  have h: "fst ` set ?hs \<subseteq> lh_block s ` {..<nlogged s}"
    using set_take_subset [of "k - nlogged s - 1" "home_writes d s"] by (fastforce simp: home_writes_def)
  have hl: "fst ` set ?hs \<inter> log_area (log_start s) = {}"
    using committable_log_writes(3) [OF c] set_take_subset [of "k - nlogged s - 1" "home_writes d s"] by blast
  then have st: "log_start s \<notin> fst ` set ?hs" using log_area_start by blast
  then show "crash_disk d s k (log_start s) = full_header s" unfolding e by (simp add: apply_writes_other)
  show "crash_disk d s k (log_blk s i) = content d s (lh_block s i)" if i: "i < nlogged s"
  proof -
    have n: "i < LOGBLOCKS" using i c by (simp add: committable_def)
    have "log_blk s i \<notin> fst ` set ?hs" using hl log_area_blk [OF n] by blast
    moreover have "(log_blk s i, content d s (lh_block s i)) \<in> set (log_writes d s)" using i by (simp add: log_writes_def)
    ultimately show ?thesis unfolding e using log_blk_neq [OF n] apply_writes_in [OF committable_log_writes(2) [OF c]]
      by (simp add: apply_writes_other)
  qed
  show "crash_disk d s k m = disk s m" if "m \<notin> log_area (log_start s)" "m \<notin> lh_block s ` {..<nlogged s}"
  proof -
    have "m \<notin> fst ` set ?hs" "m \<noteq> log_start s" "m \<notin> fst ` set (log_writes d s)"
      using h that log_area_start committable_log_writes(1) [OF c] by blast+
    then show ?thesis unfolding e by (simp add: apply_writes_other)
  qed
qed

lemma crash_after:
  assumes c: "committable d s" and k: "2 * nlogged s + 1 < k"
  shows "crash_disk d s k (log_start s) = put32 0 0 (full_header s)"
    "m \<notin> log_area (log_start s) \<Longrightarrow> crash_disk d s k m = apply_writes (home_writes d s) (disk s) m"
proof -
  have "take k (commit_writes d s) = commit_writes d s" using k by (simp add: commit_writes_def log_writes_def home_writes_def)
  then have e: "crash_disk d s k = (apply_writes (home_writes d s) ((apply_writes (log_writes d s) (disk s))(log_start s := full_header s)))(log_start s := put32 0 0 (full_header s))"
    by (simp add: crash_disk_def commit_writes_def)
  show "crash_disk d s k (log_start s) = put32 0 0 (full_header s)" by (simp add: e)
  assume m: "m \<notin> log_area (log_start s)"
  then have n: "m \<noteq> log_start s" "m \<notin> fst ` set (log_writes d s)" using log_area_start committable_log_writes(1) [OF c] by blast+
  have "crash_disk d s k m = apply_writes (home_writes d s) ((apply_writes (log_writes d s) (disk s))(log_start s := full_header s)) m"
    using n by (simp add: e)
  also have "\<dots> = apply_writes (home_writes d s) (disk s) m"
  proof (cases "m \<in> fst ` set (home_writes d s)")
    case True
    then obtain x where "(m, x) \<in> set (home_writes d s)" by auto
    then show ?thesis using apply_writes_in [OF committable_log_writes(4) [OF c]] by simp
  qed (use n in \<open>simp add: apply_writes_other\<close>)
  finally show "crash_disk d s k m = apply_writes (home_writes d s) (disk s) m" .
qed

end
