(* ===== verification/Log_Crash.thy ===== *)
theory Log_Crash
  imports Log_Facts
begin

text \<open>
  Crash safety of the log: recovery of every disk that a commit may leave behind.
\<close>

lemma full_header_read:
  assumes "committable d s"
  shows "get32 0 (full_header s) = lh_n s" "i < nlogged s \<Longrightarrow> get32 (4 + 4 * i) (full_header s) = lh_block s i" "length (full_header s) = BSIZE"
  using header_read(1,3) [of "lh_n s" "disk s (log_start s)" "lh_block s"] header_read(2) [of "lh_n s" "disk s (log_start s)" i "lh_block s"] assms
  by (simp_all add: full_header_def committable_def nlogged_def LOGBLOCKS_def BSIZE_def)

lemma recover_nothing:
  assumes "booted d start r" and "get32 0 (disk r start) = 0"
  shows "\<exists>t. recover_from_log r = Done () t \<and> (\<forall>m. m \<noteq> start \<longrightarrow> disk t m = disk r m)"
proof -
  have z: "nat (sint (get32 0 (disk r start))) = 0" using assms(2) by simp
  obtain t where "recover_from_log r = Done () t" "disk t = (disk r)(start := put32 0 0 (disk r start))"
    using recover_done [OF assms(1), unfolded z] by auto
  then show ?thesis by simp
qed

lemma recover_crash:
  assumes c: "committable d s" and r: "booted d (log_start s) r" "disk r = crash_disk d s k"
  shows "\<exists>t. recover_from_log r = Done () t \<and> (\<forall>m. m \<notin> log_area (log_start s) \<longrightarrow>
    disk t m = (if k \<le> nlogged s then disk s m else apply_writes (home_writes d s) (disk s) m))"
proof -
  consider (before) "k \<le> nlogged s" | (during) "nlogged s < k" "k \<le> 2 * nlogged s + 1" | (after) "2 * nlogged s + 1 < k" by linarith
  then show ?thesis
  proof cases
    case before
    have "get32 0 (disk r (log_start s)) = 0" using crash_before(1) [OF c before] c r(2) by (simp add: committable_def)
    from recover_nothing [OF r(1) this] obtain t where t: "recover_from_log r = Done () t" "\<forall>m. m \<noteq> log_start s \<longrightarrow> disk t m = disk r m" by blast
    have "disk t m = disk s m" if "m \<notin> log_area (log_start s)" for m
      using t(2) that log_area_start [of "log_start s"] crash_before(2) [OF c before that] r(2) by metis
    then show ?thesis using t(1) before by simp
  next
    case after
    have "get32 0 (disk r (log_start s)) = 0" using crash_after(1) [OF c after] r(2) full_header_read(3) [OF c] by (simp add: get32_put32 BSIZE_def)
    from recover_nothing [OF r(1) this] obtain t where t: "recover_from_log r = Done () t" "\<forall>m. m \<noteq> log_start s \<longrightarrow> disk t m = disk r m" by blast
    have "disk t m = apply_writes (home_writes d s) (disk s) m" if "m \<notin> log_area (log_start s)" for m
      using t(2) that log_area_start [of "log_start s"] crash_after(2) [OF c after that] r(2) by metis
    then show ?thesis using t(1) after by simp
  next
    case during
    note cr = crash_during [OF c during]
    have h: "disk r (log_start s) = full_header s" using cr(1) r(2) by simp
    have n: "nat (sint (get32 0 (full_header s))) = nlogged s" using full_header_read(1) [OF c] by (simp add: nlogged_def)
    have b: "get32 (4 + 4 * i) (full_header s) = lh_block s i" if "i < nlogged s" for i using full_header_read(2) [OF c that] .
    have mb: "map (\<lambda>i. get32 (4 + 4 * i) (full_header s)) [0..<nlogged s] = map (lh_block s) [0..<nlogged s]" using b by simp
    have mw: "map (\<lambda>i. (get32 (4 + 4 * i) (full_header s), disk r (log_blk s i))) [0..<nlogged s]
        = map (\<lambda>i. (lh_block s i, disk r (log_blk s i))) [0..<nlogged s]" using b by simp
    have apart: "\<forall>i<nlogged s. get32 (4 + 4 * i) (full_header s) \<noteq> log_start s \<and> (\<forall>j<nlogged s. log_blk s j \<noteq> get32 (4 + 4 * i) (full_header s))"
      using c log_area_start committable_blk(4) [OF c] b by (auto simp: committable_def)
    have "distinct (map (lh_block s) [0..<nlogged s])" using c by (simp add: committable_def)
    then obtain t where t: "recover_from_log r = Done () t"
      "disk t = (apply_writes (map (\<lambda>i. (lh_block s i, disk r (log_blk s i))) [0..<nlogged s]) (disk r))(log_start s := put32 0 0 (full_header s))"
      using recover_done [OF r(1), unfolded h n mb mw, OF apart] by blast
    have w: "map (\<lambda>i. (lh_block s i, disk r (log_blk s i))) [0..<nlogged s] = home_writes d s"
      using cr(2) r(2) by (simp add: home_writes_def)
    have "disk t m = apply_writes (home_writes d s) (disk s) m" if m: "m \<notin> log_area (log_start s)" for m
    proof (cases "m \<in> fst ` set (home_writes d s)")
      case True
      then obtain x where "(m, x) \<in> set (home_writes d s)" by auto
      then show ?thesis using t(2) w m log_area_start apply_writes_in [OF committable_log_writes(4) [OF c]] by (auto simp: fun_upd_other)
    next
      case False
      then have "m \<notin> lh_block s ` {..<nlogged s}" by (simp add: home_writes_def image_image atLeast0LessThan)
      then show ?thesis using False t(2) w m log_area_start cr(3) [OF m] r(2) by (auto simp: apply_writes_other fun_upd_other)
    qed
    then show ?thesis using t(1) during by auto
  qed
qed

text \<open>
  C1 (safety): transactions are atomic. \<^verbatim>\<open>commit\<close> of a transaction that is ready returns, and writes to the disk first the
  logged blocks into the log, then the header, then the blocks to their homes, then the empty header. If the
  machine stops after any number \<open>k\<close> of these writes and restarts, recovery returns, and on the blocks outside of the log the disk
  is what it was before the transaction if the header had not been written, and otherwise carries all of its blocks.
\<close>

theorem commit_survives_crash:
  fixes s :: "'a klog_scheme"
  assumes "committable d s"
  shows "\<exists>t. commit s = Done () t \<and> disk t = apply_writes (commit_writes d s) (disk s) \<and> disk_log t = disk_log s @ commit_writes d s
    \<and> (\<forall>k (r :: 'a klog_scheme). booted d (log_start s) r \<and> disk r = apply_writes (take k (commit_writes d s)) (disk s) \<longrightarrow>
        (\<exists>u. recover_from_log r = Done () u \<and> (\<forall>m. m \<notin> log_area (log_start s) \<longrightarrow>
          disk u m = (if k \<le> nlogged s then disk s m else apply_writes (home_writes d s) (disk s) m))))"
  using commit_done [OF assms] recover_crash [OF assms] unfolding crash_disk_def by metis

text \<open>A transaction with one block, read, changed, pinned and released.\<close>

lemma with_log_cache:
  "cache_ok d (with_log s) = cache_ok d s" "slot d (with_log s) = slot d s" "content d (with_log s) = content d s"
  "brefs d (with_log s) = brefs d s" "holder d (with_log s) = holder d s"
  by (simp_all add: cache_ok_def slot_def content_def brefs_def holder_def fun_eq_iff cong: option.case_cong if_cong)

lemma idle_log:
  "store_ok 1 (with_log cached)" "booted 1 2 (with_log cached)" "brefs 1 (with_log cached) = (\<lambda>_. 0)" "holder 1 (with_log cached) = (\<lambda>_. None)"
  using cached_facts by (simp_all add: store_ok_def booted_def with_log_cache) (simp add: cached_def two_procs_def blank_kstate_def)

lemma one_block_transaction:
  obtains s :: klog where "committable 1 s" "log_start s = 2" "nlogged s = 1" "lh_block s 0 = 50" "content 1 s 50 = replicate BSIZE 7" "disk s = (\<lambda>_. replicate BSIZE 0)"
proof -
  let ?x = "replicate BSIZE 7 :: block"
  have tk: "takable NBUF (view 1 (with_log cached)) 50" using idle_log by (simp add: takable_def NBUF_def)
  from store_read [OF idle_log(1) this] obtain b t where t: "store_ok 1 t" "bframe (with_log cached) t" "slot 1 t 50 = Some b"
    "view 1 t = taken (mypid (with_log cached)) 50 (view 1 (with_log cached))" by blast
  have bt: "brefs 1 t 50 = 1" "holder 1 t 50 = Some (mypid (with_log cached))" "brefs 1 t = (\<lambda>_. 0)(50 := 1)"
    using view_eqD [OF t(4)] idle_log by (simp_all add: taken_def)
  let ?t = "upd_buf b (\<lambda>q. q\<lparr>bdata := ?x\<rparr>) t"
  have u: "store_ok 1 ?t" "bframe t ?t" "view 1 ?t = (view 1 t)\<lparr>cont := (content 1 t)(50 := ?x)\<rparr>" "slot 1 ?t 50 = Some b"
    using store_put [OF t(1,3), of ?x] bt t(3) by simp_all
  have bu: "brefs 1 ?t = (\<lambda>_. 0)(50 := 1)" "holder 1 ?t = holder 1 t" using view_eqD [OF u(3)] bt by simp_all
  obtain v where v: "buffer_change 1 ?t v b 50" "content 1 v = content 1 ?t" "brefs 1 v = (brefs 1 ?t)(50 := Suc (brefs 1 ?t 50))"
    "holder 1 v = holder 1 ?t" "disk v = disk ?t" "bframe ?t v"
    using bpin_done [of 1 ?t 50 b] u(1,4) bu by (auto simp: store_ok_def)
  have m: "mypid v = mypid (with_log cached)" using mypid_frame [OF v(6)] mypid_frame [OF u(2)] mypid_frame [OF t(2)] by simp
  have "\<exists>w. brelse b v = Done () w \<and> store_ok 1 w \<and> bframe v w \<and> view 1 w = put_back 50 (view 1 v)"
    using store_release [of 1 v 50 b] store_frame [OF u(1) v(6) change_cache_ok [OF v(1)]] change_slot [OF v(1)] v(3,4) bu bt m by auto
  then obtain w where w: "store_ok 1 w" "bframe v w" "view 1 w = put_back 50 (view 1 v)" by blast
  note vw = view_eqD [OF w(3)]
  have f: "brefs 1 w = (\<lambda>_. 0)(50 := 1)" "holder 1 w = (\<lambda>_. None)" "disk w = (\<lambda>_. replicate BSIZE 0)" "content 1 w 50 = ?x"
    using vw v bu bt view_eqD [OF u(3)] view_eqD [OF t(4)] idle_log cached_facts
    by (auto simp: put_back_def taken_def fun_eq_iff cached_def)
  have l: "log_dev w = 1" "log_start w = 2"
    using bframe_log [OF w(2)] bframe_log [OF v(6)] bframe_log [OF u(2)] bframe_log [OF t(2)] by simp_all
  let ?s = "w\<lparr>lh_n := 1, lh_block := (\<lambda>_. 50)\<rparr>"
  have vs: "view 1 ?s = view 1 w" "disk ?s = disk w" by simp_all
  have fs: "brefs 1 ?s = (\<lambda>_. 0)(50 := 1)" "holder 1 ?s = (\<lambda>_. None)" "content 1 ?s 50 = ?x" using view_eqD [OF vs(1)] f by simp_all
  have "{k. ((\<lambda>_. 0)(50 := 1 :: nat)) k \<noteq> 0} = {50 :: u32}" by auto
  then have tks: "takable NBUF (view 1 ?s) n" for n using f(1,2) by (simp add: takable_def NBUF_def)
  have "(50 :: u32) \<notin> log_area 2"
  proof
    assume "(50 :: u32) \<in> log_area 2"
    then obtain i where "i \<le> 30" "(50 :: u32) = 2 + of_nat i" by (auto simp: log_area_def LOGBLOCKS_def)
    moreover from this(2) have "(of_nat i :: u32) = 50 - 2" by (metis add_diff_cancel_left')
    then have "unat (of_nat i :: u32) = 48" by simp
    moreover have "unat (of_nat i :: u32) = i" using \<open>i \<le> 30\<close> by (simp add: unat_of_nat)
    ultimately show False by linarith
  qed
  then have "committable 1 ?s"
    using w(1) l tks fs f(3) by (auto simp: committable_def nlogged_def LOGBLOCKS_def get32_def BSIZE_def eval_nat_numeral)
  then show thesis using that [of ?s] l fs f(3) by (simp add: nlogged_def)
qed

theorem commit_survives_crash_witness:
  "\<exists>(s :: klog) t. committable 1 s \<and> commit s = Done () t \<and> disk t 50 = replicate BSIZE 7
    \<and> (\<exists>(r :: klog) u. booted 1 2 r \<and> disk r = disk s \<and> recover_from_log r = Done () u \<and> disk u 50 = replicate BSIZE 0)"
proof -
  obtain s :: klog where s: "committable 1 s" "log_start s = 2" "nlogged s = 1" "lh_block s 0 = 50" "content 1 s 50 = replicate BSIZE 7"
    "disk s = (\<lambda>_. replicate BSIZE 0)" by (rule one_block_transaction)
  have a: "(50 :: u32) \<notin> log_area (log_start s)" using s(1,3,4) by (auto simp: committable_def)
  have h: "apply_writes (home_writes 1 s) (disk s) 50 = replicate BSIZE 7" using s by (simp add: home_writes_def)
  obtain t where t: "commit s = Done () t" "disk t = apply_writes (commit_writes 1 s) (disk s)"
    and rc: "\<forall>k (r :: klog). booted 1 (log_start s) r \<and> disk r = apply_writes (take k (commit_writes 1 s)) (disk s) \<longrightarrow>
        (\<exists>u. recover_from_log r = Done () u \<and> (\<forall>m. m \<notin> log_area (log_start s) \<longrightarrow>
          disk u m = (if k \<le> nlogged s then disk s m else apply_writes (home_writes 1 s) (disk s) m)))"
    using commit_survives_crash [OF s(1)] by blast
  have "disk t 50 = replicate BSIZE 7"
    using crash_after(2) [OF s(1) _ a, of 5] h t(2) s(3)
    by (simp add: crash_disk_def commit_writes_def log_writes_def home_writes_def)
  moreover have "\<exists>u. recover_from_log (with_log cached) = Done () u \<and> disk u 50 = replicate BSIZE 0"
  proof -
    have "disk (with_log cached) = apply_writes (take 0 (commit_writes 1 s)) (disk s)" using s(6) by (simp add: cached_def)
    then have "\<exists>u. recover_from_log (with_log cached) = Done () u \<and> (\<forall>m. m \<notin> log_area (log_start s) \<longrightarrow>
        disk u m = (if 0 \<le> nlogged s then disk s m else apply_writes (home_writes 1 s) (disk s) m))"
      using rc idle_log(2) s(2) by metis
    then show ?thesis using a s(6) by auto
  qed
  moreover have "disk (with_log cached) = disk s" using s(6) by (simp add: cached_def)
  ultimately show ?thesis using s(1) t(1) idle_log(2) by blast
qed

end
