(* ===== verification/Grep.thy ===== *)
theory Grep
  imports Printf
begin

text \<open>
  \<^verbatim>\<open>user/grep.c\<close>: the matcher for patterns with \<open>^\<close>, \<open>.\<close>, \<open>*\<close> and \<open>$\<close>, and the loop that cuts the input into lines
  in a buffer of 1024 bytes. A C string is the list of the bytes before its NUL. The system call \<open>read\<close> is a
  parameter: it takes the state of the descriptor and the room left, and returns the bytes read (\<open>None\<close> for
  the error \<open>-1\<close>) with the new state; so is \<open>open\<close>. The matcher is compared with the language that a pattern denotes, the loop with the
  list of complete lines of the whole input.
\<close>

section \<open>Matcher\<close>

function matchhere :: "u8 list \<Rightarrow> u8 list \<Rightarrow> bool"
  and matchstar :: "u8 \<Rightarrow> u8 list \<Rightarrow> u8 list \<Rightarrow> bool" where
  "matchhere re cs =
     (case re of
        [] \<Rightarrow> True
      | c # re' \<Rightarrow>
          if re' \<noteq> [] \<and> hd re' = 42 then matchstar c (tl re') cs
          else if c = 36 \<and> re' = [] then cs = []
          else if cs \<noteq> [] \<and> (c = 46 \<or> c = hd cs) then matchhere re' (tl cs)
          else False)"
| "matchstar c re cs =
     (if matchhere re cs then True
      else if cs \<noteq> [] \<and> (hd cs = c \<or> c = 46) then matchstar c re (tl cs)
      else False)"
  by pat_completeness auto
termination
  by (relation "measures [\<lambda>x. case x of Inl (re, cs) \<Rightarrow> 2 * length re | Inr (c, re, cs) \<Rightarrow> 2 * length re + 1,
                          \<lambda>x. case x of Inl (re, cs) \<Rightarrow> length cs | Inr (c, re, cs) \<Rightarrow> length cs]")
    (auto simp: neq_Nil_conv)

declare matchhere.simps [simp del] matchstar.simps [simp del]

fun match_from :: "u8 list \<Rightarrow> u8 list \<Rightarrow> bool" where
  "match_from re [] = matchhere re []"
| "match_from re (c # cs) = (if matchhere re (c # cs) then True else match_from re cs)"

definition match :: "u8 list \<Rightarrow> u8 list \<Rightarrow> bool" where
  "match re cs = (if re \<noteq> [] \<and> hd re = 94 then matchhere (tl re) cs else match_from re cs)"

section \<open>Loop over the lines\<close>

fun strchr :: "u8 list \<Rightarrow> u8 \<Rightarrow> nat option" where
  "strchr [] c = None"
| "strchr (b # s) c = (if b = 0 then None else if b = c then Some 0 else map_option Suc (strchr s c))"

lemma strchr_less: "strchr s c = Some q \<Longrightarrow> q < length s"
  by (induction s arbitrary: q) (auto split: if_splits)

text \<open>The lines in the buffer from \<open>p\<close> on: the output and what remains after the last newline.\<close>

function grep_lines :: "u8 list \<Rightarrow> u8 list \<Rightarrow> u8 list \<times> u8 list" where
  "grep_lines re p =
     (case strchr p 10 of
        None \<Rightarrow> ([], p)
      | Some q \<Rightarrow>
          let (out, r) = grep_lines re (drop (Suc q) p) in
          ((if match re (take q p) then take (Suc q) p else []) @ out, r))"
  by pat_completeness auto
termination
  by (relation "measure (\<lambda>(re, p). length p)") (auto dest: strchr_less)

declare grep_lines.simps [simp del]

definition BUF :: nat where
  "BUF = 1024"

partial_function (option) grep_loop ::
    "('f \<Rightarrow> nat \<Rightarrow> u8 list option \<times> 'f) \<Rightarrow> u8 list \<Rightarrow> 'f \<Rightarrow> u8 list \<Rightarrow> u8 list \<Rightarrow> (u8 list \<times> 'f) option" where
  "grep_loop rd re fd buf out =
     (case rd fd (BUF - length buf - 1) of
        (None, fd) \<Rightarrow> Some (out, fd)
      | (Some bs, fd) \<Rightarrow>
          if bs = [] then Some (out, fd)
          else let (o', r) = grep_lines re (buf @ bs) in grep_loop rd re fd r (out @ o'))"

definition grep :: "('f \<Rightarrow> nat \<Rightarrow> u8 list option \<times> 'f) \<Rightarrow> u8 list \<Rightarrow> 'f \<Rightarrow> (u8 list \<times> 'f) option" where
  "grep rd re fd = grep_loop rd re fd [] []"

text \<open>\<open>main\<close>: exit status, standard output and standard error; a failed \<open>open\<close> is \<open>None\<close>.\<close>

fun grep_files :: "(u8 list \<Rightarrow> 'f option) \<Rightarrow> ('f \<Rightarrow> nat \<Rightarrow> u8 list option \<times> 'f) \<Rightarrow> u8 list \<Rightarrow> u8 list list \<Rightarrow> u8 list \<Rightarrow>
    (nat \<times> u8 list \<times> u8 list) option" where
  "grep_files opn rd re [] out = Some (0, out, [])"
| "grep_files opn rd re (a # as) out =
     (case opn a of
        None \<Rightarrow> Some (1, out @ str ''grep: cannot open '' @ a @ [10], [])
      | Some fd \<Rightarrow>
          (case grep rd re fd of
             None \<Rightarrow> None
           | Some (o', fd) \<Rightarrow> grep_files opn rd re as (out @ o')))"

definition grep_main :: "(u8 list \<Rightarrow> 'f option) \<Rightarrow> ('f \<Rightarrow> nat \<Rightarrow> u8 list option \<times> 'f) \<Rightarrow> 'f \<Rightarrow> u8 list list \<Rightarrow>
    (nat \<times> u8 list \<times> u8 list) option" where
  "grep_main opn rd stdin argv =
     (case argv of
        prog # re # files \<Rightarrow>
          if files = [] then map_option (\<lambda>(out, fd). (0, out, [])) (grep rd re stdin)
          else grep_files opn rd re files []
      | _ \<Rightarrow> Some (1, [], str ''usage: grep pattern [file ...]'' @ [10]))"

section \<open>What a pattern denotes\<close>

datatype item = One u8 | Star u8

fun items :: "u8 list \<Rightarrow> item list \<times> bool" where
  "items [] = ([], False)"
| "items [c] = (if c = 36 then ([], True) else ([One c], False))"
| "items (c # d # re) =
     (if d = 42 then (let (is, e) = items re in (Star c # is, e))
      else (let (is, e) = items (d # re) in (One c # is, e)))"

definition accepts :: "u8 \<Rightarrow> u8 \<Rightarrow> bool" where
  "accepts c x \<longleftrightarrow> c = 46 \<or> c = x"

fun lang :: "item list \<Rightarrow> u8 list set" where
  "lang [] = {[]}"
| "lang (One c # is) = {x # w |x w. accepts c x \<and> w \<in> lang is}"
| "lang (Star c # is) = {u @ w |u w. list_all (accepts c) u \<and> w \<in> lang is}"

text \<open>A text begins with a word of the pattern, and is that word when the pattern ends in \<open>$\<close>.\<close>

definition begins :: "u8 list \<Rightarrow> u8 list \<Rightarrow> bool" where
  "begins re cs \<longleftrightarrow> (\<exists>v w. cs = v @ w \<and> v \<in> lang (fst (items re)) \<and> (snd (items re) \<longrightarrow> w = []))"

lemma begins_Nil [simp]: "begins [] cs"
  by (simp add: begins_def)

lemma begins_end: "begins [36] cs \<longleftrightarrow> cs = []"
  by (auto simp: begins_def)

lemma begins_head:
  assumes "items (c # re) = (One c # fst (items re), snd (items re))"
  shows "begins (c # re) cs \<longleftrightarrow> (\<exists>x t. cs = x # t \<and> accepts c x \<and> begins re t)"
proof
  assume "begins (c # re) cs"
  then obtain v' w where v: "cs = v' @ w" "v' \<in> lang (One c # fst (items re))" "snd (items re) \<longrightarrow> w = []"
    unfolding begins_def assms fst_conv snd_conv by blast
  then obtain x v where "v' = x # v" "accepts c x" "v \<in> lang (fst (items re))" by auto
  then have "cs = x # v @ w" "accepts c x" "v \<in> lang (fst (items re))" "snd (items re) \<longrightarrow> w = []" using v by simp_all
  then show "\<exists>x t. cs = x # t \<and> accepts c x \<and> begins re t" unfolding begins_def by blast
next
  assume "\<exists>x t. cs = x # t \<and> accepts c x \<and> begins re t"
  then obtain x v w where *: "cs = x # v @ w" "accepts c x" "v \<in> lang (fst (items re))" "snd (items re) \<longrightarrow> w = []"
    unfolding begins_def by blast
  have "cs = (x # v) @ w" "x # v \<in> lang (One c # fst (items re))" using * by auto
  then show "begins (c # re) cs" unfolding begins_def assms fst_conv snd_conv using *(4) by blast
qed

lemma begins_one:
  assumes "re = [] \<or> hd re \<noteq> 42" and "\<not> (c = 36 \<and> re = [])"
  shows "begins (c # re) cs \<longleftrightarrow> (\<exists>x t. cs = x # t \<and> accepts c x \<and> begins re t)"
  by (rule begins_head) (use assms in \<open>cases re; simp add: case_prod_beta\<close>)

lemma begins_star:
  "begins (c # 42 # re) cs \<longleftrightarrow> (\<exists>u t. cs = u @ t \<and> list_all (accepts c) u \<and> begins re t)"
proof -
  have i: "items (c # 42 # re) = (Star c # fst (items re), snd (items re))" by (simp add: case_prod_beta)
  show ?thesis unfolding begins_def i by (simp, metis append.assoc)
qed

lemma begins_star_step:
  "begins (c # 42 # re) cs \<longleftrightarrow>
     begins re cs \<or> (\<exists>x t. cs = x # t \<and> accepts c x \<and> begins (c # 42 # re) t)"
proof
  assume "begins (c # 42 # re) cs"
  then obtain u t where u: "cs = u @ t" "list_all (accepts c) u" "begins re t" unfolding begins_star by blast
  then show "begins re cs \<or> (\<exists>x t. cs = x # t \<and> accepts c x \<and> begins (c # 42 # re) t)"
    by (cases u) (auto simp: begins_star)
next
  assume "begins re cs \<or> (\<exists>x t. cs = x # t \<and> accepts c x \<and> begins (c # 42 # re) t)"
  then show "begins (c # 42 # re) cs"
  proof
    assume "begins re cs"
    then show ?thesis unfolding begins_star by (metis append_Nil list.pred_inject(1))
  next
    assume "\<exists>x t. cs = x # t \<and> accepts c x \<and> begins (c # 42 # re) t"
    then obtain x u t where "cs = x # u @ t" "accepts c x" "list_all (accepts c) u" "begins re t"
      unfolding begins_star by blast
    then show ?thesis unfolding begins_star by (intro exI [of _ "x # u"] exI [of _ t]) simp
  qed
qed

lemma matchhere_begins:
  "matchhere re cs \<longleftrightarrow> begins re cs"
  "matchstar c re' cs' \<longleftrightarrow> begins (c # 42 # re') cs'"
proof (induction re cs and c re' cs' rule: matchhere_matchstar.induct)
  case (1 re cs)
  show ?case
  proof (cases re)
    case (Cons c r)
    consider (star) r' where "r = 42 # r'" | (dollar) "c = 36" "r = []"
      | (one) "r = [] \<or> hd r \<noteq> 42" "\<not> (c = 36 \<and> r = [])" by (cases r) auto
    then show ?thesis
    proof cases
      case star
      then show ?thesis using 1(1) [OF Cons] Cons by (subst matchhere.simps) simp
    next
      case dollar
      then show ?thesis using Cons by (subst matchhere.simps) (simp add: begins_end)
    next
      case one
      then show ?thesis using 1(2) [OF Cons] Cons
        by (subst matchhere.simps) (cases cs, auto simp: begins_one accepts_def)
    qed
  qed (simp add: matchhere.simps)
next
  case (2 c re cs)
  then show ?case
    by (subst matchstar.simps, subst begins_star_step) (cases cs, auto simp: accepts_def)
qed

lemma match_from_begins: "match_from re cs \<longleftrightarrow> (\<exists>u t. cs = u @ t \<and> begins re t)"
proof (induction cs)
  case (Cons c cs)
  have "(\<exists>u t. c # cs = u @ t \<and> begins re t) \<longleftrightarrow> begins re (c # cs) \<or> (\<exists>u t. cs = u @ t \<and> begins re t)"
    by (metis append_Cons append_Nil append_eq_Cons_conv)
  then show ?case using Cons by (simp add: matchhere_begins)
qed (simp add: matchhere_begins)

text \<open>
  C12 (equivalence): the matcher of grep decides the language of its pattern: a line matches exactly when it has
  a part that is a word of the pattern, at the start of the line when the pattern begins with \<open>^\<close>, and up to the end
  when it ends in \<open>$\<close>. The recursion on pointers is total on all patterns and lines.
\<close>

theorem match_denotes:
  "match re cs \<longleftrightarrow>
     (let caret = (re \<noteq> [] \<and> hd re = 94); body = (if caret then tl re else re) in
      \<exists>u v w. cs = u @ v @ w \<and> v \<in> lang (fst (items body)) \<and>
        (caret \<longrightarrow> u = []) \<and> (snd (items body) \<longrightarrow> w = []))"
  unfolding match_def Let_def matchhere_begins match_from_begins begins_def by auto

theorem match_denotes_witness:
  "match [97, 42, 98, 36] [99, 97, 97, 98] \<and> \<not> match [94, 97, 42, 98] [99, 97, 97, 98] \<and>
   (\<exists>u v w. [99, 97, 97, 98] = u @ v @ w \<and> v \<in> lang (fst (items [97, 42, 98, 36])) \<and> (snd (items [97, 42, 98, 36]) \<longrightarrow> w = []))"
proof -
  have m: "match [97, 42, 98, 36] [99, 97, 97, 98]" "\<not> match [94, 97, 42, 98] [99, 97, 97, 98]" by code_simp+
  then show ?thesis using match_denotes [of "[97, 42, 98, 36]" "[99, 97, 97, 98]"] by (simp add: Let_def)
qed

section \<open>Lines of the input\<close>

text \<open>The complete lines of an input, without their newlines, and what follows the last newline.\<close>

function complete_lines :: "u8 list \<Rightarrow> u8 list list" where
  "complete_lines s =
     (if 10 \<in> set s then takeWhile (\<lambda>b. b \<noteq> 10) s # complete_lines (tl (dropWhile (\<lambda>b. b \<noteq> 10) s)) else [])"
  by pat_completeness auto
termination
proof (relation "measure length")
  fix s :: "u8 list"
  assume "10 \<in> set s"
  then have "dropWhile (\<lambda>b. b \<noteq> 10) s \<noteq> []" by (simp add: dropWhile_eq_Nil_conv)
  moreover have "length (dropWhile (\<lambda>b. b \<noteq> 10) s) \<le> length s" by (rule length_dropWhile_le)
  ultimately show "(tl (dropWhile (\<lambda>b. b \<noteq> 10) s), s) \<in> measure length" by (cases s) (auto simp: neq_Nil_conv)
qed simp

declare complete_lines.simps [simp del]

definition matching_lines :: "u8 list \<Rightarrow> u8 list \<Rightarrow> u8 list" where
  "matching_lines re s = concat (map (\<lambda>l. l @ [10]) (filter (match re) (complete_lines s)))"

text \<open>The documented behaviour of \<open>read\<close> on a file with content \<open>rest fd\<close> ahead: it delivers a prefix that fits, and nothing only at the end of
  the file or without room.\<close>

definition delivers :: "('f \<Rightarrow> nat \<Rightarrow> u8 list option \<times> 'f) \<Rightarrow> ('f \<Rightarrow> u8 list) \<Rightarrow> bool" where
  "delivers rd rest \<longleftrightarrow> (\<forall>fd n. \<exists>bs fd'. rd fd n = (Some bs, fd') \<and> length bs \<le> n \<and> rest fd = bs @ rest fd' \<and>
     (bs = [] \<longrightarrow> n = 0 \<or> rest fd = []))"

lemma complete_lines_none: "10 \<notin> set s \<Longrightarrow> complete_lines s = []"
  by (simp add: complete_lines.simps)

lemma split_newline:
  "10 \<notin> set l \<Longrightarrow> takeWhile (\<lambda>b. b \<noteq> 10) (l @ 10 # s) = l \<and> dropWhile (\<lambda>b. b \<noteq> 10) (l @ 10 # s) = (10 :: u8) # s"
  by (induction l) auto

lemma complete_lines_line: "10 \<notin> set l \<Longrightarrow> complete_lines (l @ 10 # s) = l # complete_lines s"
  by (subst complete_lines.simps) (simp add: split_newline)

lemma strchr_None: "0 \<notin> set s \<Longrightarrow> strchr s c = None \<longleftrightarrow> c \<notin> set s"
  by (induction s) auto

lemma strchr_Some: "strchr s c = Some q \<Longrightarrow> c \<notin> set (take q s) \<and> s = take q s @ c # drop (Suc q) s"
  by (induction s arbitrary: q) (auto split: if_splits)

lemma matching_lines_none [simp]: "10 \<notin> set s \<Longrightarrow> matching_lines re s = []"
  by (simp add: matching_lines_def complete_lines_none)

lemma matching_lines_line:
  "10 \<notin> set l \<Longrightarrow> matching_lines re (l @ 10 # s) = (if match re l then l @ [10] else []) @ matching_lines re s"
  by (simp add: matching_lines_def complete_lines_line)

lemma grep_lines_spec:
  "0 \<notin> set p \<Longrightarrow> \<exists>r d. p = d @ r \<and> 10 \<notin> set r \<and> grep_lines re p = (matching_lines re p, r) \<and>
     (\<forall>s. matching_lines re (p @ s) = matching_lines re p @ matching_lines re (r @ s) \<and>
          set (complete_lines (r @ s)) \<subseteq> set (complete_lines (p @ s)))"
proof (induction re p rule: grep_lines.induct)
  case (1 re p)
  show ?case
  proof (cases "strchr p 10")
    case None
    then have n: "10 \<notin> set p" using 1(2) strchr_None by blast
    then show ?thesis using None by (intro exI [of _ p] exI [of _ "[]"]) (simp add: grep_lines.simps)
  next
    case (Some q)
    define l and p' where "l = take q p" and "p' = drop (Suc q) p"
    then have p: "p = l @ 10 # p'" and l: "10 \<notin> set l" using strchr_Some [OF Some] by blast+
    have "length l = q" using strchr_less [OF Some] by (simp add: l_def)
    then have t: "take (Suc q) p = l @ [10]" unfolding p by simp
    have "0 \<notin> set p'" using 1(2) unfolding p'_def by (meson in_set_dropD)
    then obtain r d where r: "p' = d @ r" "10 \<notin> set r" "grep_lines re p' = (matching_lines re p', r)"
      and s: "\<And>s. matching_lines re (p' @ s) = matching_lines re p' @ matching_lines re (r @ s) \<and>
          set (complete_lines (r @ s)) \<subseteq> set (complete_lines (p' @ s))"
      using 1(1) [OF Some] unfolding p'_def by blast
    have e: "matching_lines re p = (if match re l then l @ [10] else []) @ matching_lines re p'"
      unfolding p by (rule matching_lines_line [OF l])
    have g: "grep_lines re p = (matching_lines re p, r)"
      by (subst grep_lines.simps) (simp only: Some option.case r(3) t Let_def split_conv e flip: l_def p'_def)
    have a: "p @ s = l @ 10 # (p' @ s)" for s unfolding p by simp
    have m: "matching_lines re (p @ s) = matching_lines re p @ matching_lines re (r @ s)" for s
      unfolding a matching_lines_line [OF l] e using s [of s] by simp
    have c: "set (complete_lines (r @ s)) \<subseteq> set (complete_lines (p @ s))" for s
      unfolding a complete_lines_line [OF l] using s [of s] by auto
    have "p = (l @ 10 # d) @ r" unfolding p r(1) by simp
    then show ?thesis using r(2) g m c by blast
  qed
qed

lemma grep_loop_spec:
  assumes rd: "delivers rd rest"
  shows "0 \<notin> set (buf @ rest fd) \<Longrightarrow> 10 \<notin> set buf \<Longrightarrow> length buf < BUF \<Longrightarrow>
    \<forall>l \<in> set (complete_lines (buf @ rest fd)). Suc (length l) < BUF \<Longrightarrow>
    \<exists>fd'. grep_loop rd re fd buf out = Some (out @ matching_lines re (buf @ rest fd), fd')"
proof (induction "length (rest fd)" arbitrary: fd buf out rule: less_induct)
  case less
  obtain bs fd' where r: "rd fd (BUF - length buf - 1) = (Some bs, fd')" "length bs \<le> BUF - length buf - 1"
    "rest fd = bs @ rest fd'" "bs = [] \<longrightarrow> BUF - length buf - 1 = 0 \<or> rest fd = []"
    using rd unfolding delivers_def by blast
  show ?case
  proof (cases "bs = []")
    case True
    have "10 \<notin> set (buf @ rest fd)"
    proof
      assume "10 \<in> set (buf @ rest fd)"
      then have nl: "10 \<in> set (rest fd)" using less.prems(2) by simp
      then obtain a b where ab: "rest fd = a @ 10 # b" "10 \<notin> set a" by (meson split_list_first)
      have "buf @ rest fd = (buf @ a) @ 10 # b" using ab by simp
      then have "complete_lines (buf @ rest fd) = (buf @ a) # complete_lines b"
        using complete_lines_line [of "buf @ a" b] ab(2) less.prems(2) by simp
      then have "Suc (length buf) < BUF" using less.prems(4) by auto
      then show False using True r(4) nl by auto
    qed
    then show ?thesis using True r(1) by (subst grep_loop.simps) simp
  next
    case False
    have z: "0 \<notin> set (buf @ bs)" using less.prems(1) r(3) by simp
    obtain t d where t: "buf @ bs = d @ t" "10 \<notin> set t" "grep_lines re (buf @ bs) = (matching_lines re (buf @ bs), t)"
      and s: "matching_lines re ((buf @ bs) @ rest fd') = matching_lines re (buf @ bs) @ matching_lines re (t @ rest fd')"
        "set (complete_lines (t @ rest fd')) \<subseteq> set (complete_lines ((buf @ bs) @ rest fd'))"
      using grep_lines_spec [OF z, of re] by blast
    have e: "buf @ rest fd = (buf @ bs) @ rest fd'" using r(3) by simp
    have l: "length (buf @ bs) < BUF" using r(2) less.prems(3) by simp
    have "length (rest fd') < length (rest fd)" using False r(3) by simp
    moreover have "0 \<notin> set (t @ rest fd')" using less.prems(1) t(1) unfolding e by auto
    moreover have "length t < BUF" using l t(1) by (metis add_lessD1 add.commute length_append)
    moreover have "\<forall>l \<in> set (complete_lines (t @ rest fd')). Suc (length l) < BUF" using less.prems(4) s(2) unfolding e by blast
    ultimately obtain fd'' where "grep_loop rd re fd' t (out @ matching_lines re (buf @ bs)) =
        Some ((out @ matching_lines re (buf @ bs)) @ matching_lines re (t @ rest fd'), fd'')"
      using less.hyps t(2) by blast
    then show ?thesis unfolding e s(1) using False r(1) t(3) by (subst grep_loop.simps) simp
  qed
qed

lemma grep_spec:
  assumes "delivers rd rest" and "0 \<notin> set (rest fd)" and "\<forall>l \<in> set (complete_lines (rest fd)). Suc (length l) < BUF"
  shows "\<exists>fd'. grep rd re fd = Some (matching_lines re (rest fd), fd')"
  using grep_loop_spec [OF assms(1), of "[]" fd re "[]"] assms(2,3) by (simp add: grep_def BUF_def)

lemma grep_files_spec:
  assumes rd: "delivers rd rest"
  shows "(\<forall>a \<in> set as. \<exists>fd. opn a = Some fd \<and> 0 \<notin> set (rest fd) \<and> (\<forall>l \<in> set (complete_lines (rest fd)). Suc (length l) < BUF)) \<Longrightarrow>
    grep_files opn rd re as out = Some (0, out @ concat (map (\<lambda>a. matching_lines re (rest (the (opn a)))) as), [])"
proof (induction as arbitrary: out)
  case (Cons a as)
  then obtain fd where fd: "opn a = Some fd" "0 \<notin> set (rest fd)" "\<forall>l \<in> set (complete_lines (rest fd)). Suc (length l) < BUF"
    by auto
  then obtain fd' where "grep rd re fd = Some (matching_lines re (rest fd), fd')"
    using grep_spec [OF rd] by blast
  then show ?case using fd(1) Cons by simp
qed simp

text \<open>A file that is read in pieces of at most three bytes.\<close>

definition read_three :: "u8 list \<Rightarrow> nat \<Rightarrow> u8 list option \<times> u8 list" where
  "read_three fd n = (Some (take (min 3 n) fd), drop (min 3 n) fd)"

lemma read_three_delivers: "delivers read_three (\<lambda>fd. fd)"
  by (auto simp: delivers_def read_three_def)

lemma three_lines:
  "complete_lines [97, 98, 10, 98, 10, 97, 99, 99, 10, 97] = [[97, 98], [98], [97, 99, 99]]"
  "matching_lines [94, 97] [97, 98, 10, 98, 10, 97, 99, 99, 10, 97] = [97, 98, 10, 97, 99, 99, 10]"
  by code_simp+

text \<open>
  C13 (functional): grep prints exactly the matching lines of its files, file after file, in order and with their newlines, however
  the system call cuts the input into pieces, when every file opens, no line is longer than the 1022 bytes that fit the buffer and
  no file has a NUL. It returns with exit status 0. Text after the last newline of a file is never printed.
\<close>

theorem grep_prints_matching_lines:
  assumes "delivers rd rest" and "files \<noteq> []"
    and "\<forall>a \<in> set files. \<exists>fd. opn a = Some fd \<and> 0 \<notin> set (rest fd) \<and>
           (\<forall>l \<in> set (complete_lines (rest fd)). Suc (length l) < BUF)"
  shows "grep_main opn rd stdin (prog # re # files) =
    Some (0, concat (map (\<lambda>a. matching_lines re (rest (the (opn a)))) files), [])"
  using grep_files_spec [OF assms(1,3), of re "[]"] assms(2) by (simp add: grep_main_def)

theorem grep_prints_matching_lines_witness:
  "grep_main (\<lambda>a. Some [97, 98, 10, 98, 10, 97, 99, 99, 10, 97]) read_three [] [[103], [94, 97], [102]] =
     Some (0, [97, 98, 10, 97, 99, 99, 10], [])"
  using grep_prints_matching_lines [OF read_three_delivers, of "[[102]]" "\<lambda>a. Some [97, 98, 10, 98, 10, 97, 99, 99, 10, 97]" "[]" "[103]" "[94, 97]"]
  by (simp add: three_lines BUF_def)

end
