(* ===== verification/Spec2Isabelle.thy ===== *)
theory Spec2Isabelle
  imports Strings Vm_Copy Proc_Facts Signals Log_Crash Grep
begin

text \<open>
  Verification of the customised xv6 kernel for RISC-V (\<^verbatim>\<open>G25_Project1_xv6CustomizeSystemCalls\<close>).

  \<^bold>\<open>The program.\<close> A Unix-like kernel. Spin locks protect the data of the harts; a page allocator and a
  page-table module give memory to the kernel and to processes; a process table with a
  scheduler, sleep and wakeup runs them; system calls enter through a trap handler and a
  table. Files are pipes, devices or inodes; inodes live on a disk behind a redo log and a
  buffer cache whose buffers carry sleep locks. The customisation adds signals, messages between processes, a counting
  semaphore, user-visible locks and a lazily growing heap.

  \<^bold>\<open>The model.\<close> Memory is a function from 64-bit addresses to bytes. The state of the kernel is one record that
  each layer extends: the locks a kernel thread holds (\<open>kthread\<close>, theory \<open>Spinlock\<close>), memory
  and free list (\<open>kmem\<close>, \<open>Kalloc\<close>), the output (\<open>kio\<close>, \<open>Printf\<close>), processes, page tables and trap frames (\<open>kstate\<close>, \<open>Kstate\<close>), pipes
  (\<open>kpipe\<close>, \<open>Pipe\<close>), console and UART (\<open>kcons\<close>, \<open>Console\<close>), sleep locks (\<open>kslock\<close>, \<open>Sleeplock\<close>), the buffer cache and the disk (\<open>kbio\<close>,
  \<open>Bio\<close>), the log (\<open>klog\<close>, \<open>Log\<close>), superblock and inodes (\<open>kfs\<close>, \<open>Fs\<close>), open files (\<open>kfile\<close>, \<open>File\<close>) and the trap
  registers (\<open>ktrap\<close>, \<open>Life\<close>). An operation is polymorphic in what lies above it. Its result is
  an \<open>outcome\<close>: a value with the new state, a panic with its message, a state in which the process gave up the CPU, or
  a loop without end. A function that waits has a second definition, with the suffix
  \<open>_resume\<close>, for what it does when the scheduler comes back to it; file-system calls that meet a locked buffer or
  inode end in \<open>Sleep\<close>.

  \<^bold>\<open>Theories and sources.\<close> \<open>Prelude\<close> holds outcomes, bytes and memory, \<open>Strings\<close> models \<^verbatim>\<open>kernel/string.c\<close>, \<open>Spinlock\<close> \<^verbatim>\<open>spinlock.c\<close>, once for
  harts that interleave at single memory accesses and once as seen by one thread, \<open>Layout\<close> the macros of \<^verbatim>\<open>riscv.h\<close> and
  \<^verbatim>\<open>memlayout.h\<close>, \<open>Kalloc\<close> \<^verbatim>\<open>kalloc.c\<close>, \<open>Printf\<close> \<^verbatim>\<open>printf.c\<close>, \<open>Vm\<close> \<^verbatim>\<open>vm.c\<close>, \<open>Kstate\<close> and \<open>Proc\<close> \<^verbatim>\<open>proc.h\<close> and \<^verbatim>\<open>proc.c\<close> with \<open>Life\<close> for fork, exit and the first
  return to user space, \<open>Sysproc\<close> \<^verbatim>\<open>sysproc.c\<close> and the argument fetching of \<^verbatim>\<open>syscall.c\<close>, \<open>Pipe\<close> \<^verbatim>\<open>pipe.c\<close>, \<open>Console\<close> \<^verbatim>\<open>console.c\<close> and \<^verbatim>\<open>uart.c\<close>, \<open>Sleeplock\<close>
  \<^verbatim>\<open>sleeplock.c\<close>, \<open>Bio\<close> \<^verbatim>\<open>bio.c\<close>, \<open>Log\<close> \<^verbatim>\<open>log.c\<close>, \<open>Fs\<close> \<^verbatim>\<open>fs.c\<close>, \<open>File\<close> \<^verbatim>\<open>file.c\<close>, \<open>Sysfile\<close> \<^verbatim>\<open>sysfile.c\<close>, \<open>Exec\<close> \<^verbatim>\<open>exec.c\<close>, \<open>Trap\<close> \<^verbatim>\<open>trap.c\<close>, the table of \<^verbatim>\<open>syscall.c\<close> and the claiming of
  interrupts in \<^verbatim>\<open>plic.c\<close>. Each definition has the name of the C function; loops are functions of their own with the suffix
  \<open>_loop\<close> or \<open>_scan\<close>.

  \<^bold>\<open>What is shown.\<close> \<open>Spinlock\<close>: mutual exclusion of the machine with interleaved harts, and that the view of one
  thread, which all other theories use, is refined by it. \<open>Kalloc\<close>: the free list is a stack of
  pages, and the boot code frees every page. \<open>Vm_Tree\<close>, \<open>Vm_Map\<close>, \<open>Vm_Copy\<close>, \<open>Vm_Frame\<close>: page tables as trees of
  frames, mapping installs translations, copies to and from user space are inverse, and every
  operation of the module changes memory only. \<open>Proc_Facts\<close>: allocation of slots, exact effects of wakeup, kill and
  wait, no lost wakeup, and a fair scheduler round. \<open>Ring\<close>: ring buffers as queues, a locale with instances for pipes
  and the console. \<open>Frames\<close>: what lower layers leave alone. \<open>Sysproc\<close>, \<open>Pipe\<close>, \<open>Console\<close>: the semaphore counts, a pipe is a bounded queue, the console a line
  editor. \<open>Signals\<close>: delivery and return of signals. \<open>Sleeplock_Facts\<close>: sleep locks exclude and lose no
  wakeup. \<open>Dll\<close>, \<open>Bio_Facts\<close>: the buffers are a circular doubly linked list in the order of use, no block has two buffers,
  and reading returns the current content. \<open>Block_Store\<close>: the cache as an interface (a locale) with the access
  patterns of the log proved from its laws, and the cache of \<open>Bio\<close> as its instance. \<open>Log_Facts\<close>, \<open>Log_Crash\<close>: the writes of a commit one by
  one, recovery on any disk, and atomicity of a transaction under a crash at any point.

  \<^bold>\<open>Bounds and fuel.\<close> Machine integers have their width; arithmetic wraps as in C. Three loops carry a counter.
  Scans of the buffer list (\<open>bscan\<close>) take one step more than there are buffers, which always suffices for a circular list of
  all buffers (\<open>lru_scan\<close>); a list that is broken gives the outcome of an endless loop. The receive loop of the UART
  (\<open>uartintr_loop\<close>) takes one round more than there are bytes waiting, since each round removes one. Freeing a page table
  (\<open>freewalk_depth\<close>) descends three levels, the depth of an Sv39 table; the C function would descend further into a malformed
  table, where the model gives the outcome of an endless loop. \<open>strlen\<close> has no bound: it is partial, and has no
  result on memory without a NUL. The other recursions are structural or have a termination proof.

  \<^bold>\<open>Not modelled.\<close> The virtio driver: the buffer cache sees the completed transfer of a block (\<open>disk_rw\<close>). The
  boot code and the assembly for entry, context switch and trap vectors: sequences of register accesses. TLB flushes and memory
  barriers, which the sequential memory of the model makes invisible. User programs and the custom utilities run on the
  system and are no part of it.
\<close>

end
